(* ===== verification/Prelude.thy ===== *)
theory Prelude
  imports Main "HOL-Library.Word" "HOL-Library.Monad_Syntax"
begin

unbundle bit_operations_syntax

text \<open>
  Shared vocabulary of the development.

  \<^item> Machine integers: the C types \<open>uint8_t\<close>, \<open>uint16_t\<close>, \<open>uint32_t\<close> are words of that
    width. \<open>size_t\<close> values count bytes or elements of real objects and are \<open>nat\<close>; where the
    source narrows a \<open>size_t\<close> to \<open>uint32_t\<close> or \<open>uint8_t\<close> the narrowing is written out.
  \<^item> Pointers: \<open>'a ptr\<close> is \<open>None\<close> for NULL and \<open>Some v\<close> for a pointer to a cell (or an array,
    as a list) that currently holds \<open>v\<close>. A function that writes through a pointer returns the
    new content.
  \<^item> Memory faults: a computation is an \<open>option\<close>; \<open>None\<close> is undefined behaviour, that is, a
    dereference of NULL or an access outside of an array. A theorem that a call is \<open>Some\<close> is a
    memory-safety theorem.
  \<^item> The shared shape of the service handlers (\<open>resp\<close>, \<open>resp_len\<close>, \<open>nrc_out\<close> and the
    \<open>UdsCoreError\<close> code), and the contract they all satisfy as the locale \<open>uds_service\<close>.
\<close>

section \<open>Types\<close>

type_synonym u8 = "8 word"
type_synonym u16 = "16 word"
type_synonym u32 = "32 word"
type_synonym 'a ptr = "'a option"

named_theorems mem_simps "evaluation of memory accesses on valid pointers"
named_theorems svc_defs "definitions of the service handlers"

section \<open>Memory accesses\<close>

text \<open>\<open>p[i]\<close> as a value, \<open>p[i] = v\<close>, \<open>memcpy\<close> and \<open>memset\<close> on arrays.\<close>

definition mem_get :: "'a list ptr \<Rightarrow> nat \<Rightarrow> 'a option" where
  "mem_get p i = (case p of None \<Rightarrow> None
     | Some xs \<Rightarrow> if i < length xs then Some (xs ! i) else None)"

definition mem_set :: "'a list ptr \<Rightarrow> nat \<Rightarrow> 'a \<Rightarrow> 'a list option" where
  "mem_set p i v = (case p of None \<Rightarrow> None
     | Some xs \<Rightarrow> if i < length xs then Some (xs[i := v]) else None)"

definition splice :: "nat \<Rightarrow> 'a list \<Rightarrow> 'a list \<Rightarrow> 'a list" where
  "splice off src dst = take off dst @ src @ drop (off + length src) dst"

definition mem_put :: "'a list ptr \<Rightarrow> nat \<Rightarrow> 'a list \<Rightarrow> 'a list option" where
  "mem_put p off src = (case p of None \<Rightarrow> None
     | Some dst \<Rightarrow> if off + length src \<le> length dst then Some (splice off src dst) else None)"

definition mem_read :: "'a list ptr \<Rightarrow> nat \<Rightarrow> nat \<Rightarrow> 'a list option" where
  "mem_read p off n = (case p of None \<Rightarrow> None
     | Some src \<Rightarrow> if off + n \<le> length src then Some (take n (drop off src)) else None)"

definition mem_cpy :: "'a list ptr \<Rightarrow> nat \<Rightarrow> 'a list ptr \<Rightarrow> nat \<Rightarrow> nat \<Rightarrow> 'a list option" where
  "mem_cpy dst doff src soff n = do { bs \<leftarrow> mem_read src soff n; mem_put dst doff bs }"

text \<open>
  The search loop \<open>for (i = 0; i < count; i++) if (P(entries[i])) return i\<close>, shared by every
  registry of the program: the outer option is a fault, the inner one the search result.
\<close>

function scan :: "('a \<Rightarrow> bool) \<Rightarrow> 'a list ptr \<Rightarrow> nat \<Rightarrow> nat \<Rightarrow> nat option option" where
  "scan P p i count =
     (if i < count then
        (case mem_get p i of None \<Rightarrow> None
         | Some x \<Rightarrow> if P x then Some (Some i) else scan P p (Suc i) count)
      else Some None)"
  by pat_completeness auto
termination
  by (relation "measure (\<lambda>(P, p, i, count). count - i)") auto

declare scan.simps [simp del]

lemma mem_get_valid [mem_simps]: "i < length xs \<Longrightarrow> mem_get (Some xs) i = Some (xs ! i)"
  by (simp add: mem_get_def)

lemma mem_set_valid [mem_simps]: "i < length xs \<Longrightarrow> mem_set (Some xs) i v = Some (xs[i := v])"
  by (simp add: mem_set_def)

lemma mem_put_valid [mem_simps]:
  "off + length src \<le> length dst \<Longrightarrow> mem_put (Some dst) off src = Some (splice off src dst)"
  by (simp add: mem_put_def)

lemma mem_read_valid [mem_simps]:
  "off + n \<le> length src \<Longrightarrow> mem_read (Some src) off n = Some (take n (drop off src))"
  by (simp add: mem_read_def)

lemma length_splice [simp]:
  "off + length src \<le> length dst \<Longrightarrow> length (splice off src dst) = length dst"
  by (simp add: splice_def)

lemma splice_Nil [simp]: "splice off [] dst = dst"
  by (simp add: splice_def)

lemma take_splice0 [simp]: "take (length src) (splice 0 src dst) = src"
  by (simp add: splice_def)

lemma take_splice_prefix [simp]: "n = length src \<Longrightarrow> take n (splice 0 src dst) = src"
  by simp

lemma take_splice_le [simp]:
  "n \<le> off \<Longrightarrow> off \<le> length dst \<Longrightarrow> take n (splice off src dst) = take n dst"
  by (simp add: splice_def min_def)

lemma take_splice_end:
  "off \<le> length dst \<Longrightarrow> take (off + length src) (splice off src dst) = take off dst @ src"
  by (simp add: splice_def)

lemma drop_splice_beyond:
  "off + length src \<le> n \<Longrightarrow> n \<le> length dst \<Longrightarrow> drop n (splice off src dst) = drop n dst"
  by (simp add: splice_def)

lemma splice_splice_adjacent:
  "off + length a + length b \<le> length dst \<Longrightarrow>
   splice (off + length a) b (splice off a dst) = splice off (a @ b) dst"
  by (simp add: splice_def algebra_simps)

lemma splice_before:
  "length a + length bs \<le> length dst \<Longrightarrow> n = length a \<Longrightarrow>
   splice 0 a (splice n bs dst) = splice 0 (a @ bs) dst"
  by (simp add: splice_def)

lemma scan_Some:
  "scan P p i count = Some (Some k) \<Longrightarrow>
     \<exists>xs. p = Some xs \<and> i \<le> k \<and> k < count \<and> k < length xs \<and> P (xs ! k) \<and>
       (\<forall>j. i \<le> j \<and> j < k \<longrightarrow> \<not> P (xs ! j))"
proof (induction P p i count rule: scan.induct)
  case (1 P p i count)
  from "1.prems" obtain x where i: "i < count" and x: "mem_get p i = Some x"
    by (subst (asm) scan.simps) (auto split: if_splits option.splits)
  then obtain xs where p: "p = Some xs" and il: "i < length xs" and xi: "x = xs ! i"
    by (auto simp: mem_get_def split: option.splits if_splits)
  show ?case
  proof (cases "P x")
    case True
    with "1.prems" i x have "k = i" by (subst (asm) scan.simps) simp
    with p il xi True i show ?thesis by auto
  next
    case False
    with "1.prems" i x have "scan P p (Suc i) count = Some (Some k)"
      by (subst (asm) scan.simps) simp
    with "1.IH" i x False obtain ys where "p = Some ys" "Suc i \<le> k" "k < count" "k < length ys"
      "P (ys ! k)" "\<forall>j. Suc i \<le> j \<and> j < k \<longrightarrow> \<not> P (ys ! j)"
      by blast
    with p xi False show ?thesis by (metis Suc_leD le_antisym not_less_eq_eq option.inject)
  qed
qed

lemma scan_None:
  "scan P p i count = Some None \<Longrightarrow> i \<le> j \<Longrightarrow> j < count \<Longrightarrow>
     \<exists>xs. p = Some xs \<and> j < length xs \<and> \<not> P (xs ! j)"
proof (induction P p i count rule: scan.induct)
  case (1 P p i count)
  from "1.prems" have i: "i < count" by simp
  with "1.prems"(1) obtain x where x: "mem_get p i = Some x" and "\<not> P x"
    and rest: "scan P p (Suc i) count = Some None"
    by (subst (asm) scan.simps) (auto split: if_splits option.splits)
  then obtain xs where "p = Some xs" "i < length xs" "x = xs ! i"
    by (auto simp: mem_get_def split: option.splits if_splits)
  with "1.IH" [OF i x \<open>\<not> P x\<close> rest] "1.prems" \<open>\<not> P x\<close> show ?case
    by (cases "i = j") auto
qed

lemma scan_total:
  "count \<le> length xs \<Longrightarrow> \<exists>r. scan P (Some xs) i count = Some r"
proof (induction P "Some xs" i count rule: scan.induct)
  case (1 P i count)
  then show ?case by (subst scan.simps) (auto simp: mem_get_def)
qed

lemma scan_cong_pred:
  assumes "length xs = length ys" and "\<And>j. j < length xs \<Longrightarrow> P (xs ! j) = P (ys ! j)"
  shows "scan P (Some xs) i count = scan P (Some ys) i count"
  using assms
proof (induction P "Some xs" i count rule: scan.induct)
  case (1 P i count)
  then show ?case
    by (subst (1 2) scan.simps) (auto simp: mem_get_def)
qed

lemma scan_first:
  assumes "count \<le> length xs" "k < count" "P (xs ! k)" "\<And>j. j < k \<Longrightarrow> \<not> P (xs ! j)"
  shows "scan P (Some xs) 0 count = Some (Some k)"
proof -
  obtain r where r: "scan P (Some xs) 0 count = Some r"
    using scan_total [OF assms(1)] by blast
  show ?thesis
  proof (cases r)
    case None
    with r assms scan_None [of P "Some xs" 0 count k] show ?thesis by auto
  next
    case (Some m)
    with r scan_Some [of P "Some xs" 0 count m] assms show ?thesis
      by (auto simp: not_less) (metis le_neq_implies_less nat_neq_iff zero_le)
  qed
qed

text \<open>The search against the library's \<open>find\<close> on the first \<open>count\<close> elements.\<close>

lemma scan_find:
  assumes "count \<le> length xs"
  shows "\<exists>r. scan P (Some xs) 0 count = Some r \<and>
    (case r of None \<Rightarrow> find P (take count xs) = None
     | Some k \<Rightarrow> k < count \<and> P (xs ! k) \<and> find P (take count xs) = Some (xs ! k))"
proof -
  obtain r where r: "scan P (Some xs) 0 count = Some r"
    using scan_total [OF assms] by blast
  show ?thesis
  proof (cases r)
    case None
    with r scan_None [of P "Some xs" 0 count] have "\<not> P x" if "x \<in> set (take count xs)" for x
      using that by (force simp: in_set_conv_nth)
    with r None show ?thesis by (auto simp: find_None_iff)
  next
    case (Some k)
    with r scan_Some [of P "Some xs" 0 count k]
    have "k < count" "P (xs ! k)" "\<forall>j<k. \<not> P (xs ! j)" by auto
    then have "find P (take count xs) = Some (xs ! k)"
      using assms by (auto simp: find_Some_iff intro!: exI [of _ k])
    with r Some \<open>k < count\<close> \<open>P (xs ! k)\<close> show ?thesis by auto
  qed
qed

section \<open>Keyed tables\<close>

text \<open>
  The interface of the registries (data identifiers, routines): \<open>find_in p n k\<close> looks a key up
  among the first \<open>n\<close> entries of an array and returns the index of the first match. The handlers
  rely on these laws only.
\<close>

locale keyed_table =
  fixes key :: "'e \<Rightarrow> 'k"
    and find_in :: "'e list ptr \<Rightarrow> nat \<Rightarrow> 'k \<Rightarrow> nat option option"
  assumes hit: "find_in (Some xs) n k = Some (Some i) \<Longrightarrow>
      i < n \<and> i < length xs \<and> key (xs ! i) = k \<and> (\<forall>j < i. key (xs ! j) \<noteq> k)"
    and miss: "find_in (Some xs) n k = Some None \<Longrightarrow> j < n \<Longrightarrow> j < length xs \<and> key (xs ! j) \<noteq> k"
    and total: "n \<le> length xs \<Longrightarrow> \<exists>r. find_in (Some xs) n k = Some r"
begin

definition lookup :: "'e list \<Rightarrow> nat \<Rightarrow> 'k \<Rightarrow> 'e option" where
  "lookup xs n k = find (\<lambda>e. key e = k) (take n xs)"

lemma first_match:
  assumes "n \<le> length xs" "i < n" "key (xs ! i) = k" "\<forall>j < i. key (xs ! j) \<noteq> k"
  shows "find_in (Some xs) n k = Some (Some i)"
proof -
  from total [OF assms(1)] obtain r where r: "find_in (Some xs) n k = Some r" by blast
  show ?thesis
  proof (cases r)
    case None
    with r miss [of xs n k i] assms show ?thesis by simp
  next
    case (Some m)
    with r hit [of xs n k m] have "key (xs ! m) = k" "\<forall>j < m. key (xs ! j) \<noteq> k" by auto
    with assms have "m = i" by (metis nat_neq_iff)
    with r Some show ?thesis by simp
  qed
qed

lemma find_lookup:
  assumes "n \<le> length xs"
  obtains (missing) "find_in (Some xs) n k = Some None" "lookup xs n k = None"
  | (found) i where "find_in (Some xs) n k = Some (Some i)" "i < n" "i < length xs"
      "lookup xs n k = Some (xs ! i)" "key (xs ! i) = k"
proof -
  from total [OF assms] obtain r where r: "find_in (Some xs) n k = Some r" by blast
  show thesis
  proof (cases r)
    case None
    with r miss [of xs n k] have "lookup xs n k = None"
      by (auto simp: lookup_def find_None_iff in_set_conv_nth)
    with r None missing show thesis by simp
  next
    case (Some i)
    with r hit [of xs n k i] have i: "i < n" "i < length xs" "key (xs ! i) = k" "\<forall>j < i. key (xs ! j) \<noteq> k"
      by auto
    with assms have "lookup xs n k = Some (xs ! i)"
      by (auto simp: lookup_def find_Some_iff intro!: exI [of _ i])
    with r Some i found show thesis by simp
  qed
qed

lemma find_update:
  assumes "n \<le> length xs" "key e = key (xs ! i)"
  shows "find_in (Some (xs[i := e])) n k = find_in (Some xs) n k"
proof -
  have keys: "key (xs[i := e] ! j) = key (xs ! j)" if "j < length xs" for j
    using that assms(2) by (cases "j = i") auto
  from assms(1) show ?thesis
  proof (cases rule: find_lookup [where k = k])
    case missing
    from total [of n "xs[i := e]" k] assms(1) obtain r where
      r: "find_in (Some (xs[i := e])) n k = Some r" by auto
    show ?thesis
    proof (cases r)
      case (Some m)
      with r hit [of "xs[i := e]" n k m] keys [of m] miss [OF missing(1), of m] show ?thesis by auto
    qed (use r missing in simp)
  next
    case (found m)
    then have "\<forall>j < m. key (xs ! j) \<noteq> k" using hit [OF found(1)] by blast
    with found assms keys have "find_in (Some (xs[i := e])) n k = Some (Some m)"
      by (intro first_match) auto
    with found show ?thesis by simp
  qed
qed

lemma lookup_update:
  assumes "n \<le> length xs" "find_in (Some xs) n k = Some (Some i)" "key e = k"
  shows "lookup (xs[i := e]) n k' = (if k' = k then Some e else lookup xs n k')"
proof -
  note i = hit [OF assms(2)]
  then have same: "find_in (Some (xs[i := e])) n k' = find_in (Some xs) n k'" for k'
    using assms by (intro find_update) auto
  show ?thesis
  proof (cases "k' = k")
    case True
    from assms(1) have len: "n \<le> length (xs[i := e])" by simp
    from True same [of k] assms(2) i show ?thesis
      by (cases rule: find_lookup [OF len, of k]) auto
  next
    case False
    from assms(1) have len: "n \<le> length (xs[i := e])" by simp
    from len show ?thesis
    proof (cases rule: find_lookup [where k = k'])
      case missing
      with same False show ?thesis by (cases rule: find_lookup [OF assms(1), of k']) auto
    next
      case (found m)
      with False i assms(3) have "m \<noteq> i" by auto
      with found same False show ?thesis
        by (cases rule: find_lookup [OF assms(1), of k']) auto
    qed
  qed
qed

end

lemma scan_keyed_table:
  assumes "\<And>p n k. find_in p n k = scan (\<lambda>e. key e = k) p 0 n"
  shows "keyed_table key find_in"
proof
  fix xs n k i
  assume "find_in (Some xs) n k = Some (Some i)"
  then show "i < n \<and> i < length xs \<and> key (xs ! i) = k \<and> (\<forall>j < i. key (xs ! j) \<noteq> k)"
    using scan_Some [of "\<lambda>e. key e = k" "Some xs" 0 n i] by (auto simp: assms)
next
  fix xs n k j
  assume "find_in (Some xs) n k = Some None" "j < n"
  then show "j < length xs \<and> key (xs ! j) \<noteq> k"
    using scan_None [of "\<lambda>e. key e = k" "Some xs" 0 n j] by (auto simp: assms)
qed (simp add: assms scan_total)

end
