(* ===== verification/Nrc.thy ===== *)
theory Nrc
  imports Prelude
begin

text \<open>
  Negative response codes: \<open>src/include/uds_nrc.h\<close> (the enumeration \<open>UdsNrc\<close>) and
  \<open>src/core/nrc.c\<close> (\<open>uds_nrc_string\<close>). The enumeration is a datatype with the source's
  constructors and \<open>nrc_code\<close> gives the byte that goes on the wire.
\<close>

datatype UdsNrc =
    UDS_NRC_GENERAL_REJECT
  | UDS_NRC_SERVICE_NOT_SUPPORTED
  | UDS_NRC_SUB_FUNCTION_NOT_SUPPORTED
  | UDS_NRC_INCORRECT_MSG_LEN_OR_FORMAT
  | UDS_NRC_RESPONSE_TOO_LONG
  | UDS_NRC_BUSY_REPEAT_REQUEST
  | UDS_NRC_CONDITIONS_NOT_CORRECT
  | UDS_NRC_REQUEST_SEQUENCE_ERROR
  | UDS_NRC_NO_RESPONSE_FROM_SUBNET
  | UDS_NRC_FAILURE_PREVENTS_EXEC
  | UDS_NRC_REQUEST_OUT_OF_RANGE
  | UDS_NRC_SECURITY_ACCESS_DENIED
  | UDS_NRC_INVALID_KEY
  | UDS_NRC_EXCEEDED_NUMBER_OF_ATTEMPTS
  | UDS_NRC_REQUIRED_TIME_DELAY_NOT_EXPIRED
  | UDS_NRC_UPLOAD_DOWNLOAD_NOT_ACCEPTED
  | UDS_NRC_TRANSFER_DATA_SUSPENDED
  | UDS_NRC_GENERAL_PROGRAMMING_FAILURE
  | UDS_NRC_WRONG_BLOCK_SEQUENCE_COUNTER
  | UDS_NRC_RESPONSE_PENDING
  | UDS_NRC_SUB_FUNCTION_NOT_SUPPORTED_IN_SESSION
  | UDS_NRC_SERVICE_NOT_SUPPORTED_IN_SESSION

fun nrc_code :: "UdsNrc \<Rightarrow> u8" where
  "nrc_code UDS_NRC_GENERAL_REJECT = 0x10"
| "nrc_code UDS_NRC_SERVICE_NOT_SUPPORTED = 0x11"
| "nrc_code UDS_NRC_SUB_FUNCTION_NOT_SUPPORTED = 0x12"
| "nrc_code UDS_NRC_INCORRECT_MSG_LEN_OR_FORMAT = 0x13"
| "nrc_code UDS_NRC_RESPONSE_TOO_LONG = 0x14"
| "nrc_code UDS_NRC_BUSY_REPEAT_REQUEST = 0x21"
| "nrc_code UDS_NRC_CONDITIONS_NOT_CORRECT = 0x22"
| "nrc_code UDS_NRC_REQUEST_SEQUENCE_ERROR = 0x24"
| "nrc_code UDS_NRC_NO_RESPONSE_FROM_SUBNET = 0x25"
| "nrc_code UDS_NRC_FAILURE_PREVENTS_EXEC = 0x26"
| "nrc_code UDS_NRC_REQUEST_OUT_OF_RANGE = 0x31"
| "nrc_code UDS_NRC_SECURITY_ACCESS_DENIED = 0x33"
| "nrc_code UDS_NRC_INVALID_KEY = 0x35"
| "nrc_code UDS_NRC_EXCEEDED_NUMBER_OF_ATTEMPTS = 0x36"
| "nrc_code UDS_NRC_REQUIRED_TIME_DELAY_NOT_EXPIRED = 0x37"
| "nrc_code UDS_NRC_UPLOAD_DOWNLOAD_NOT_ACCEPTED = 0x70"
| "nrc_code UDS_NRC_TRANSFER_DATA_SUSPENDED = 0x71"
| "nrc_code UDS_NRC_GENERAL_PROGRAMMING_FAILURE = 0x72"
| "nrc_code UDS_NRC_WRONG_BLOCK_SEQUENCE_COUNTER = 0x73"
| "nrc_code UDS_NRC_RESPONSE_PENDING = 0x78"
| "nrc_code UDS_NRC_SUB_FUNCTION_NOT_SUPPORTED_IN_SESSION = 0x7E"
| "nrc_code UDS_NRC_SERVICE_NOT_SUPPORTED_IN_SESSION = 0x7F"

text \<open>The cases of the \<open>switch\<close> of \<open>uds_nrc_string\<close>, in the order of the source.\<close>

definition nrc_switch :: "(UdsNrc \<times> string) list" where
  "nrc_switch =
    [(UDS_NRC_GENERAL_REJECT, ''generalReject''),
     (UDS_NRC_SERVICE_NOT_SUPPORTED, ''serviceNotSupported''),
     (UDS_NRC_SUB_FUNCTION_NOT_SUPPORTED, ''subFunctionNotSupported''),
     (UDS_NRC_INCORRECT_MSG_LEN_OR_FORMAT, ''incorrectMessageLengthOrInvalidFormat''),
     (UDS_NRC_RESPONSE_TOO_LONG, ''responseTooLong''),
     (UDS_NRC_BUSY_REPEAT_REQUEST, ''busyRepeatRequest''),
     (UDS_NRC_CONDITIONS_NOT_CORRECT, ''conditionsNotCorrect''),
     (UDS_NRC_REQUEST_SEQUENCE_ERROR, ''requestSequenceError''),
     (UDS_NRC_NO_RESPONSE_FROM_SUBNET, ''noResponseFromSubnetComponent''),
     (UDS_NRC_FAILURE_PREVENTS_EXEC, ''failurePreventsExecutionOfRequestedAction''),
     (UDS_NRC_REQUEST_OUT_OF_RANGE, ''requestOutOfRange''),
     (UDS_NRC_SECURITY_ACCESS_DENIED, ''securityAccessDenied''),
     (UDS_NRC_INVALID_KEY, ''invalidKey''),
     (UDS_NRC_EXCEEDED_NUMBER_OF_ATTEMPTS, ''exceededNumberOfAttempts''),
     (UDS_NRC_REQUIRED_TIME_DELAY_NOT_EXPIRED, ''requiredTimeDelayNotExpired''),
     (UDS_NRC_UPLOAD_DOWNLOAD_NOT_ACCEPTED, ''uploadDownloadNotAccepted''),
     (UDS_NRC_TRANSFER_DATA_SUSPENDED, ''transferDataSuspended''),
     (UDS_NRC_GENERAL_PROGRAMMING_FAILURE, ''generalProgrammingFailure''),
     (UDS_NRC_WRONG_BLOCK_SEQUENCE_COUNTER, ''wrongBlockSequenceCounter''),
     (UDS_NRC_RESPONSE_PENDING, ''requestCorrectlyReceivedResponsePending''),
     (UDS_NRC_SUB_FUNCTION_NOT_SUPPORTED_IN_SESSION, ''subFunctionNotSupportedInActiveSession''),
     (UDS_NRC_SERVICE_NOT_SUPPORTED_IN_SESSION, ''serviceNotSupportedInActiveSession'')]"

definition uds_nrc_string :: "u8 \<Rightarrow> string" where
  "uds_nrc_string nrc =
     (case find (\<lambda>c. nrc_code (fst c) = nrc) nrc_switch of
        Some c \<Rightarrow> snd c
      | None \<Rightarrow> ''unknown NRC'')"

lemma nrc_code_nonzero [simp]: "nrc_code n \<noteq> 0" "0 \<noteq> nrc_code n"
  by (cases n; simp)+

lemma nrc_switch_complete: "n \<in> fst ` set nrc_switch"
  by (cases n) (simp_all add: nrc_switch_def)

lemma nrc_code_inject [simp]: "nrc_code a = nrc_code b \<longleftrightarrow> a = b"
proof -
  have "distinct (map nrc_code (map fst nrc_switch))"
    by (simp add: nrc_switch_def)
  then have "inj_on nrc_code (set (map fst nrc_switch))" unfolding distinct_map by blast
  then have "inj_on nrc_code (fst ` set nrc_switch)" by simp
  then show ?thesis by (metis inj_onD nrc_switch_complete)
qed

lemma distinct_nrc_names: "distinct (''unknown NRC'' # map snd nrc_switch)"
  unfolding nrc_switch_def by code_simp

text \<open>A name is in the table for exactly one enumerator.\<close>

lemma nrc_string_code: "(n, uds_nrc_string (nrc_code n)) \<in> set nrc_switch"
proof -
  from nrc_switch_complete obtain s where "(n, s) \<in> set nrc_switch" by force
  then have "find (\<lambda>c. nrc_code (fst c) = nrc_code n) nrc_switch \<noteq> None"
    by (auto simp: find_None_iff)
  then obtain c where c: "find (\<lambda>c. nrc_code (fst c) = nrc_code n) nrc_switch = Some c" by blast
  then have "c \<in> set nrc_switch" "fst c = n"
    by (auto simp: find_Some_iff)
  with c show ?thesis by (cases c) (simp add: uds_nrc_string_def)
qed

lemma nrc_name_unique:
  assumes "(a, s) \<in> set nrc_switch" "(b, s) \<in> set nrc_switch"
  shows "a = b"
proof -
  have "distinct (map snd nrc_switch)" using distinct_nrc_names by simp
  then have "inj_on snd (set nrc_switch)" by (simp add: distinct_map)
  from inj_onD [OF this _ assms] have "(a, s) = (b, s)" by simp
  then show ?thesis by simp
qed

text \<open>
  \<open>uds_nrc_string\<close> is a faithful table: the text of a byte is \<open>unknown NRC\<close> exactly when no
  enumerator of \<open>UdsNrc\<close> has that byte, and two bytes that are both codes get the same text
  only when they are the same byte.
\<close>

lemma nrc_string_faithful:
  "(uds_nrc_string b = ''unknown NRC'' \<longleftrightarrow> b \<notin> range nrc_code) \<and>
   (uds_nrc_string (nrc_code m) = uds_nrc_string (nrc_code n) \<longleftrightarrow> m = n)"
proof (intro conjI iffI)
  assume u: "uds_nrc_string b = ''unknown NRC''"
  show "b \<notin> range nrc_code"
  proof
    assume "b \<in> range nrc_code"
    then obtain n where "b = nrc_code n" by blast
    with u nrc_string_code [of n] have "''unknown NRC'' \<in> set (map snd nrc_switch)" by force
    with distinct_nrc_names show False by simp
  qed
next
  assume "b \<notin> range nrc_code"
  then have "find (\<lambda>c. nrc_code (fst c) = b) nrc_switch = None"
    by (auto simp: find_None_iff)
  then show "uds_nrc_string b = ''unknown NRC''" by (simp add: uds_nrc_string_def)
next
  assume "uds_nrc_string (nrc_code m) = uds_nrc_string (nrc_code n)"
  then show "m = n"
    using nrc_string_code [of m] nrc_string_code [of n] by (metis nrc_name_unique)
qed simp

end
