(* ===== verification/Service.thy ===== *)
theory Service
  imports Nrc
begin

text \<open>
  What every service handler of the program shares: the result code \<open>UdsCoreError\<close>
  (\<open>src/include/uds_core.h\<close>), the three out-pointers \<open>resp\<close>, \<open>resp_len\<close> and \<open>nrc_out\<close> with
  the writes the handlers make through them, and the contract of a handler as the locale
  \<open>uds_service\<close> and its extensions. Each handler theory interprets the locales on its own handler; the
  dispatcher relies on the contracts only.
\<close>

datatype UdsCoreError = UDS_CORE_OK | UDS_CORE_ERR_PARAM | UDS_CORE_ERR_NRC | UDS_CORE_ERR_BUF

section \<open>Out-pointers\<close>

record outp =
  o_resp :: "u8 list ptr"
  o_len :: "nat ptr"
  o_nrc :: "u8 ptr"

definition null_out :: "outp \<Rightarrow> bool" where
  "null_out out \<longleftrightarrow> o_resp out = None \<or> o_len out = None \<or> o_nrc out = None"

definition put_resp :: "nat \<Rightarrow> u8 list \<Rightarrow> outp \<Rightarrow> outp option" where
  "put_resp off bs out = do { b \<leftarrow> mem_put (o_resp out) off bs; Some (out\<lparr>o_resp := Some b\<rparr>) }"

definition set_resp_len :: "nat \<Rightarrow> outp \<Rightarrow> outp option" where
  "set_resp_len n out = do { _ \<leftarrow> o_len out; Some (out\<lparr>o_len := Some n\<rparr>) }"

definition set_nrc :: "UdsNrc \<Rightarrow> outp \<Rightarrow> outp option" where
  "set_nrc n out = do { _ \<leftarrow> o_nrc out; Some (out\<lparr>o_nrc := Some (nrc_code n)\<rparr>) }"

type_synonym 's result = "(UdsCoreError \<times> 's \<times> outp) option"

text \<open>\<open>*nrc_out = n; return UDS_CORE_ERR_NRC;\<close> and the usual positive return.\<close>

definition ret_nrc :: "UdsNrc \<Rightarrow> 's \<Rightarrow> outp \<Rightarrow> 's result" where
  "ret_nrc n s out = do { out \<leftarrow> set_nrc n out; Some (UDS_CORE_ERR_NRC, s, out) }"

definition ret_ok :: "u8 list \<Rightarrow> 's \<Rightarrow> outp \<Rightarrow> 's result" where
  "ret_ok bs s out = do {
     out \<leftarrow> put_resp 0 bs out;
     out \<leftarrow> set_resp_len (length bs) out;
     Some (UDS_CORE_OK, s, out) }"

text \<open>Out-pointers that are all valid: buffer \<open>b\<close>, length cell \<open>l\<close>, NRC cell \<open>c\<close>.\<close>

definition mk_out :: "u8 list \<Rightarrow> nat \<Rightarrow> u8 \<Rightarrow> outp" where
  "mk_out b l c = \<lparr>o_resp = Some b, o_len = Some l, o_nrc = Some c\<rparr>"

lemma null_out_mk [simp]: "\<not> null_out (mk_out b l c)"
  by (simp add: null_out_def mk_out_def)

lemma mk_out_sel [simp]:
  "o_resp (mk_out b l c) = Some b" "o_len (mk_out b l c) = Some l" "o_nrc (mk_out b l c) = Some c"
  by (simp_all add: mk_out_def)

lemma mk_out_inject [simp]: "mk_out b l c = mk_out b' l' c' \<longleftrightarrow> b = b' \<and> l = l' \<and> c = c'"
  by (auto simp: mk_out_def)

lemma not_null_outE:
  assumes "\<not> null_out out" obtains b l c where "out = mk_out b l c"
proof -
  from assms obtain b l c where "o_resp out = Some b" "o_len out = Some l" "o_nrc out = Some c"
    by (auto simp: null_out_def)
  then have "out = mk_out b l c" by (simp add: mk_out_def)
  then show thesis by (rule that)
qed

lemma put_resp_mk [mem_simps]:
  "off + length bs \<le> length b \<Longrightarrow> put_resp off bs (mk_out b l c) = Some (mk_out (splice off bs b) l c)"
  by (simp add: put_resp_def mem_put_def mk_out_def)

lemma set_resp_len_mk [mem_simps]: "set_resp_len n (mk_out b l c) = Some (mk_out b n c)"
  by (simp add: set_resp_len_def mk_out_def)

lemma set_nrc_mk [mem_simps]: "set_nrc n (mk_out b l c) = Some (mk_out b l (nrc_code n))"
  by (simp add: set_nrc_def mk_out_def)

lemma ret_nrc_mk [mem_simps]:
  "ret_nrc n s (mk_out b l c) = Some (UDS_CORE_ERR_NRC, s, mk_out b l (nrc_code n))"
  by (simp add: ret_nrc_def mem_simps)

lemma ret_ok_mk [mem_simps]:
  "length bs \<le> length b \<Longrightarrow>
   ret_ok bs s (mk_out b l c) = Some (UDS_CORE_OK, s, mk_out (splice 0 bs b) (length bs) c)"
  by (simp add: ret_ok_def mem_simps)

section \<open>The contract of a service handler\<close>

text \<open>
  What a handler leaves in the out-pointers, given the code it returns: the buffer keeps its
  size; a positive return sets a length that fits the buffer; an NRC return sets a non-zero NRC;
  no error return touches \<open>resp_len\<close>.
\<close>

definition out_contract :: "nat \<Rightarrow> outp \<Rightarrow> UdsCoreError \<Rightarrow> outp \<Rightarrow> bool" where
  "out_contract n out rc out' \<longleftrightarrow>
     (\<exists>b l c b' l' c'. out = mk_out b l c \<and> out' = mk_out b' l' c' \<and> length b' = length b \<and>
        (if rc = UDS_CORE_OK then l' \<le> n else l' = l) \<and>
        (if rc = UDS_CORE_ERR_NRC then c' \<noteq> 0 else c' = c))"

lemma out_contract_mk [simp]:
  "out_contract n (mk_out b l c) rc (mk_out b' l' c') \<longleftrightarrow>
     length b' = length b \<and> (if rc = UDS_CORE_OK then l' \<le> n else l' = l) \<and>
     (if rc = UDS_CORE_ERR_NRC then c' \<noteq> 0 else c' = c)"
  by (auto simp: out_contract_def)

text \<open>
  \<open>svc s n out\<close> runs the handler on state \<open>s\<close> with \<open>resp_size = n\<close>. The laws: a NULL among the
  out-pointers is refused with \<open>UDS_CORE_ERR_PARAM\<close> before anything else happens; on valid
  out-pointers with at least \<open>n\<close> bytes behind \<open>resp\<close> the handler performs no faulty access and
  satisfies \<open>out_contract\<close>, and it keeps the invariant of its state.
\<close>

locale uds_service =
  fixes svc :: "'s \<Rightarrow> nat \<Rightarrow> outp \<Rightarrow> 's result"
    and inv :: "'s \<Rightarrow> bool"
  assumes null_guard: "null_out out \<Longrightarrow> svc s n out = Some (UDS_CORE_ERR_PARAM, s, out)"
    and safe: "inv s \<Longrightarrow> n \<le> length b \<Longrightarrow>
      \<exists>rc s' out'. svc s n (mk_out b l c) = Some (rc, s', out') \<and>
        out_contract n (mk_out b l c) rc out'"
    and keeps: "inv s \<Longrightarrow> n \<le> length b \<Longrightarrow> svc s n (mk_out b l c) = Some (rc, s', out') \<Longrightarrow> inv s'"
begin

lemma run:
  assumes "inv s" "n \<le> length b"
  obtains rc s' b' l' c' where "svc s n (mk_out b l c) = Some (rc, s', mk_out b' l' c')"
    "inv s'" "length b' = length b"
    "rc = UDS_CORE_OK \<Longrightarrow> l' \<le> n" "rc \<noteq> UDS_CORE_OK \<Longrightarrow> l' = l"
    "rc = UDS_CORE_ERR_NRC \<Longrightarrow> c' \<noteq> 0" "rc \<noteq> UDS_CORE_ERR_NRC \<Longrightarrow> c' = c"
proof -
  from safe [OF assms] obtain rc s' out' where
    r: "svc s n (mk_out b l c) = Some (rc, s', out')" "out_contract n (mk_out b l c) rc out'"
    by blast
  then obtain b' l' c' where "out' = mk_out b' l' c'" by (auto simp: out_contract_def)
  with r keeps [OF assms r(1)] that show thesis by (auto split: if_splits)
qed

end

text \<open>
  A handler that gets its state through a pointer: the state may be NULL, and the invariant
  speaks of the state behind the pointer.
\<close>

definition ptr_inv :: "('s \<Rightarrow> bool) \<Rightarrow> 's ptr \<Rightarrow> bool" where
  "ptr_inv I p \<longleftrightarrow> (\<forall>s. p = Some s \<longrightarrow> I s)"

lemma ptr_inv_simps [simp]: "ptr_inv I None" "ptr_inv I (Some s) \<longleftrightarrow> I s"
  by (simp_all add: ptr_inv_def)

lemma uds_service_ptrI:
  assumes null: "\<And>n out. svc None n out = Some (UDS_CORE_ERR_PARAM, None, out)"
    and guard: "\<And>s n out. null_out out \<Longrightarrow> svc (Some s) n out = Some (UDS_CORE_ERR_PARAM, Some s, out)"
    and run: "\<And>s n b l c. I s \<Longrightarrow> n \<le> length b \<Longrightarrow>
      \<exists>rc s' out'. svc (Some s) n (mk_out b l c) = Some (rc, Some s', out') \<and>
        out_contract n (mk_out b l c) rc out' \<and> I s'"
  shows "uds_service svc (ptr_inv I)"
proof
  fix p n out
  assume "null_out out"
  then show "svc p n out = Some (UDS_CORE_ERR_PARAM, p, out)"
    using null guard by (cases p) auto
next
  fix p n l c and b :: "u8 list"
  assume p: "ptr_inv I p" "n \<le> length b"
  show "\<exists>rc s' out'. svc p n (mk_out b l c) = Some (rc, s', out') \<and>
      out_contract n (mk_out b l c) rc out'"
    using p null run [of _ n b l c] by (cases p) fastforce+
  fix rc p' out'
  assume "svc p n (mk_out b l c) = Some (rc, p', out')"
  with p null run [of _ n b l c] show "ptr_inv I p'" by (cases p) fastforce+
qed

text \<open>A positive return, recognised by evaluation.\<close>

lemma positive_return:
  "(case r of Some (rc, Some s, out) \<Rightarrow> rc = UDS_CORE_OK | _ \<Rightarrow> False) \<Longrightarrow>
   \<exists>s out. r = Some (UDS_CORE_OK, Some s, out)"
  by (auto split: option.splits)

text \<open>Recognising the contract on the two usual returns.\<close>

lemma ret_ok_contract:
  assumes "length bs \<le> n" "n \<le> length b"
  shows "\<exists>rc s' out'. ret_ok bs s (mk_out b l c) = Some (rc, s', out') \<and>
           out_contract n (mk_out b l c) rc out'"
  using assms by (simp add: mem_simps)

lemma ret_nrc_contract:
  "\<exists>rc s' out'. ret_nrc k s (mk_out b l c) = Some (rc, s', out') \<and>
     out_contract n (mk_out b l c) rc out'"
  by (simp add: mem_simps)

lemma ret_ok_state: "ret_ok bs s out = Some (rc, s', out') \<Longrightarrow> s' = s \<and> rc = UDS_CORE_OK"
  by (auto simp: ret_ok_def Option.bind_eq_Some_conv)

lemma ret_nrc_state: "ret_nrc k s out = Some (rc, s', out') \<Longrightarrow> s' = s \<and> rc = UDS_CORE_ERR_NRC"
  by (auto simp: ret_nrc_def Option.bind_eq_Some_conv)

lemmas ret_contract = ret_ok_contract ret_nrc_contract
lemmas ret_state = ret_ok_state ret_nrc_state

section \<open>Positive responses\<close>

text \<open>
  What a positive response starts with: the service identifier plus 0x40. \<open>first_byte\<close> is the byte
  at the front of the response buffer.
\<close>

definition first_byte :: "outp \<Rightarrow> u8 option" where
  "first_byte out = mem_get (o_resp out) 0"

lemma first_byte_mk [simp]: "b \<noteq> [] \<Longrightarrow> first_byte (mk_out b l c) = Some (b ! 0)"
  by (simp add: first_byte_def mem_get_def)

lemma first_byte_update [simp]: "first_byte (out\<lparr>o_len := x\<rparr>) = first_byte out"
  "first_byte (out\<lparr>o_nrc := y\<rparr>) = first_byte out"
  by (simp_all add: first_byte_def)

lemma first_byte_put_later: "put_resp pos bs out = Some out' \<Longrightarrow> 0 < pos \<Longrightarrow> first_byte out' = first_byte out"
  by (cases "o_resp out") (auto simp: put_resp_def mem_put_def first_byte_def mem_get_def splice_def nth_append
      split: if_splits)

lemma first_byte_put: "put_resp 0 (x # bs) out = Some out' \<Longrightarrow> first_byte out' = Some x"
  by (cases "o_resp out") (auto simp: put_resp_def mem_put_def first_byte_def mem_get_def splice_def split: if_splits)

lemma first_byte_len: "set_resp_len n out = Some out' \<Longrightarrow> first_byte out' = first_byte out"
  by (auto simp: set_resp_len_def Option.bind_eq_Some_conv)

lemma first_byte_nrc: "set_nrc n out = Some out' \<Longrightarrow> first_byte out' = first_byte out"
  by (auto simp: set_nrc_def Option.bind_eq_Some_conv)

lemma ret_ok_first: "ret_ok (x # bs) s out = Some (rc, s', out') \<Longrightarrow> first_byte out' = Some x"
  by (auto simp: ret_ok_def Option.bind_eq_Some_conv) (metis first_byte_put first_byte_len)

lemma ret_nrc_not_ok: "ret_nrc k s out = Some (UDS_CORE_OK, s', out') \<Longrightarrow> False"
  by (auto dest: ret_nrc_state)

text \<open>
  \<open>opens x r\<close>: when the call \<open>r\<close> ends positively with a response, the response starts with \<open>x\<close>. The
  rules follow the shapes of the handlers' bodies.
\<close>

definition opens :: "u8 \<Rightarrow> 's result \<Rightarrow> bool" where
  "opens x r \<longleftrightarrow> (\<forall>s out l. r = Some (UDS_CORE_OK, s, out) \<and> o_len out = Some l \<and> 0 < l \<longrightarrow> first_byte out = Some x)"

named_theorems opens_intros "rules for opens"

lemma opens_ret_ok [opens_intros]: "bs \<noteq> [] \<Longrightarrow> x = hd bs \<Longrightarrow> opens x (ret_ok bs s out)"
  by (cases bs) (auto simp: opens_def dest: ret_ok_first)

lemma opens_ret_nrc [opens_intros]: "opens x (ret_nrc k s out)"
  by (auto simp: opens_def dest: ret_nrc_not_ok)

lemma opens_err [opens_intros]:
  "opens x (Some (UDS_CORE_ERR_PARAM, s, out))" "opens x (Some (UDS_CORE_ERR_BUF, s, out))"
  by (simp_all add: opens_def)

lemma opens_final: "o_len out = Some 0 \<or> first_byte out = Some x \<Longrightarrow> opens x (Some (rc, s, out))"
  by (auto simp: opens_def)

lemma opens_if [opens_intros]: "(c \<Longrightarrow> opens x p) \<Longrightarrow> (\<not> c \<Longrightarrow> opens x q) \<Longrightarrow> opens x (if c then p else q)"
  by simp

lemma opens_option [opens_intros]:
  "(v = None \<Longrightarrow> opens x p) \<Longrightarrow> (\<And>y. v = Some y \<Longrightarrow> opens x (q y)) \<Longrightarrow>
   opens x (case v of None \<Rightarrow> p | Some y \<Rightarrow> q y)"
  by (cases v) simp_all

lemma opens_prod [opens_intros]: "(\<And>y z. v = (y, z) \<Longrightarrow> opens x (q y z)) \<Longrightarrow> opens x (case v of (y, z) \<Rightarrow> q y z)"
  by (cases v) simp

lemma opens_bind: "(\<And>y. m = Some y \<Longrightarrow> opens x (f y)) \<Longrightarrow> opens x (m \<bind> f)"
  by (cases m) (simp_all add: opens_def)

lemma opens_put:
  "bs \<noteq> [] \<Longrightarrow> x = hd bs \<Longrightarrow> (\<And>out'. first_byte out' = Some x \<Longrightarrow> opens x (f out')) \<Longrightarrow>
   opens x (put_resp 0 bs out \<bind> f)"
  by (rule opens_bind) (cases bs, auto dest: first_byte_put)

lemma opens_put_later:
  "0 < pos \<Longrightarrow> (\<And>out'. first_byte out' = first_byte out \<Longrightarrow> opens x (f out')) \<Longrightarrow>
   opens x (put_resp pos bs out \<bind> f)"
  by (rule opens_bind) (auto dest: first_byte_put_later)

lemma opens_len:
  "(\<And>out'. first_byte out' = first_byte out \<Longrightarrow> o_len out' = Some n \<Longrightarrow> opens x (f out')) \<Longrightarrow>
   opens x (set_resp_len n out \<bind> f)"
  by (rule opens_bind) (auto simp: set_resp_len_def Option.bind_eq_Some_conv)

lemma opens_nested:
  "(c \<Longrightarrow> opens x (p \<bind> f)) \<Longrightarrow> (\<not> c \<Longrightarrow> opens x (q \<bind> f)) \<Longrightarrow> opens x ((if c then p else q) \<bind> f)"
  "opens x (m \<bind> (\<lambda>y. g y \<bind> f)) \<Longrightarrow> opens x ((m \<bind> g) \<bind> f)"
  "opens x (f a) \<Longrightarrow> opens x (Some a \<bind> f)"
  by simp_all

text \<open>The rules that track the response come before the general rule for \<open>\<bind>\<close>.\<close>

lemmas opens_rules = opens_put opens_put_later opens_len opens_intros opens_nested opens_bind

locale positive_service = uds_service svc inv
  for svc :: "'s \<Rightarrow> nat \<Rightarrow> outp \<Rightarrow> 's result" and inv :: "'s \<Rightarrow> bool" +
  fixes sid :: u8
  assumes positive: "opens (sid + 0x40) (svc s n out)"
begin

text \<open>What the dispatcher sees: the call returns, keeps the invariant, and answers in one of three ways.\<close>

lemma answer:
  assumes "inv s" "n \<le> length b"
  obtains (ok) s' b' l' where "svc s n (mk_out b l 0) = Some (UDS_CORE_OK, s', mk_out b' l' 0)"
      "inv s'" "length b' = length b" "l' \<le> n" "0 < l' \<Longrightarrow> b' ! 0 = sid + 0x40"
  | (nrc) s' b' c' where "svc s n (mk_out b l 0) = Some (UDS_CORE_ERR_NRC, s', mk_out b' l c')"
      "inv s'" "length b' = length b" "c' \<noteq> 0"
  | (silent) rc s' b' where "svc s n (mk_out b l 0) = Some (rc, s', mk_out b' l 0)"
      "inv s'" "length b' = length b" "rc \<noteq> UDS_CORE_OK" "rc \<noteq> UDS_CORE_ERR_NRC"
proof -
  from run [OF assms, of l 0] obtain rc s' b' l' c' where
    r: "svc s n (mk_out b l 0) = Some (rc, s', mk_out b' l' c')"
    and i: "inv s'" "length b' = length b" "rc = UDS_CORE_OK \<Longrightarrow> l' \<le> n" "rc \<noteq> UDS_CORE_OK \<Longrightarrow> l' = l"
      "rc = UDS_CORE_ERR_NRC \<Longrightarrow> c' \<noteq> 0" "rc \<noteq> UDS_CORE_ERR_NRC \<Longrightarrow> c' = 0" by metis
  consider "rc = UDS_CORE_OK" | "rc = UDS_CORE_ERR_NRC" | "rc \<noteq> UDS_CORE_OK" "rc \<noteq> UDS_CORE_ERR_NRC" by blast
  then show thesis
  proof cases
    case 1
    have "b' ! 0 = sid + 0x40" if "0 < l'"
    proof -
      from that 1 i(2,3) assms(2) have "b' \<noteq> []" by auto
      with positive [of s n "mk_out b l 0"] r 1 that show ?thesis by (auto simp: opens_def)
    qed
    with 1 r i ok show thesis by simp
  next
    case 2
    with r i nrc show thesis by simp
  next
    case 3
    with r i silent show thesis by simp
  qed
qed

end

section \<open>Requests that get an answer\<close>

text \<open>
  \<open>speaks r\<close>: when the call \<open>r\<close> returns, the dispatcher has something to send, a response of at least
  one byte or a response code. A handler that returns an error without a code, or an empty response,
  stays silent; \<open>quiet s n\<close> bounds the situations in which a handler may do so.
\<close>

definition speaks :: "'s result \<Rightarrow> bool" where
  "speaks r \<longleftrightarrow> (\<forall>rc s out. r = Some (rc, s, out) \<longrightarrow>
     (if rc = UDS_CORE_OK then o_len out \<noteq> Some 0 else o_nrc out \<noteq> Some 0))"

named_theorems speaks_intros "rules for speaks"

lemma speaks_nrc [speaks_intros]: "speaks (ret_nrc k s out)"
  by (auto simp: speaks_def ret_nrc_def set_nrc_def Option.bind_eq_Some_conv)

lemma speaks_ok [speaks_intros]: "bs \<noteq> [] \<Longrightarrow> speaks (ret_ok bs s out)"
  by (auto simp: speaks_def ret_ok_def set_resp_len_def Option.bind_eq_Some_conv)

lemma speaks_if [speaks_intros]: "(c \<Longrightarrow> speaks p) \<Longrightarrow> (\<not> c \<Longrightarrow> speaks q) \<Longrightarrow> speaks (if c then p else q)"
  by simp

lemma speaks_option [speaks_intros]:
  "(v = None \<Longrightarrow> speaks p) \<Longrightarrow> (\<And>y. v = Some y \<Longrightarrow> speaks (q y)) \<Longrightarrow> speaks (case v of None \<Rightarrow> p | Some y \<Rightarrow> q y)"
  by (cases v) simp_all

lemma speaks_prod [speaks_intros]: "(\<And>y z. v = (y, z) \<Longrightarrow> speaks (q y z)) \<Longrightarrow> speaks (case v of (y, z) \<Rightarrow> q y z)"
  by (cases v) simp

lemma speaks_bind [speaks_intros]: "(\<And>y. m = Some y \<Longrightarrow> speaks (f y)) \<Longrightarrow> speaks (m \<bind> f)"
  by (cases m) (simp_all add: speaks_def)

locale answering_service = uds_service svc inv
  for svc :: "'s \<Rightarrow> nat \<Rightarrow> outp \<Rightarrow> 's result" and inv :: "'s \<Rightarrow> bool" +
  fixes quiet :: "'s \<Rightarrow> nat \<Rightarrow> bool"
  assumes speaks: "inv s \<Longrightarrow> n \<le> length b \<Longrightarrow> \<not> quiet s n \<Longrightarrow> speaks (svc s n (mk_out b 0 0))"

section \<open>Responses do not depend on the buffer\<close>

text \<open>
  The response buffer of the program is uninitialised memory. Two runs of a handler on different
  buffers are compared: \<open>alike p\<close> relates out-pointers with the same cells whose buffers agree on their
  first \<open>p\<close> bytes, and \<open>same_answer\<close> relates results with the same code and state whose responses, as far
  as their length says, agree. The rules follow the shapes of the handlers' bodies.
\<close>

definition alike :: "nat \<Rightarrow> outp \<Rightarrow> outp \<Rightarrow> bool" where
  "alike p out out' \<longleftrightarrow> (\<exists>b b' l c. out = mk_out b l c \<and> out' = mk_out b' l c \<and> length b = length b' \<and>
     p \<le> length b \<and> take p b = take p b')"

definition same_answer :: "UdsCoreError \<times> 's \<times> outp \<Rightarrow> UdsCoreError \<times> 's \<times> outp \<Rightarrow> bool" where
  "same_answer r r' \<longleftrightarrow> (case (r, r') of ((rc, s, out), (rc', s', out')) \<Rightarrow> rc = rc' \<and> s = s' \<and>
     (\<exists>p. alike p out out' \<and> (rc = UDS_CORE_OK \<longrightarrow> (\<exists>l \<le> p. o_len out = Some l))))"

lemma alike_mk [simp]:
  "alike p (mk_out b l c) (mk_out b' l' c') \<longleftrightarrow>
     l = l' \<and> c = c' \<and> length b = length b' \<and> p \<le> length b \<and> take p b = take p b'"
  by (auto simp: alike_def)

lemma same_answer_mk [simp]:
  "same_answer (rc, s, mk_out b l c) (rc', s', mk_out b' l' c') \<longleftrightarrow> rc = rc' \<and> s = s' \<and> l = l' \<and> c = c' \<and>
     length b = length b' \<and> (rc = UDS_CORE_OK \<longrightarrow> l \<le> length b \<and> take l b = take l b')"
proof -
  have "take l b = take l b'" if "take p b = take p b'" "l \<le> p" for p
    using arg_cong [OF that(1), of "take l"] that(2) by (simp add: min_absorb1)
  then show ?thesis by (auto simp: same_answer_def intro: exI [of _ 0])
qed

lemma alike_start: "length b' = length b \<Longrightarrow> alike 0 (mk_out b l c) (mk_out b' l c)"
  by simp

named_theorems unseen_intros "rules for two runs on different buffers"

lemma unseen_nrc [unseen_intros]: "alike p out out' \<Longrightarrow> rel_option same_answer (ret_nrc k s out) (ret_nrc k s out')"
  by (auto simp: alike_def mem_simps)

lemma unseen_ok [unseen_intros]:
  assumes "alike p out out'"
  shows "rel_option same_answer (ret_ok bs s out) (ret_ok bs s out')"
proof -
  from assms obtain b b' l c where o: "out = mk_out b l c" "out' = mk_out b' l c" "length b = length b'" by (auto simp: alike_def)
  show ?thesis
  proof (cases "length bs \<le> length b")
    case True
    with o show ?thesis by (simp add: mem_simps)
  next
    case False
    with o show ?thesis by (simp add: ret_ok_def put_resp_def mem_put_def)
  qed
qed

lemma unseen_err [unseen_intros]:
  "alike p out out' \<Longrightarrow> rel_option same_answer (Some (UDS_CORE_ERR_PARAM, s, out)) (Some (UDS_CORE_ERR_PARAM, s, out'))"
  "alike p out out' \<Longrightarrow> rel_option same_answer (Some (UDS_CORE_ERR_BUF, s, out)) (Some (UDS_CORE_ERR_BUF, s, out'))"
  by (auto simp: alike_def)

lemma unseen_done [unseen_intros]:
  "alike p out out' \<Longrightarrow> o_len out = Some l \<Longrightarrow> l \<le> p \<Longrightarrow>
    rel_option same_answer (Some (UDS_CORE_OK, s, out)) (Some (UDS_CORE_OK, s, out'))"
  by (auto simp: same_answer_def)

lemma unseen_if [unseen_intros]:
  "(c \<Longrightarrow> rel_option R x x') \<Longrightarrow> (\<not> c \<Longrightarrow> rel_option R y y') \<Longrightarrow>
    rel_option R (if c then x else y) (if c then x' else y')"
  by simp

lemma unseen_option [unseen_intros]:
  "(v = None \<Longrightarrow> rel_option R x x') \<Longrightarrow> (\<And>a. v = Some a \<Longrightarrow> rel_option R (f a) (f' a)) \<Longrightarrow>
    rel_option R (case v of None \<Rightarrow> x | Some a \<Rightarrow> f a) (case v of None \<Rightarrow> x' | Some a \<Rightarrow> f' a)"
  by (cases v) simp_all

lemma unseen_prod [unseen_intros]:
  "(\<And>a b. v = (a, b) \<Longrightarrow> rel_option R (f a b) (f' a b)) \<Longrightarrow>
    rel_option R (case v of (a, b) \<Rightarrow> f a b) (case v of (a, b) \<Rightarrow> f' a b)"
  by (cases v) simp

lemma unseen_bind: "(\<And>a. m = Some a \<Longrightarrow> rel_option R (f a) (f' a)) \<Longrightarrow> rel_option R (m \<bind> f) (m \<bind> f')"
  by (cases m) simp_all

lemma unseen_seq:
  "rel_option Q m m' \<Longrightarrow> (\<And>a a'. Q a a' \<Longrightarrow> rel_option R (f a) (f' a')) \<Longrightarrow> rel_option R (m \<bind> f) (m' \<bind> f')"
  by (cases m; cases m') auto

lemma unseen_len:
  "alike p out out' \<Longrightarrow> (\<And>u u'. alike p u u' \<Longrightarrow> o_len u = Some n \<Longrightarrow> rel_option R (f u) (f' u')) \<Longrightarrow>
    rel_option R (set_resp_len n out \<bind> f) (set_resp_len n out' \<bind> f')"
  by (auto simp: alike_def mem_simps)

text \<open>The rules that track the response come before the general rule for \<open>\<bind>\<close>.\<close>

lemmas unseen_rules = alike_start unseen_intros unseen_len unseen_bind

lemma unseen_answer:
  "length bs \<le> length b \<Longrightarrow> length b' = length b \<Longrightarrow> k = length bs \<Longrightarrow>
    same_answer (rc, s, mk_out (splice 0 bs b) k c) (rc, s, mk_out (splice 0 bs b') k c)"
  using take_splice0 [of bs b] take_splice0 [of bs b'] by simp

locale blind_service =
  fixes svc :: "'s \<Rightarrow> nat \<Rightarrow> outp \<Rightarrow> 's result" and inv :: "'s \<Rightarrow> bool"
  assumes unseen: "inv s \<Longrightarrow> n \<le> length b \<Longrightarrow> length b' = length b \<Longrightarrow>
    rel_option same_answer (svc s n (mk_out b l c)) (svc s n (mk_out b' l c))"

section \<open>Monotonic time\<close>

text \<open>
  \<open>struct timespec\<close> as filled in by \<open>clock_gettime(CLOCK_MONOTONIC, ...)\<close>. The clock is outside of
  the program: a handler that reads it once takes the reading as an argument, a handler with
  several reads takes \<open>clk\<close>, where \<open>clk i\<close> is the reading obtained by the \<open>i\<close>-th call site of the
  handler in the order of its code.
\<close>

record timespec =
  tv_sec :: int
  tv_nsec :: int

type_synonym clock = "nat \<Rightarrow> timespec"

section \<open>Error codes and names\<close>

fun core_err_code :: "UdsCoreError \<Rightarrow> int" where
  "core_err_code UDS_CORE_OK = 0"
| "core_err_code UDS_CORE_ERR_PARAM = - 1"
| "core_err_code UDS_CORE_ERR_NRC = - 2"
| "core_err_code UDS_CORE_ERR_BUF = - 3"

definition uds_core_strerror :: "int \<Rightarrow> string" where
  "uds_core_strerror err =
     (if err = core_err_code UDS_CORE_OK then ''Success''
      else if err = core_err_code UDS_CORE_ERR_PARAM then ''Invalid parameter''
      else if err = core_err_code UDS_CORE_ERR_NRC then ''UDS negative response condition''
      else if err = core_err_code UDS_CORE_ERR_BUF then ''Response buffer too small''
      else ''Unknown error'')"

section \<open>Masks\<close>

lemma and_low_mask:
  "(x :: u8) AND 0x7F = take_bit 7 x" "x AND 0x0F = take_bit 4 x" "x AND 1 = take_bit 1 x"
  by (simp_all add: take_bit_eq_mask mask_eq_exp_minus_1)

lemma unat_take_bit: "unat (take_bit k x) = unat x mod 2 ^ k"
  unfolding unsigned_take_bit_eq by (rule take_bit_eq_mod)

lemma unat_u8_less: "unat (x :: u8) < 256"
  using unsigned_less [of x] by simp

section \<open>Big-endian bytes of a word\<close>

text \<open>\<open>(uint8_t)(v >> 8 k)\<close> and its inverse, used by every multi-byte field of the protocol.\<close>

definition byte_of :: "nat \<Rightarrow> 'a::len word \<Rightarrow> u8" where
  "byte_of k v = ucast (drop_bit (8 * k) v)"

definition be16 :: "u8 \<Rightarrow> u8 \<Rightarrow> u16" where
  "be16 h l = push_bit 8 (ucast h) OR ucast l"

definition be32 :: "u8 \<Rightarrow> u8 \<Rightarrow> u8 \<Rightarrow> u8 \<Rightarrow> u32" where
  "be32 a b c d = push_bit 24 (ucast a) OR push_bit 16 (ucast b) OR push_bit 8 (ucast c) OR ucast d"

lemma be16_bytes [simp]: "be16 (byte_of 1 v) (byte_of 0 v) = (v :: u16)"
  unfolding be16_def byte_of_def
  by (rule bit_word_eqI) (auto simp: bit_simps)

lemma be32_bytes [simp]:
  "be32 (byte_of 3 v) (byte_of 2 v) (byte_of 1 v) (byte_of 0 v) = (v :: u32)"
  unfolding be32_def byte_of_def
proof (rule bit_word_eqI)
  fix n :: nat
  assume "n < LENGTH(32)"
  then consider "n < 8" | "8 \<le> n" "n < 16" | "16 \<le> n" "n < 24" | "24 \<le> n" "n < 32"
    by fastforce
  then show "bit (push_bit 24 (ucast (ucast (drop_bit (8 * 3) v) :: u8)) OR
      push_bit 16 (ucast (ucast (drop_bit (8 * 2) v) :: u8)) OR
      push_bit 8 (ucast (ucast (drop_bit (8 * 1) v) :: u8)) OR
      ucast (ucast (drop_bit (8 * 0) v) :: u8) :: u32) n = bit v n"
    by cases (auto simp: bit_simps)
qed

lemma byte_of_be16 [simp]: "byte_of 1 (be16 h l) = h" "byte_of 0 (be16 h l) = l"
  unfolding be16_def byte_of_def
  by (rule bit_word_eqI, auto simp: bit_simps dest: bit_imp_le_length)+

declare be32_bytes [unfolded One_nat_def, simp] be16_bytes [unfolded One_nat_def, simp] byte_of_be16 [unfolded One_nat_def, simp]

end
