(* ===== verification/Session.thy ===== *)
theory Session
  imports Service "HOL-Library.Signed_Division"
begin

text \<open>
  Session management, \<open>src/core/session.c\<close>: \<open>DiagnosticSessionControl\<close> (0x10),
  \<open>TesterPresent\<close> (0x3E) and the S3 keep-alive timer. The state is \<open>UdsCoreSession\<close> of
  \<open>src/include/uds_core.h\<close>.
\<close>

section \<open>State\<close>

datatype UdsSessionType =
    UDS_SESSION_DEFAULT
  | UDS_SESSION_PROGRAMMING
  | UDS_SESSION_EXTENDED
  | UDS_SESSION_SAFETY

fun session_code :: "UdsSessionType \<Rightarrow> u8" where
  "session_code UDS_SESSION_DEFAULT = 0x01"
| "session_code UDS_SESSION_PROGRAMMING = 0x02"
| "session_code UDS_SESSION_EXTENDED = 0x03"
| "session_code UDS_SESSION_SAFETY = 0x04"

text \<open>
  The \<open>switch (session_type)\<close> of \<open>uds_core_dsc\<close> together with the cast
  \<open>(UdsSessionType)session_type\<close> that follows it.
\<close>

definition session_of_byte :: "u8 \<Rightarrow> UdsSessionType option" where
  "session_of_byte b =
     (if b = 0x01 then Some UDS_SESSION_DEFAULT
      else if b = 0x02 then Some UDS_SESSION_PROGRAMMING
      else if b = 0x03 then Some UDS_SESSION_EXTENDED
      else if b = 0x04 then Some UDS_SESSION_SAFETY
      else None)"

record UdsCoreSessionConfig =
  p2_ms :: u16
  p2_star_ms :: u16
  s3_ms :: u32

record UdsCoreSession =
  ecu_id :: u8
  sess_type :: UdsSessionType
  cfg :: UdsCoreSessionConfig
  security_level :: u8
  last_activity :: timespec

definition UDS_CORE_SESSION_DEFAULT_CONFIG :: UdsCoreSessionConfig where
  "UDS_CORE_SESSION_DEFAULT_CONFIG = \<lparr>p2_ms = 50, p2_star_ms = 2000, s3_ms = 10000\<rparr>"

lemma session_code_inject [simp]: "session_code a = session_code b \<longleftrightarrow> a = b"
  by (cases a; cases b) simp_all

text \<open>The order of the session levels, as the code compares them by number.\<close>

instantiation UdsSessionType :: linorder
begin

definition less_eq_UdsSessionType :: "UdsSessionType \<Rightarrow> UdsSessionType \<Rightarrow> bool" where
  "less_eq_UdsSessionType a b \<longleftrightarrow> session_code a \<le> session_code b"

definition less_UdsSessionType :: "UdsSessionType \<Rightarrow> UdsSessionType \<Rightarrow> bool" where
  "less_UdsSessionType a b \<longleftrightarrow> session_code a < session_code b"

instance
proof
  fix x y :: UdsSessionType
  show "x < y \<longleftrightarrow> x \<le> y \<and> \<not> y \<le> x"
    unfolding less_eq_UdsSessionType_def less_UdsSessionType_def by (rule less_le_not_le)
  show "x \<le> y \<Longrightarrow> y \<le> x \<Longrightarrow> x = y"
    by (simp add: less_eq_UdsSessionType_def order_antisym flip: session_code_inject)
qed (auto simp: less_eq_UdsSessionType_def less_UdsSessionType_def)

end

lemma session_of_byte_code [simp]: "session_of_byte (session_code t) = Some t"
  by (cases t) (simp_all add: session_of_byte_def)

lemma session_of_byte_Some: "session_of_byte b = Some t \<longleftrightarrow> b = session_code t"
  by (cases t) (auto simp: session_of_byte_def)

lemma session_of_byte_None: "session_of_byte b = None \<longleftrightarrow> b \<notin> {0x01, 0x02, 0x03, 0x04}"
  by (auto simp: session_of_byte_def)

lemma session_code_default [simp]: "session_code t = 1 \<longleftrightarrow> t = UDS_SESSION_DEFAULT"
  by (cases t) simp_all

section \<open>Operations\<close>

definition uds_core_session_init ::
  "timespec \<Rightarrow> UdsCoreSession ptr \<Rightarrow> u8 \<Rightarrow> UdsCoreSessionConfig ptr \<Rightarrow> UdsCoreSession ptr" where
  "uds_core_session_init now sess eid c =
     (case sess of None \<Rightarrow> None
      | Some s \<Rightarrow>
          Some \<lparr>ecu_id = eid, sess_type = UDS_SESSION_DEFAULT,
            cfg = (case c of Some cf \<Rightarrow> cf | None \<Rightarrow> UDS_CORE_SESSION_DEFAULT_CONFIG),
            security_level = 0, last_activity = now\<rparr>)"

definition uds_core_dsc ::
  "timespec \<Rightarrow> u8 \<Rightarrow> UdsCoreSession ptr \<Rightarrow> nat \<Rightarrow> outp \<Rightarrow> UdsCoreSession ptr result" where
  "uds_core_dsc now session_type sess resp_size out =
     (case sess of None \<Rightarrow> Some (UDS_CORE_ERR_PARAM, sess, out)
      | Some s \<Rightarrow>
          if null_out out then Some (UDS_CORE_ERR_PARAM, sess, out)
          else (case session_of_byte session_type of
              None \<Rightarrow> ret_nrc UDS_NRC_SUB_FUNCTION_NOT_SUPPORTED sess out
            | Some ty \<Rightarrow>
                if resp_size < 6 then Some (UDS_CORE_ERR_BUF, sess, out)
                else
                  let s1 = s\<lparr>sess_type := ty\<rparr>;
                      s2 = (if session_type = session_code UDS_SESSION_DEFAULT
                            then s1\<lparr>security_level := 0\<rparr> else s1);
                      s3 = s2\<lparr>last_activity := now\<rparr>;
                      p2_star_10ms = p2_star_ms (cfg s3) div 10
                  in ret_ok [0x50, session_type,
                       byte_of 1 (p2_ms (cfg s3)), byte_of 0 (p2_ms (cfg s3)),
                       byte_of 1 p2_star_10ms, byte_of 0 p2_star_10ms] (Some s3) out))"

definition uds_core_tester_present ::
  "timespec \<Rightarrow> u8 \<Rightarrow> UdsCoreSession ptr \<Rightarrow> nat \<Rightarrow> outp \<Rightarrow> UdsCoreSession ptr result" where
  "uds_core_tester_present now sub_fn sess resp_size out =
     (case sess of None \<Rightarrow> Some (UDS_CORE_ERR_PARAM, sess, out)
      | Some s \<Rightarrow>
          if null_out out then Some (UDS_CORE_ERR_PARAM, sess, out)
          else
            let suppress = (sub_fn AND 0x80 \<noteq> 0);
                actual_sub_fn = sub_fn AND 0x7F
            in
            if actual_sub_fn \<noteq> 0 then ret_nrc UDS_NRC_SUB_FUNCTION_NOT_SUPPORTED sess out
            else
              let s1 = Some (s\<lparr>last_activity := now\<rparr>) in
              if suppress then do {
                out \<leftarrow> set_resp_len 0 out;
                Some (UDS_CORE_OK, s1, out) }
              else if resp_size < 2 then Some (UDS_CORE_ERR_BUF, s1, out)
              else ret_ok [0x7E, actual_sub_fn] s1 out)"

definition timespec_diff_ms :: "timespec \<Rightarrow> timespec \<Rightarrow> int" where
  "timespec_diff_ms a b =
     (tv_sec a - tv_sec b) * 1000 + (tv_nsec a - tv_nsec b) sdiv 1000000"

definition uds_core_session_expired :: "timespec \<Rightarrow> UdsCoreSession ptr \<Rightarrow> bool" where
  "uds_core_session_expired now sess =
     (case sess of None \<Rightarrow> True
      | Some s \<Rightarrow> timespec_diff_ms now (last_activity s) > uint (s3_ms (cfg s)))"

definition uds_core_session_refresh :: "timespec \<Rightarrow> UdsCoreSession ptr \<Rightarrow> UdsCoreSession ptr" where
  "uds_core_session_refresh now sess =
     (case sess of None \<Rightarrow> None | Some s \<Rightarrow> Some (s\<lparr>last_activity := now\<rparr>))"

declare uds_core_dsc_def [svc_defs] uds_core_tester_present_def [svc_defs]

section \<open>The service contract\<close>

interpretation dsc: uds_service "uds_core_dsc now ty" "ptr_inv (\<lambda>_. True)"
  by (rule uds_service_ptrI)
     (simp_all add: uds_core_dsc_def mem_simps Let_def split: option.splits)

interpretation tester_present: uds_service "uds_core_tester_present now sub" "ptr_inv (\<lambda>_. True)"
  by (rule uds_service_ptrI)
     (simp_all add: uds_core_tester_present_def mem_simps Let_def)

interpretation dsc_pos: positive_service "uds_core_dsc now ty" "ptr_inv (\<lambda>_. True)" "0x10"
  by unfold_locales (simp only: uds_core_dsc_def Let_def, (rule opens_rules | (simp add: opens_final; fail))+)

interpretation tester_present_pos: positive_service "uds_core_tester_present now sub" "ptr_inv (\<lambda>_. True)" "0x3E"
  by unfold_locales (simp only: uds_core_tester_present_def Let_def, (rule opens_rules | (simp add: opens_final; fail))+)

interpretation dsc_speaks: answering_service "uds_core_dsc now ty" "ptr_inv (\<lambda>_. True)" "\<lambda>p n. p = None \<or> n < 6"
  by unfold_locales (simp only: uds_core_dsc_def Let_def null_out_mk if_False, (rule speaks_intros | (simp; fail))+)

interpretation dsc_blind: blind_service "uds_core_dsc now ty" "ptr_inv (\<lambda>_. True)"
  by unfold_locales (simp only: uds_core_dsc_def Let_def null_out_mk if_False, (rule unseen_rules | assumption | simp)+)

interpretation tester_present_blind: blind_service "uds_core_tester_present now sub" "ptr_inv (\<lambda>_. True)"
  by unfold_locales (simp only: uds_core_tester_present_def Let_def null_out_mk if_False, (rule unseen_rules | assumption | (simp; fail))+)

section \<open>Properties\<close>

lemma and_0x7F_zero: "(sub :: u8) AND 0x7F = 0 \<longleftrightarrow> sub = 0 \<or> sub = 0x80"
proof -
  have "unat (sub AND 0x7F) = unat sub mod 128"
    by (simp only: and_low_mask unat_take_bit) simp
  with unat_u8_less [of sub] show ?thesis
    by (auto simp: word_unat_eq_iff simp del: unat_0_iff)
qed

text \<open>A suppressed TesterPresent is the one request that is answered with nothing.\<close>

interpretation tester_present_speaks: answering_service "uds_core_tester_present now sub" "ptr_inv (\<lambda>_. True)"
  "\<lambda>p n. p = None \<or> sub = 0x80 \<or> n < 2"
proof
  fix p :: "UdsCoreSession ptr" and n and b :: "u8 list"
  assume q: "\<not> (p = None \<or> sub = 0x80 \<or> n < 2)" and n: "n \<le> length b"
  then obtain s where "p = Some s" by auto
  with q n show "speaks (uds_core_tester_present now sub p n (mk_out b 0 0))"
    by (cases "sub AND 0x7F = 0") (auto simp: uds_core_tester_present_def and_0x7F_zero intro: speaks_intros)
qed

lemma dsc_ok_iff:
  assumes "n \<le> length b"
    and "uds_core_dsc now ty (Some s) n (mk_out b l c) = Some (rc, st', out')"
  shows "rc = UDS_CORE_OK \<longleftrightarrow> ty \<in> {1, 2, 3, 4} \<and> 6 \<le> n"
  using assms
  by (auto simp: uds_core_dsc_def mem_simps Let_def session_of_byte_None session_of_byte_def
      split: option.splits if_splits)

text \<open>
  C37. DiagnosticSessionControl does what \<open>uds_core.h\<close> says of it. On valid pointers it returns; it
  succeeds for exactly the four session types of the enumeration, 0x01 to 0x04 with the programming
  session 0x02, when six bytes fit. On success
  the requested session is entered, the timing configuration is kept, the S3 timer is
  restarted, the security level is dropped exactly on a return to the default session, and the
  six response bytes carry the session type and, big-endian, P2 in ms and P2* in units of 10 ms.
  On an error neither the session nor the buffer changes.
\<close>

theorem dsc_effect:
  assumes "n \<le> length b"
  shows "\<exists>rc s' b' l' c'.
    uds_core_dsc now ty (Some s) n (mk_out b l c) = Some (rc, Some s', mk_out b' l' c') \<and>
    (rc = UDS_CORE_OK \<longleftrightarrow> ty \<in> {1, 2, 3, 4} \<and> 6 \<le> n) \<and>
    (if rc = UDS_CORE_OK then
       session_code (sess_type s') = ty \<and> cfg s' = cfg s \<and> last_activity s' = now \<and>
       ecu_id s' = ecu_id s \<and>
       security_level s' = (if sess_type s' = UDS_SESSION_DEFAULT then 0 else security_level s) \<and>
       (\<exists>x0 x1 y0 y1. take l' b' = [0x50, ty, x1, x0, y1, y0] \<and>
          be16 x1 x0 = p2_ms (cfg s) \<and> be16 y1 y0 = p2_star_ms (cfg s) div 10)
     else s' = s \<and> b' = b)"
proof (cases "session_of_byte ty")
  case None
  then have "ty \<notin> {1, 2, 3, 4}" by (simp add: session_of_byte_None)
  with assms None show ?thesis
    by (simp add: uds_core_dsc_def mem_simps)
next
  case (Some t)
  then have t: "ty = session_code t" by (simp add: session_of_byte_Some)
  then have in4: "ty \<in> {1, 2, 3, 4}" by (cases t) auto
  show ?thesis
  proof (cases "n < 6")
    case True
    with assms Some show ?thesis by (simp add: uds_core_dsc_def mem_simps)
  next
    case False
    with assms in4 Some t show ?thesis
      by (simp add: uds_core_dsc_def mem_simps Let_def take_splice0 [where src = "[_, _, _, _, _, _]", simplified])
  qed
qed

theorem dsc_effect_witness:
  "\<exists>s'. uds_core_dsc \<lparr>tv_sec = 7, tv_nsec = 0\<rparr> 3
      (Some \<lparr>ecu_id = 1, sess_type = UDS_SESSION_DEFAULT, cfg = UDS_CORE_SESSION_DEFAULT_CONFIG,
         security_level = 0, last_activity = \<lparr>tv_sec = 0, tv_nsec = 0\<rparr>\<rparr>)
      6 (mk_out (replicate 6 0) 0 0)
    = Some (UDS_CORE_OK, Some s', mk_out [0x50, 3, 0, 50, 0, 200] 6 0) \<and>
    sess_type s' = UDS_SESSION_EXTENDED"
  using dsc_effect [of 6 "replicate 6 0" "\<lparr>tv_sec = 7, tv_nsec = 0\<rparr>" 3
      "\<lparr>ecu_id = 1, sess_type = UDS_SESSION_DEFAULT, cfg = UDS_CORE_SESSION_DEFAULT_CONFIG,
         security_level = 0, last_activity = \<lparr>tv_sec = 0, tv_nsec = 0\<rparr>\<rparr>" 0 0]
  by (simp add: uds_core_dsc_def session_of_byte_def mem_simps splice_def byte_of_def
      UDS_CORE_SESSION_DEFAULT_CONFIG_def Let_def)

text \<open>
  TesterPresent keeps the session alive and honours the suppress bit: sub-function 0x80
  succeeds without a response whatever the buffer, 0x00 answers \<open>7E 00\<close> when two bytes fit, and
  every other sub-function is refused with NRC 0x12 and leaves the timer alone. When it is not
  refused the S3 timer cannot be expired at the same instant.
\<close>

lemma tester_present_effect:
  assumes "n \<le> length b"
  shows "\<exists>rc s' b' l' c'.
    uds_core_tester_present now sub (Some s) n (mk_out b l c) = Some (rc, Some s', mk_out b' l' c') \<and>
    (rc = UDS_CORE_ERR_NRC \<longleftrightarrow> sub \<notin> {0, 0x80}) \<and>
    (rc = UDS_CORE_ERR_NRC \<longrightarrow> s' = s \<and> c' = nrc_code UDS_NRC_SUB_FUNCTION_NOT_SUPPORTED) \<and>
    (sub = 0x80 \<longrightarrow> rc = UDS_CORE_OK \<and> l' = 0 \<and> b' = b) \<and>
    (sub = 0 \<longrightarrow> (rc = UDS_CORE_OK \<longleftrightarrow> 2 \<le> n) \<and> (2 \<le> n \<longrightarrow> take l' b' = [0x7E, 0])) \<and>
    (rc \<noteq> UDS_CORE_ERR_NRC \<longrightarrow>
       s' = s\<lparr>last_activity := now\<rparr> \<and> \<not> uds_core_session_expired now (Some s'))"
proof -
  consider "sub = 0" | "sub = 0x80" | "sub \<noteq> 0 \<and> sub \<noteq> 0x80" by blast
  then show ?thesis
  proof cases
    case 3
    then have "sub AND 0x7F \<noteq> 0" by (simp add: and_0x7F_zero)
    with 3 assms show ?thesis
      by (simp add: uds_core_tester_present_def mem_simps)
  qed (use assms in \<open>simp_all add: uds_core_tester_present_def mem_simps Let_def
         uds_core_session_expired_def timespec_diff_ms_def take_splice0 [where src = "[_, _]", simplified]\<close>)
qed

text \<open>Real time between two readings, in nanoseconds.\<close>

definition elapsed_ns :: "timespec \<Rightarrow> timespec \<Rightarrow> int" where
  "elapsed_ns a b = (tv_sec a - tv_sec b) * 1000000000 + (tv_nsec a - tv_nsec b)"

lemma sdiv_million_bounds:
  "(x < 0 \<longrightarrow> (x :: int) sdiv 1000000 * 1000000 < x + 1000000 \<and> x \<le> x sdiv 1000000 * 1000000) \<and>
   (0 \<le> x \<longrightarrow> x < x sdiv 1000000 * 1000000 + 1000000 \<and> x sdiv 1000000 * 1000000 \<le> x)"
proof -
  have "y div 1000000 * 1000000 \<le> y \<and> y < y div 1000000 * 1000000 + 1000000" for y :: int
    using div_mult_mod_eq [of y 1000000] pos_mod_sign [of 1000000 y] pos_mod_bound [of 1000000 y]
    by linarith
  from this [of x] this [of "- x"] show ?thesis
    by (auto simp: signed_divide_int_def sgn_if)
qed

text \<open>
  The S3 timer is exact up to its resolution of one millisecond. With both readings
  normalised (nanoseconds below 10^9), a session is reported expired only when strictly more
  than \<open>s3_ms\<close> milliseconds of real time have passed, and it is always reported expired once
  \<open>s3_ms + 1\<close> milliseconds have passed, although the nanosecond difference may be negative and
  C division truncates towards zero.
\<close>

lemma session_expired_exact:
  assumes "0 \<le> tv_nsec now" "tv_nsec now < 1000000000"
    and "0 \<le> tv_nsec (last_activity s)" "tv_nsec (last_activity s) < 1000000000"
  shows "(uds_core_session_expired now (Some s) \<longrightarrow>
            uint (s3_ms (cfg s)) * 1000000 < elapsed_ns now (last_activity s)) \<and>
         ((uint (s3_ms (cfg s)) + 1) * 1000000 \<le> elapsed_ns now (last_activity s) \<longrightarrow>
            uds_core_session_expired now (Some s))"
proof -
  define d where "d = tv_nsec now - tv_nsec (last_activity s)"
  define q where "q = d sdiv 1000000"
  have "(d < 0 \<longrightarrow> q * 1000000 < d + 1000000 \<and> d \<le> q * 1000000) \<and>
        (0 \<le> d \<longrightarrow> d < q * 1000000 + 1000000 \<and> q * 1000000 \<le> d)"
    unfolding q_def using sdiv_million_bounds [of d] by blast
  then show ?thesis
    unfolding uds_core_session_expired_def timespec_diff_ms_def elapsed_ns_def
    by (simp flip: d_def q_def) linarith
qed

end
