(* ===== verification/Security.thy ===== *)
theory Security
  imports Service
begin

text \<open>
  SecurityAccess (0x27), \<open>src/core/security.c\<close>: seed and key, attempt counter, lockout. The state
  is \<open>UdsCoreSecurity\<close> of \<open>src/include/uds_core.h\<close>. \<open>rand()\<close> of the C library is the argument
  \<open>rnd\<close>: \<open>rnd i\<close> is the value of the \<open>i\<close>-th call made while one request is processed.
\<close>

section \<open>State\<close>

definition UDS_CORE_SEED_LEN :: nat where "UDS_CORE_SEED_LEN = 4"
definition UDS_CORE_MAX_ATTEMPTS :: u8 where "UDS_CORE_MAX_ATTEMPTS = 3"
definition UDS_CORE_LOCKOUT_SECS :: int where "UDS_CORE_LOCKOUT_SECS = 300"
definition UDS_CORE_SEED_TIMEOUT_SECS :: int where "UDS_CORE_SEED_TIMEOUT_SECS = 10"

definition KEY_MASK :: "u8 list" where
  "KEY_MASK = [0xAB, 0xCD, 0x12, 0x34]"

lemmas sec_consts = UDS_CORE_SEED_LEN_def UDS_CORE_MAX_ATTEMPTS_def UDS_CORE_LOCKOUT_SECS_def
  UDS_CORE_SEED_TIMEOUT_SECS_def KEY_MASK_def

record UdsCoreSecurity =
  seed :: "u8 list"
  seed_valid :: bool
  pending_level :: u8
  seed_ts :: timespec
  fail_count :: u8
  locked :: bool
  locked_ts :: timespec
  unlocked_level :: u8

text \<open>\<open>memset(sec, 0, sizeof(*sec))\<close>.\<close>

definition zero_security :: UdsCoreSecurity where
  "zero_security =
     \<lparr>seed = [0, 0, 0, 0], seed_valid = False, pending_level = 0,
      seed_ts = \<lparr>tv_sec = 0, tv_nsec = 0\<rparr>, fail_count = 0, locked = False,
      locked_ts = \<lparr>tv_sec = 0, tv_nsec = 0\<rparr>, unlocked_level = 0\<rparr>"

section \<open>Operations\<close>

definition check_locked :: "timespec \<Rightarrow> UdsCoreSecurity \<Rightarrow> bool \<times> UdsCoreSecurity" where
  "check_locked now sec =
     (if \<not> locked sec then (False, sec)
      else
        let elapsed = tv_sec now - tv_sec (locked_ts sec) in
        if elapsed \<ge> UDS_CORE_LOCKOUT_SECS
        then (False, sec\<lparr>locked := False, fail_count := 0\<rparr>)
        else (True, sec))"

definition seed_expired :: "timespec \<Rightarrow> UdsCoreSecurity \<Rightarrow> bool" where
  "seed_expired now sec =
     (if \<not> seed_valid sec then True
      else
        let elapsed = tv_sec now - tv_sec (seed_ts sec) in
        elapsed \<ge> UDS_CORE_SEED_TIMEOUT_SECS)"

definition uds_core_security_init :: "UdsCoreSecurity ptr \<Rightarrow> UdsCoreSecurity ptr" where
  "uds_core_security_init sec = (case sec of None \<Rightarrow> None | Some _ \<Rightarrow> Some zero_security)"

text \<open>The loop over \<open>key_out[i] = seed[i] ^ KEY_MASK[i % UDS_CORE_SEED_LEN]\<close>.\<close>

function key_loop :: "u8 list ptr \<Rightarrow> nat \<Rightarrow> nat \<Rightarrow> u8 list ptr \<Rightarrow> u8 list ptr option" where
  "key_loop sd n i key_out =
     (if i < n then do {
        x \<leftarrow> mem_get sd i;
        m \<leftarrow> mem_get (Some KEY_MASK) (i mod UDS_CORE_SEED_LEN);
        k \<leftarrow> mem_set key_out i (x XOR m);
        key_loop sd n (Suc i) (Some k) }
      else Some key_out)"
  by pat_completeness auto
termination
  by (relation "measure (\<lambda>(sd, n, i, key_out). n - i)") auto

definition uds_core_sec_compute_key :: "u8 list ptr \<Rightarrow> nat \<Rightarrow> u8 list ptr \<Rightarrow> u8 list ptr option" where
  "uds_core_sec_compute_key sd seed_len key_out =
     (if sd = None \<or> key_out = None \<or> seed_len = 0 then Some key_out
      else key_loop sd seed_len 0 key_out)"

definition uds_core_sec_request_seed ::
  "clock \<Rightarrow> (nat \<Rightarrow> int) \<Rightarrow> u8 \<Rightarrow> UdsCoreSecurity ptr \<Rightarrow> nat \<Rightarrow> outp \<Rightarrow> UdsCoreSecurity ptr result" where
  "uds_core_sec_request_seed clk rnd sub_fn psec resp_size out =
     (case psec of None \<Rightarrow> Some (UDS_CORE_ERR_PARAM, psec, out)
      | Some sec \<Rightarrow>
          if null_out out then Some (UDS_CORE_ERR_PARAM, psec, out)
          else if sub_fn = 0 \<or> sub_fn AND 0x01 = 0
          then ret_nrc UDS_NRC_SUB_FUNCTION_NOT_SUPPORTED psec out
          else if resp_size < 2 + UDS_CORE_SEED_LEN then Some (UDS_CORE_ERR_BUF, psec, out)
          else
            let (is_locked, sec) = check_locked (clk 0) sec in
            if is_locked then ret_nrc UDS_NRC_EXCEEDED_NUMBER_OF_ATTEMPTS (Some sec) out
            else if unlocked_level sec = sub_fn
            then ret_ok ([0x67, sub_fn] @ replicate UDS_CORE_SEED_LEN 0x00) (Some sec) out
            else
              let sec = sec\<lparr>seed := map (\<lambda>i. word_of_int (rnd i)) [0 ..< UDS_CORE_SEED_LEN],
                            seed_valid := True, pending_level := sub_fn, seed_ts := clk 1\<rparr>
              in ret_ok ([0x67, sub_fn] @ seed sec) (Some sec) out)"

text \<open>The comparison loop \<open>mismatch |= (key[i] ^ expected_key[i])\<close>.\<close>

function mismatch_loop :: "u8 list ptr \<Rightarrow> u8 list ptr \<Rightarrow> nat \<Rightarrow> u8 \<Rightarrow> u8 option" where
  "mismatch_loop key expected i mismatch =
     (if i < UDS_CORE_SEED_LEN then do {
        x \<leftarrow> mem_get key i;
        y \<leftarrow> mem_get expected i;
        mismatch_loop key expected (Suc i) (mismatch OR (x XOR y)) }
      else Some mismatch)"
  by pat_completeness auto
termination
  by (relation "measure (\<lambda>(key, expected, i, m). UDS_CORE_SEED_LEN - i)") auto

definition uds_core_sec_send_key ::
  "clock \<Rightarrow> u8 \<Rightarrow> u8 list ptr \<Rightarrow> nat \<Rightarrow> UdsCoreSecurity ptr \<Rightarrow> nat \<Rightarrow> outp \<Rightarrow> UdsCoreSecurity ptr result" where
  "uds_core_sec_send_key clk sub_fn key key_len psec resp_size out =
     (case psec of None \<Rightarrow> Some (UDS_CORE_ERR_PARAM, psec, out)
      | Some sec \<Rightarrow>
          if key = None \<or> null_out out \<or> key_len = 0 then Some (UDS_CORE_ERR_PARAM, psec, out)
          else if sub_fn = 0 \<or> sub_fn AND 0x01 \<noteq> 0
          then ret_nrc UDS_NRC_SUB_FUNCTION_NOT_SUPPORTED psec out
          else if resp_size < 2 then Some (UDS_CORE_ERR_BUF, psec, out)
          else
            let (is_locked, sec) = check_locked (clk 0) sec in
            if is_locked then ret_nrc UDS_NRC_EXCEEDED_NUMBER_OF_ATTEMPTS (Some sec) out
            else
              let expected_seed_level = sub_fn - 1 in
              if \<not> seed_valid sec \<or> pending_level sec \<noteq> expected_seed_level
              then ret_nrc UDS_NRC_REQUEST_SEQUENCE_ERROR (Some sec) out
              else if seed_expired (clk 1) sec
              then ret_nrc UDS_NRC_REQUEST_SEQUENCE_ERROR (Some (sec\<lparr>seed_valid := False\<rparr>)) out
              else if key_len \<noteq> UDS_CORE_SEED_LEN
              then ret_nrc UDS_NRC_INCORRECT_MSG_LEN_OR_FORMAT (Some sec) out
              else do {
                expected_key \<leftarrow> uds_core_sec_compute_key (Some (seed sec)) UDS_CORE_SEED_LEN
                                  (Some (replicate UDS_CORE_SEED_LEN 0));
                mismatch \<leftarrow> mismatch_loop key expected_key 0 0;
                if mismatch \<noteq> 0 then
                  (let sec = sec\<lparr>fail_count := fail_count sec + 1, seed_valid := False\<rparr> in
                   if fail_count sec \<ge> UDS_CORE_MAX_ATTEMPTS
                   then ret_nrc UDS_NRC_EXCEEDED_NUMBER_OF_ATTEMPTS
                          (Some (sec\<lparr>locked := True, locked_ts := clk 2\<rparr>)) out
                   else ret_nrc UDS_NRC_INVALID_KEY (Some sec) out)
                else
                  ret_ok [0x67, sub_fn]
                    (Some (sec\<lparr>seed_valid := False, fail_count := 0,
                               unlocked_level := expected_seed_level\<rparr>)) out })"

definition uds_core_sec_is_unlocked :: "UdsCoreSecurity ptr \<Rightarrow> u8 \<Rightarrow> bool" where
  "uds_core_sec_is_unlocked psec level =
     (case psec of None \<Rightarrow> False
      | Some sec \<Rightarrow> unlocked_level sec = level \<and> level \<noteq> 0)"

definition uds_core_sec_reset :: "UdsCoreSecurity ptr \<Rightarrow> UdsCoreSecurity ptr" where
  "uds_core_sec_reset psec = (case psec of None \<Rightarrow> None | Some _ \<Rightarrow> Some zero_security)"

declare key_loop.simps [simp del] mismatch_loop.simps [simp del]
declare uds_core_sec_request_seed_def [svc_defs] uds_core_sec_send_key_def [svc_defs]

section \<open>The key algorithm\<close>

definition xor_key :: "u8 list \<Rightarrow> u8 list" where
  "xor_key s = map (\<lambda>i. s ! i XOR KEY_MASK ! (i mod UDS_CORE_SEED_LEN)) [0 ..< length s]"

lemma length_xor_key [simp]: "length (xor_key s) = length s"
  by (simp add: xor_key_def)

lemma key_loop_eq:
  assumes "length s = n" "length k = n" "i \<le> n" "\<forall>j < i. k ! j = xor_key s ! j"
  shows "key_loop (Some s) n i (Some k) = Some (Some (xor_key s))"
  using assms
proof (induction "n - i" arbitrary: i k)
  case 0
  then have "k = xor_key s" by (intro nth_equalityI) auto
  with 0 show ?case by (simp add: key_loop.simps)
next
  case (Suc d)
  let ?k = "k[i := s ! i XOR KEY_MASK ! (i mod UDS_CORE_SEED_LEN)]"
  from Suc.hyps(2) have i: "i < n" by simp
  have "\<forall>j < Suc i. ?k ! j = xor_key s ! j"
    using Suc.prems i by (auto simp: xor_key_def nth_list_update less_Suc_eq)
  then have "key_loop (Some s) n (Suc i) (Some ?k) = Some (Some (xor_key s))"
    using Suc.hyps Suc.prems i by (intro Suc.hyps(1)) auto
  with i Suc.prems show ?case
    by (subst key_loop.simps) (simp add: mem_simps KEY_MASK_def UDS_CORE_SEED_LEN_def)
qed

lemma compute_key_eq:
  assumes "length s = n" "length k = n"
  shows "uds_core_sec_compute_key (Some s) n (Some k) = Some (Some (xor_key s))"
  using assms key_loop_eq [of s n k 0]
  by (auto simp: uds_core_sec_compute_key_def xor_key_def)

lemma xor_eq_0_word: "(a :: 'a::len word) XOR b = 0 \<longleftrightarrow> a = b"
  by (metis xor.assoc xor.left_neutral xor.right_neutral xor_self_eq)

lemma mismatch_loop_eq:
  assumes "UDS_CORE_SEED_LEN \<le> length k" "UDS_CORE_SEED_LEN \<le> length e"
  shows "\<exists>m'. mismatch_loop (Some k) (Some e) i m = Some m' \<and>
     (m' = 0 \<longleftrightarrow> m = 0 \<and> (\<forall>j. i \<le> j \<and> j < UDS_CORE_SEED_LEN \<longrightarrow> k ! j = e ! j))"
proof (induction "UDS_CORE_SEED_LEN - i" arbitrary: i m)
  case 0
  then show ?case by (auto simp: mismatch_loop.simps)
next
  case (Suc d)
  then have i: "i < UDS_CORE_SEED_LEN" by simp
  from Suc.hyps(2) have "d = UDS_CORE_SEED_LEN - Suc i" by simp
  from Suc.hyps(1) [OF this, of "m OR (k ! i XOR e ! i)"] obtain m' where
    "mismatch_loop (Some k) (Some e) (Suc i) (m OR (k ! i XOR e ! i)) = Some m'"
    "m' = 0 \<longleftrightarrow> m OR (k ! i XOR e ! i) = 0 \<and>
       (\<forall>j. Suc i \<le> j \<and> j < UDS_CORE_SEED_LEN \<longrightarrow> k ! j = e ! j)"
    by auto
  moreover have "(\<forall>j. i \<le> j \<and> j < UDS_CORE_SEED_LEN \<longrightarrow> k ! j = e ! j) \<longleftrightarrow>
      k ! i = e ! i \<and> (\<forall>j. Suc i \<le> j \<and> j < UDS_CORE_SEED_LEN \<longrightarrow> k ! j = e ! j)"
    using i by (metis Suc_le_eq le_eq_less_or_eq)
  ultimately show ?case
    using i assms
    by (subst mismatch_loop.simps) (simp add: mem_simps or_eq_0_iff xor_eq_0_word)
qed

lemma mismatch_zero:
  assumes "UDS_CORE_SEED_LEN \<le> length k" "length e = UDS_CORE_SEED_LEN"
  obtains m where "mismatch_loop (Some k) (Some e) 0 0 = Some m"
    "m = 0 \<longleftrightarrow> take UDS_CORE_SEED_LEN k = e"
proof -
  from assms obtain m where m: "mismatch_loop (Some k) (Some e) 0 0 = Some m"
    "m = 0 \<longleftrightarrow> (\<forall>j < UDS_CORE_SEED_LEN. k ! j = e ! j)"
    using mismatch_loop_eq [of k e 0 0] by auto
  moreover have "(\<forall>j < UDS_CORE_SEED_LEN. k ! j = e ! j) \<longleftrightarrow> take UDS_CORE_SEED_LEN k = e"
    using assms by (auto simp: list_eq_iff_nth_eq)
  ultimately show thesis using that by simp
qed

section \<open>Invariant and contract\<close>

text \<open>
  The attempt counter never passes the limit, it sits at the limit exactly while the lock is
  set, no seed is pending while the lock is set, and the levels on record are the odd
  requestSeed levels.
\<close>

definition sec_inv :: "UdsCoreSecurity \<Rightarrow> bool" where
  "sec_inv sec \<longleftrightarrow>
     length (seed sec) = UDS_CORE_SEED_LEN \<and>
     fail_count sec \<le> UDS_CORE_MAX_ATTEMPTS \<and>
     (locked sec \<longleftrightarrow> fail_count sec = UDS_CORE_MAX_ATTEMPTS) \<and>
     \<not> (locked sec \<and> seed_valid sec) \<and>
     (seed_valid sec \<longrightarrow> pending_level sec AND 1 = 1) \<and>
     (unlocked_level sec = 0 \<or> unlocked_level sec AND 1 = 1)"

lemma zero_security_inv [simp]: "sec_inv zero_security"
  by (simp add: sec_inv_def zero_security_def sec_consts)

lemma check_locked_inv:
  "sec_inv sec \<Longrightarrow> check_locked t sec = (r, sec') \<Longrightarrow> sec_inv sec' \<and> (\<not> r \<longrightarrow> \<not> locked sec')"
  by (auto simp: check_locked_def sec_inv_def sec_consts Let_def split: if_splits)

lemma odd_and_one: "(w :: u8) AND 1 = 1 \<longleftrightarrow> w AND 1 \<noteq> 0"
  by (simp add: and_one_eq flip: odd_iff_mod_2_eq_one even_iff_mod_2_eq_zero)

lemma odd_iff_and_one: "odd (w :: u8) \<longleftrightarrow> w AND 1 \<noteq> 0"
  by (simp add: and_one_eq odd_iff_mod_2_eq_one)

lemma even_pred_odd: "(w :: u8) AND 1 = 0 \<Longrightarrow> (w - 1) AND 1 = 1"
  by (simp add: and_one_eq flip: odd_iff_mod_2_eq_one even_iff_mod_2_eq_zero)

lemma fail_count_step:
  assumes "sec_inv sec" "\<not> locked sec"
  shows "fail_count sec + 1 \<ge> UDS_CORE_MAX_ATTEMPTS \<longleftrightarrow> fail_count sec + 1 = UDS_CORE_MAX_ATTEMPTS"
    "unat (fail_count sec + 1) = unat (fail_count sec) + 1"
    "fail_count sec + 1 \<le> UDS_CORE_MAX_ATTEMPTS"
proof -
  from assms have "fail_count sec < 3"
    by (auto simp: sec_inv_def sec_consts order_le_less)
  then have lt: "unat (fail_count sec) < 3" by (simp add: word_less_nat_alt)
  then show un: "unat (fail_count sec + 1) = unat (fail_count sec) + 1"
    by (simp add: unat_word_ariths)
  show "fail_count sec + 1 \<ge> UDS_CORE_MAX_ATTEMPTS \<longleftrightarrow> fail_count sec + 1 = UDS_CORE_MAX_ATTEMPTS"
    "fail_count sec + 1 \<le> UDS_CORE_MAX_ATTEMPTS"
    using lt un by (auto simp: word_le_nat_alt word_unat_eq_iff sec_consts)
qed

lemma request_seed_eq:
  assumes "n \<le> length b" "6 \<le> n" "sub AND 1 \<noteq> 0"
  shows "uds_core_sec_request_seed clk rnd sub (Some sec) n (mk_out b l c) =
    (let (is_locked, sec) = check_locked (clk 0) sec in
     if is_locked then ret_nrc UDS_NRC_EXCEEDED_NUMBER_OF_ATTEMPTS (Some sec) (mk_out b l c)
     else if unlocked_level sec = sub
     then ret_ok [0x67, sub, 0, 0, 0, 0] (Some sec) (mk_out b l c)
     else
       let s4 = map (\<lambda>i. word_of_int (rnd i)) [0 ..< UDS_CORE_SEED_LEN] in
       ret_ok (0x67 # sub # s4)
         (Some (sec\<lparr>seed := s4, seed_valid := True, pending_level := sub, seed_ts := clk 1\<rparr>)) (mk_out b l c))"
  using assms by (auto simp: uds_core_sec_request_seed_def Let_def UDS_CORE_SEED_LEN_def numeral_eq_Suc
      split: prod.splits)

lemma request_seed_safe_keeps:
  assumes "sec_inv sec" "n \<le> length b"
  shows "\<exists>rc sec' out'. uds_core_sec_request_seed clk rnd sub (Some sec) n (mk_out b l c) =
      Some (rc, Some sec', out') \<and> out_contract n (mk_out b l c) rc out' \<and> sec_inv sec'"
proof (cases "sub AND 1 \<noteq> 0 \<and> 6 \<le> n")
  case False
  with assms show ?thesis
    by (auto simp: uds_core_sec_request_seed_def mem_simps UDS_CORE_SEED_LEN_def)
next
  case True
  then have sub: "sub AND 1 \<noteq> 0" "6 \<le> n" by auto
  obtain r x where r: "check_locked (clk 0) sec = (r, x)" by (cases "check_locked (clk 0) sec")
  with assms check_locked_inv have x: "sec_inv x" "\<not> r \<Longrightarrow> \<not> locked x" by blast+
  show ?thesis
    unfolding request_seed_eq [OF assms(2) sub(2,1)] r using assms(2) x sub
    by (auto simp: Let_def mem_simps sec_inv_def odd_and_one UDS_CORE_SEED_LEN_def)
qed

interpretation request_seed: uds_service "uds_core_sec_request_seed clk rnd sub" "ptr_inv sec_inv"
  by (rule uds_service_ptrI, simp add: uds_core_sec_request_seed_def,
      simp add: uds_core_sec_request_seed_def, rule request_seed_safe_keeps)

text \<open>
  \<open>sendKey\<close> with its two loops replaced by what they compute: the form every proof below uses.
\<close>

lemma send_key_eq:
  assumes "length (seed sec) = UDS_CORE_SEED_LEN" "key_len \<le> length key" "0 < key_len" "n \<le> length b" "2 \<le> n"
    "sub \<noteq> 0" "sub AND 1 = 0"
  shows "uds_core_sec_send_key clk sub (Some key) key_len (Some sec) n (mk_out b l c) =
    (let (is_locked, sec) = check_locked (clk 0) sec in
     if is_locked then ret_nrc UDS_NRC_EXCEEDED_NUMBER_OF_ATTEMPTS (Some sec) (mk_out b l c)
     else if \<not> seed_valid sec \<or> pending_level sec \<noteq> sub - 1
     then ret_nrc UDS_NRC_REQUEST_SEQUENCE_ERROR (Some sec) (mk_out b l c)
     else if seed_expired (clk 1) sec
     then ret_nrc UDS_NRC_REQUEST_SEQUENCE_ERROR (Some (sec\<lparr>seed_valid := False\<rparr>)) (mk_out b l c)
     else if key_len \<noteq> UDS_CORE_SEED_LEN
     then ret_nrc UDS_NRC_INCORRECT_MSG_LEN_OR_FORMAT (Some sec) (mk_out b l c)
     else if take UDS_CORE_SEED_LEN key \<noteq> xor_key (seed sec) then
       (let sec = sec\<lparr>fail_count := fail_count sec + 1, seed_valid := False\<rparr> in
        if fail_count sec \<ge> UDS_CORE_MAX_ATTEMPTS
        then ret_nrc UDS_NRC_EXCEEDED_NUMBER_OF_ATTEMPTS
               (Some (sec\<lparr>locked := True, locked_ts := clk 2\<rparr>)) (mk_out b l c)
        else ret_nrc UDS_NRC_INVALID_KEY (Some sec) (mk_out b l c))
     else ret_ok [0x67, sub]
            (Some (sec\<lparr>seed_valid := False, fail_count := 0, unlocked_level := sub - 1\<rparr>)) (mk_out b l c))"
proof -
  have k: "uds_core_sec_compute_key (Some (seed x)) UDS_CORE_SEED_LEN (Some (replicate UDS_CORE_SEED_LEN 0))
      = Some (Some (xor_key (seed x)))" if "length (seed x) = UDS_CORE_SEED_LEN" for x
    using that by (simp add: compute_key_eq)
  obtain r x where r: "check_locked (clk 0) sec = (r, x)" by (cases "check_locked (clk 0) sec")
  then have x: "seed x = seed sec"
    by (auto simp: check_locked_def Let_def split: if_splits)
  show ?thesis
  proof (cases "key_len = UDS_CORE_SEED_LEN")
    case True
    with assms obtain m where
      "mismatch_loop (Some key) (Some (xor_key (seed sec))) 0 0 = Some m"
      "m = 0 \<longleftrightarrow> take UDS_CORE_SEED_LEN key = xor_key (seed sec)"
      using mismatch_zero [of key "xor_key (seed sec)"] by auto
    with assms r x True show ?thesis
      by (simp add: uds_core_sec_send_key_def k Let_def)
  next
    case False
    with assms r show ?thesis
      by (simp add: uds_core_sec_send_key_def Let_def)
  qed
qed

lemma send_key_early:
  assumes "0 < key_len"
    "sub = 0 \<or> sub AND 1 \<noteq> 0 \<or> n < 2"
  shows "uds_core_sec_send_key clk sub (Some key) key_len (Some sec) n (mk_out b l c) =
    (if sub = 0 \<or> sub AND 1 \<noteq> 0
     then ret_nrc UDS_NRC_SUB_FUNCTION_NOT_SUPPORTED (Some sec) (mk_out b l c)
     else Some (UDS_CORE_ERR_BUF, Some sec, mk_out b l c))"
  using assms by (auto simp: uds_core_sec_send_key_def)

lemma send_key_safe_keeps:
  assumes "sec_inv sec" "key_len \<le> length key" "0 < key_len" "n \<le> length b"
  shows "\<exists>rc sec' out'. uds_core_sec_send_key clk sub (Some key) key_len (Some sec) n (mk_out b l c) =
      Some (rc, Some sec', out') \<and> out_contract n (mk_out b l c) rc out' \<and> sec_inv sec'"
proof (cases "sub = 0 \<or> sub AND 1 \<noteq> 0 \<or> n < 2")
  case True
  with assms send_key_early [OF assms(3) True] show ?thesis
    by (auto simp: mem_simps)
next
  case False
  then have sub: "sub \<noteq> 0" "sub AND 1 = 0" "2 \<le> n" by auto
  obtain r x where r: "check_locked (clk 0) sec = (r, x)" by (cases "check_locked (clk 0) sec")
  with assms check_locked_inv have x: "sec_inv x" "\<not> r \<Longrightarrow> \<not> locked x" by blast+
  have len: "length (seed sec) = UDS_CORE_SEED_LEN" using assms by (simp add: sec_inv_def)
  show ?thesis
  proof (cases r)
    case True
    with x(1) assms(4) show ?thesis
      unfolding send_key_eq [OF len assms(2-4) sub(3,1,2)] r by (simp add: mem_simps)
  next
    case False
    with x have unlocked: "\<not> locked x" by simp
    with False x(1) sub assms(4) show ?thesis
      unfolding send_key_eq [OF len assms(2-4) sub(3,1,2)] r
      using fail_count_step [OF x(1) unlocked] even_pred_odd [OF sub(2)]
      by (auto simp: Let_def mem_simps sec_inv_def)
  qed
qed

interpretation send_key:
  uds_service "uds_core_sec_send_key clk sub (Some (k # key)) (Suc (length key))" "ptr_inv sec_inv"
  by (rule uds_service_ptrI, simp add: uds_core_sec_send_key_def,
      simp add: uds_core_sec_send_key_def, rule send_key_safe_keeps, simp_all)

interpretation request_seed_pos: positive_service "uds_core_sec_request_seed clk rnd sub" "ptr_inv sec_inv" "0x27"
  by unfold_locales (simp only: uds_core_sec_request_seed_def Let_def, (rule opens_rules | (simp add: opens_final; fail))+)

interpretation send_key_pos:
  positive_service "uds_core_sec_send_key clk sub (Some (k # key)) (Suc (length key))" "ptr_inv sec_inv" "0x27"
  by unfold_locales (simp only: uds_core_sec_send_key_def Let_def, (rule opens_rules | (simp add: opens_final; fail))+)

interpretation request_seed_speaks:
  answering_service "uds_core_sec_request_seed clk rnd sub" "ptr_inv sec_inv" "\<lambda>p n. p = None \<or> n < 6"
  by unfold_locales (simp only: uds_core_sec_request_seed_def Let_def null_out_mk if_False,
    (rule speaks_intros | (simp add: UDS_CORE_SEED_LEN_def; fail))+)

interpretation send_key_speaks:
  answering_service "uds_core_sec_send_key clk sub (Some (k # key)) (Suc (length key))" "ptr_inv sec_inv"
    "\<lambda>p n. p = None \<or> n < 2"
  by unfold_locales (simp only: uds_core_sec_send_key_def Let_def null_out_mk simp_thms, (rule speaks_intros | (simp; fail))+)

interpretation request_seed_blind: blind_service "uds_core_sec_request_seed clk rnd sub" "ptr_inv sec_inv"
  by unfold_locales (simp only: uds_core_sec_request_seed_def Let_def null_out_mk if_False, (rule unseen_rules | assumption)+)

interpretation send_key_blind:
  blind_service "uds_core_sec_send_key clk sub (Some (k # key)) (Suc (length key))" "ptr_inv sec_inv"
  by unfold_locales (simp only: uds_core_sec_send_key_def Let_def null_out_mk simp_thms, (rule unseen_rules | assumption)+)

section \<open>Abstract specification\<close>

text \<open>
  What the service promises, without the bookkeeping of the C structure: either a number of
  failures so far or the start of a lockout, at most one open challenge (level, seed, second of
  issue), and the level granted last.
\<close>

datatype attempts = Open nat | Locked int

record sec_spec =
  attempts :: attempts
  challenge :: "(u8 \<times> u8 list \<times> int) option"
  granted :: u8

datatype verdict = Granted | Denied UdsNrc | Failed UdsCoreError

definition sec_abs :: "UdsCoreSecurity \<Rightarrow> sec_spec" where
  "sec_abs sec =
     \<lparr>attempts = (if locked sec then Locked (tv_sec (locked_ts sec)) else Open (unat (fail_count sec))),
      challenge = (if seed_valid sec then Some (pending_level sec, seed sec, tv_sec (seed_ts sec)) else None),
      granted = unlocked_level sec\<rparr>"

definition spec_expire_lock :: "int \<Rightarrow> sec_spec \<Rightarrow> sec_spec" where
  "spec_expire_lock t a =
     (case attempts a of
        Locked t0 \<Rightarrow> if t - t0 \<ge> 300 then a\<lparr>attempts := Open 0\<rparr> else a
      | Open _ \<Rightarrow> a)"

definition spec_wrong_key :: "int \<Rightarrow> nat \<Rightarrow> sec_spec \<Rightarrow> verdict \<times> sec_spec" where
  "spec_wrong_key t f a =
     (if f + 1 < 3 then (Denied UDS_NRC_INVALID_KEY, a\<lparr>challenge := None, attempts := Open (f + 1)\<rparr>)
      else (Denied UDS_NRC_EXCEEDED_NUMBER_OF_ATTEMPTS, a\<lparr>challenge := None, attempts := Locked t\<rparr>))"

definition spec_present_key :: "clock \<Rightarrow> u8 \<Rightarrow> u8 list \<Rightarrow> sec_spec \<Rightarrow> verdict \<times> sec_spec" where
  "spec_present_key clk level key a0 =
     (let a = spec_expire_lock (tv_sec (clk 0)) a0 in
      case attempts a of
        Locked _ \<Rightarrow> (Denied UDS_NRC_EXCEEDED_NUMBER_OF_ATTEMPTS, a)
      | Open f \<Rightarrow>
          (case challenge a of
             None \<Rightarrow> (Denied UDS_NRC_REQUEST_SEQUENCE_ERROR, a)
           | Some (lvl, sd, t) \<Rightarrow>
               if lvl \<noteq> level then (Denied UDS_NRC_REQUEST_SEQUENCE_ERROR, a)
               else if tv_sec (clk 1) - t \<ge> 10
               then (Denied UDS_NRC_REQUEST_SEQUENCE_ERROR, a\<lparr>challenge := None\<rparr>)
               else if length key \<noteq> 4 then (Denied UDS_NRC_INCORRECT_MSG_LEN_OR_FORMAT, a)
               else if key = xor_key sd
               then (Granted, a\<lparr>challenge := None, attempts := Open 0, granted := level\<rparr>)
               else spec_wrong_key (tv_sec (clk 2)) f a))"

text \<open>
  A sendKey request: no key at all is a wrong parameter, an odd or zero sub-function names no
  sendKey, and without room for the two bytes of the answer nothing is looked at.
\<close>

definition spec_send_key :: "clock \<Rightarrow> u8 \<Rightarrow> u8 list \<Rightarrow> nat \<Rightarrow> sec_spec \<Rightarrow> verdict \<times> sec_spec" where
  "spec_send_key clk sub key n a =
     (if key = [] then (Failed UDS_CORE_ERR_PARAM, a)
      else if sub = 0 \<or> odd sub then (Denied UDS_NRC_SUB_FUNCTION_NOT_SUPPORTED, a)
      else if n < 2 then (Failed UDS_CORE_ERR_BUF, a)
      else spec_present_key clk (sub - 1) key a)"

text \<open>What each verdict is on the wire: code, buffer, length and response code after the call.\<close>

definition answers :: "u8 \<Rightarrow> u8 list \<Rightarrow> nat \<Rightarrow> u8 \<Rightarrow> verdict \<Rightarrow> UdsCoreError \<times> outp" where
  "answers sub b l c v =
     (case v of
        Granted \<Rightarrow> (UDS_CORE_OK, mk_out (splice 0 [0x67, sub] b) 2 c)
      | Denied k \<Rightarrow> (UDS_CORE_ERR_NRC, mk_out b l (nrc_code k))
      | Failed e \<Rightarrow> (e, mk_out b l c))"

lemma sec_abs_check_locked:
  assumes "check_locked t sec = (r, x)"
  shows "sec_abs x = spec_expire_lock (tv_sec t) (sec_abs sec)"
    "r \<longleftrightarrow> (\<exists>t0. attempts (sec_abs x) = Locked t0)"
  using assms
  by (auto simp: check_locked_def sec_abs_def spec_expire_lock_def sec_consts Let_def split: if_splits)

lemma not_locked_fails:
  assumes "sec_inv sec" "\<not> locked sec"
  shows "unat (fail_count sec) + 1 < 3 \<longleftrightarrow> \<not> fail_count sec + 1 \<ge> UDS_CORE_MAX_ATTEMPTS"
  using fail_count_step [OF assms]
  by (auto simp: word_le_nat_alt UDS_CORE_MAX_ATTEMPTS_def)

text \<open>
  C7. Refinement: on every state that satisfies the invariant, for every sub-function, every key
  (also none, and of any length) and every response buffer, the C handler returns what the abstract
  specification answers, byte for byte, and leaves a state whose abstraction is the specification's
  next state. All bookkeeping (constant-time comparison loop, counter of eight bits, flag and
  timestamp fields, lazy expiry of the lock) is invisible from outside. The specification is that of
  \<open>uds_core.h\<close>: two wrong keys are answered \<open>invalidKey\<close>, the third \<open>exceededNumberOfAttempts\<close>.
\<close>

theorem send_key_refines:
  assumes "sec_inv sec" "n \<le> length b"
  shows "\<exists>rc sec' out' v.
    uds_core_sec_send_key clk sub (Some key) (length key) (Some sec) n (mk_out b l c) = Some (rc, Some sec', out') \<and>
    spec_send_key clk sub key n (sec_abs sec) = (v, sec_abs sec') \<and> (rc, out') = answers sub b l c v"
proof (cases "key = [] \<or> sub = 0 \<or> sub AND 1 \<noteq> 0 \<or> n < 2")
  case True
  then show ?thesis
    using send_key_early [of "length key" sub n clk key sec b l c]
    by (auto simp: spec_send_key_def answers_def mem_simps uds_core_sec_send_key_def odd_iff_and_one)
next
  case False
  then have args: "0 < length key" "2 \<le> n" "sub \<noteq> 0" "sub AND 1 = 0" by auto
  then have spec: "spec_send_key clk sub key n a = spec_present_key clk (sub - 1) key a" for a
    by (auto simp: spec_send_key_def odd_iff_and_one)
  have len: "length (seed sec) = UDS_CORE_SEED_LEN" using assms by (simp add: sec_inv_def)
  obtain r x where r: "check_locked (clk 0) sec = (r, x)" by (cases "check_locked (clk 0) sec")
  note x = check_locked_inv [OF assms(1) r] and ax = sec_abs_check_locked [OF r]
  note eq = send_key_eq [OF len order_refl args(1) assms(2) args(2-4), unfolded Let_def]
  show ?thesis
  proof (cases r)
    case True
    with ax obtain t0 where "attempts (sec_abs x) = Locked t0" by blast
    with True show ?thesis
      unfolding eq r spec spec_present_key_def ax(1) [symmetric] by (simp add: mem_simps answers_def)
  next
    case False
    with x have u: "sec_inv x" "\<not> locked x" by auto
    then have abs: "attempts (sec_abs x) = Open (unat (fail_count x))"
      "challenge (sec_abs x) = (if seed_valid x then Some (pending_level x, seed x, tv_sec (seed_ts x)) else None)"
      by (simp_all add: sec_abs_def)
    from False show ?thesis
      unfolding eq r spec spec_present_key_def ax(1) [symmetric] abs
      using u(2) assms(2) args(2) not_locked_fails [OF u] fail_count_step(2) [OF u]
      by (auto simp: abs mem_simps answers_def seed_expired_def sec_abs_def spec_wrong_key_def Let_def
          UDS_CORE_SEED_LEN_def UDS_CORE_SEED_TIMEOUT_SECS_def)
  qed
qed

text \<open>The right key, and a third wrong one.\<close>

theorem send_key_refines_witness:
  "let sec = zero_security\<lparr>seed := [1, 2, 3, 4], seed_valid := True, pending_level := 1, fail_count := 2\<rparr>;
       clk = (\<lambda>_. \<lparr>tv_sec = 5, tv_nsec = 0\<rparr>)
   in (\<exists>sec'. uds_core_sec_send_key clk 2 (Some [0xAA, 0xCF, 0x11, 0x30]) 4 (Some sec) 2 (mk_out [0, 0] 0 0) =
         Some (UDS_CORE_OK, Some sec', mk_out [0x67, 2] 2 0) \<and> granted (sec_abs sec') = 1) \<and>
      (\<exists>sec'. uds_core_sec_send_key clk 2 (Some [1, 2, 3, 4]) 4 (Some sec) 2 (mk_out [0, 0] 0 0) =
         Some (UDS_CORE_ERR_NRC, Some sec', mk_out [0, 0] 0 0x36) \<and> attempts (sec_abs sec') = Locked 5)"
proof -
  let ?sec = "zero_security\<lparr>seed := [1, 2, 3, 4], seed_valid := True, pending_level := 1, fail_count := 2\<rparr>"
  let ?clk = "\<lambda>_. \<lparr>tv_sec = 5, tv_nsec = 0\<rparr>"
  have inv: "sec_inv ?sec" by (simp add: sec_inv_def zero_security_def sec_consts)
  have spec: "spec_send_key ?clk 2 [0xAA, 0xCF, 0x11, 0x30] 2 (sec_abs ?sec) =
      (Granted, (sec_abs ?sec)\<lparr>challenge := None, attempts := Open 0, granted := 1\<rparr>)"
    "spec_send_key ?clk 2 [1, 2, 3, 4] 2 (sec_abs ?sec) =
      (Denied UDS_NRC_EXCEEDED_NUMBER_OF_ATTEMPTS, (sec_abs ?sec)\<lparr>challenge := None, attempts := Locked 5\<rparr>)"
    by (simp_all add: spec_send_key_def spec_present_key_def spec_wrong_key_def sec_abs_def spec_expire_lock_def
        zero_security_def Let_def xor_key_def sec_consts upt_rec)
  have len: "length [w, x, y, z :: u8] = 4" for w x y z by simp
  have b: "2 \<le> length [0, 0 :: u8]" by simp
  note T = send_key_refines [OF inv b, of ?clk 2 _ 0 0]
  from T [of "[0xAA, 0xCF, 0x11, 0x30]"] obtain sec1 where
    1: "uds_core_sec_send_key ?clk 2 (Some [0xAA, 0xCF, 0x11, 0x30]) 4 (Some ?sec) 2 (mk_out [0, 0] 0 0) =
      Some (UDS_CORE_OK, Some sec1, mk_out [0x67, 2] 2 0)" "sec_abs sec1 = (sec_abs ?sec)\<lparr>challenge := None, attempts := Open 0, granted := 1\<rparr>"
    unfolding spec len by (auto simp: answers_def splice_def)
  from T [of "[1, 2, 3, 4]"] obtain sec2 where
    2: "uds_core_sec_send_key ?clk 2 (Some [1, 2, 3, 4]) 4 (Some ?sec) 2 (mk_out [0, 0] 0 0) =
      Some (UDS_CORE_ERR_NRC, Some sec2, mk_out [0, 0] 0 0x36)" "sec_abs sec2 = (sec_abs ?sec)\<lparr>challenge := None, attempts := Locked 5\<rparr>"
    unfolding spec len by (auto simp: answers_def)
  from 1 2 show ?thesis unfolding Let_def by (intro conjI exI [of _ sec1] exI [of _ sec2]) simp_all
qed

text \<open>
  The key algorithm is its own inverse on seeds of any length, so the key determines the
  seed: two seeds of the same length with the same key are equal; and the C function computes it
  without a faulty access whenever the output buffer has the length of the seed.
\<close>

lemma compute_key_involution:
  assumes "length s = n" "length k = n"
  shows "uds_core_sec_compute_key (Some s) n (Some k) = Some (Some (xor_key s)) \<and>
    uds_core_sec_compute_key (Some (xor_key s)) n (Some k) = Some (Some s)"
proof -
  have "xor_key (xor_key s) = s"
    by (rule nth_equalityI) (simp_all add: xor_key_def xor.assoc)
  with assms show ?thesis
    using compute_key_eq [of s n k] compute_key_eq [of "xor_key s" n k] by simp
qed

section \<open>Runs of security requests\<close>

datatype sec_req =
    RequestSeed clock "nat \<Rightarrow> int" u8
  | SendKey clock u8 "u8 list"

text \<open>One request served with a response buffer of six bytes.\<close>

definition sec_serve :: "sec_req \<Rightarrow> UdsCoreSecurity \<Rightarrow> UdsCoreSecurity ptr result" where
  "sec_serve req sec =
     (case req of
        RequestSeed clk rnd sub \<Rightarrow>
          uds_core_sec_request_seed clk rnd sub (Some sec) 6 (mk_out (replicate 6 0) 0 0)
      | SendKey clk sub key \<Rightarrow>
          uds_core_sec_send_key clk sub (Some key) (length key) (Some sec) 6 (mk_out (replicate 6 0) 0 0))"

inductive sec_step :: "UdsCoreSecurity \<Rightarrow> sec_req \<Rightarrow> UdsCoreError \<Rightarrow> u8 \<Rightarrow> UdsCoreSecurity \<Rightarrow> bool" where
  sec_stepI: "sec_serve req sec = Some (rc, Some sec', mk_out b l nrc) \<Longrightarrow> sec_step sec req rc nrc sec'"

inductive_cases sec_stepE: "sec_step sec req rc nrc sec'"

inductive sec_run :: "UdsCoreSecurity \<Rightarrow> (sec_req \<times> UdsCoreError \<times> u8) list \<Rightarrow> UdsCoreSecurity \<Rightarrow> bool" where
  sec_run_Nil: "sec_run sec [] sec"
| sec_run_Cons: "sec_step sec req rc nrc sec1 \<Longrightarrow> sec_run sec1 tr sec2 \<Longrightarrow>
     sec_run sec ((req, rc, nrc) # tr) sec2"

fun sec_req_clock :: "sec_req \<Rightarrow> clock" where
  "sec_req_clock (RequestSeed clk rnd sub) = clk"
| "sec_req_clock (SendKey clk sub key) = clk"

lemma sec_step_inv:
  assumes "sec_step sec req rc nrc sec'" "sec_inv sec"
  shows "sec_inv sec'"
proof -
  from assms(1) obtain b l where step: "sec_serve req sec = Some (rc, Some sec', mk_out b l nrc)"
    by (auto elim: sec_stepE)
  show ?thesis
  proof (cases req)
    case (RequestSeed clk rnd sub)
    with step request_seed_safe_keeps [OF assms(2), of 6 "replicate 6 0" clk rnd sub 0 0] show ?thesis
      by (auto simp: sec_serve_def)
  next
    case (SendKey clk sub key)
    show ?thesis
    proof (cases key)
      case Nil
      with SendKey step assms show ?thesis by (simp add: sec_serve_def uds_core_sec_send_key_def)
    next
      case (Cons k ks)
      with SendKey step send_key_safe_keeps [OF assms(2), of "length key" key 6 "replicate 6 0" clk sub 0 0]
      show ?thesis by (auto simp: sec_serve_def)
    qed
  qed
qed

lemma sec_run_inv: "sec_run sec tr sec' \<Longrightarrow> sec_inv sec \<Longrightarrow> sec_inv sec'"
  by (induction rule: sec_run.induct) (auto dest: sec_step_inv)

text \<open>Inside of a window of 300 seconds that starts no later than the lock, a lock holds.\<close>

definition lock_in_window :: "int \<Rightarrow> UdsCoreSecurity \<Rightarrow> bool" where
  "lock_in_window w sec \<longleftrightarrow> (locked sec \<longrightarrow> w \<le> tv_sec (locked_ts sec))"

lemma check_locked_window:
  assumes "lock_in_window w sec" "w \<le> tv_sec t" "tv_sec t < w + 300"
  shows "check_locked t sec = (locked sec, sec)"
  using assms by (auto simp: check_locked_def lock_in_window_def UDS_CORE_LOCKOUT_SECS_def)

definition in_window :: "int \<Rightarrow> clock \<Rightarrow> bool" where
  "in_window w clk \<longleftrightarrow> (\<forall>i \<in> {0, 1, 2}. w \<le> tv_sec (clk i) \<and> tv_sec (clk i) < w + 300)"

fun key_accepted :: "sec_req \<times> UdsCoreError \<times> u8 \<Rightarrow> bool" where
  "key_accepted (SendKey clk sub key, rc, nrc) = (rc = UDS_CORE_OK)"
| "key_accepted (RequestSeed clk rnd sub, rc, nrc) = False"

fun invalid_key_answer :: "sec_req \<times> UdsCoreError \<times> u8 \<Rightarrow> bool" where
  "invalid_key_answer (req, rc, nrc) =
     (rc = UDS_CORE_ERR_NRC \<and> nrc = nrc_code UDS_NRC_INVALID_KEY)"

text \<open>
  One request in the window that does not grant access: a lock stays, an \<open>invalidKey\<close> answer uses
  up one attempt, and any other answer either leaves the counter alone or sets the lock.
\<close>

definition attempt_used :: "UdsCoreSecurity \<Rightarrow> bool \<Rightarrow> UdsCoreSecurity \<Rightarrow> bool" where
  "attempt_used sec invalid sec' \<longleftrightarrow>
     (if locked sec then locked sec' \<and> \<not> invalid
      else if invalid then \<not> locked sec' \<and> unat (fail_count sec') = unat (fail_count sec) + 1
      else locked sec' \<or> fail_count sec' = fail_count sec)"

lemma request_seed_window:
  assumes "lock_in_window w sec" "in_window w clk"
    and "sec_serve (RequestSeed clk rnd sub) sec = Some (rc, Some sec', mk_out b l nrc)"
  shows "lock_in_window w sec' \<and> attempt_used sec (nrc = nrc_code UDS_NRC_INVALID_KEY) sec'"
proof (cases "sub AND 1 = 0")
  case True
  with assms show ?thesis
    by (auto simp: sec_serve_def uds_core_sec_request_seed_def mem_simps attempt_used_def)
next
  case False
  have "check_locked (clk 0) sec = (locked sec, sec)"
    using assms by (intro check_locked_window [where w = w]) (auto simp: in_window_def)
  with assms False show ?thesis
    by (auto simp: sec_serve_def request_seed_eq mem_simps attempt_used_def lock_in_window_def Let_def
        UDS_CORE_SEED_LEN_def split: if_splits)
qed

lemma send_key_window:
  assumes "sec_inv sec" "lock_in_window w sec" "in_window w clk"
    and step: "sec_serve (SendKey clk sub key) sec = Some (rc, Some sec', mk_out b l nrc)"
    and "rc \<noteq> UDS_CORE_OK"
  shows "lock_in_window w sec' \<and> attempt_used sec (nrc = nrc_code UDS_NRC_INVALID_KEY) sec'"
proof (cases "key = [] \<or> sub = 0 \<or> sub AND 1 \<noteq> 0")
  case True
  with assms show ?thesis
    by (auto simp: sec_serve_def uds_core_sec_send_key_def mem_simps attempt_used_def split: if_splits)
next
  case False
  then have args: "0 < length key" "sub \<noteq> 0" "sub AND 1 = 0" by auto
  have len: "length (seed sec) = UDS_CORE_SEED_LEN" using assms by (simp add: sec_inv_def)
  have t: "check_locked (clk 0) sec = (locked sec, sec)" "w \<le> tv_sec (clk 2)"
    using assms by (auto simp: in_window_def intro: check_locked_window)
  note eq = send_key_eq [OF len order_refl args(1), of 6 "replicate 6 0" sub clk 0 0,
      simplified, OF args(2,3)]
  show ?thesis
  proof (cases "locked sec")
    case True
    with step assms(2) show ?thesis
      by (auto simp: sec_serve_def eq t mem_simps attempt_used_def)
  next
    case unlocked: False
    with step assms(5) t(2) fail_count_step [OF assms(1) unlocked] show ?thesis
      by (auto simp: sec_serve_def eq t mem_simps attempt_used_def lock_in_window_def Let_def split: if_splits)
  qed
qed

lemma sec_step_window:
  assumes "sec_step sec req rc nrc sec'" "sec_inv sec" "lock_in_window w sec"
    "in_window w (sec_req_clock req)" "\<not> key_accepted (req, rc, nrc)"
  shows "lock_in_window w sec' \<and>
    (if locked sec then locked sec' \<and> \<not> invalid_key_answer (req, rc, nrc)
     else of_bool (invalid_key_answer (req, rc, nrc)) + unat (fail_count sec) \<le>
       (if locked sec' then 2 else unat (fail_count sec')))"
proof -
  from assms(1) obtain b l where step: "sec_serve req sec = Some (rc, Some sec', mk_out b l nrc)"
    by (auto elim: sec_stepE)
  have inv': "sec_inv sec'" using assms sec_step_inv by blast
  have u: "unat (fail_count x) \<le> 2" if "sec_inv x" "\<not> locked x" for x
    using fail_count_step [OF that] by (simp add: word_le_nat_alt UDS_CORE_MAX_ATTEMPTS_def)
  have "lock_in_window w sec' \<and> attempt_used sec (nrc = nrc_code UDS_NRC_INVALID_KEY) sec'"
  proof (cases req)
    case (RequestSeed clk rnd sub)
    with assms step show ?thesis using request_seed_window [of w sec clk] by simp
  next
    case (SendKey clk sub key)
    with assms step show ?thesis using send_key_window [of sec w clk] by simp
  qed
  then show ?thesis
    using u [OF assms(2)] u [OF inv'] by (auto simp: attempt_used_def split: if_splits)
qed

text \<open>
  C14. Brute force is bounded. Start from any state that satisfies the invariant and take any
  sequence of requestSeed and sendKey requests whose clock readings lie within one window of
  300 seconds and of which no sendKey is accepted: at most two of them are answered
  \<open>invalidKey\<close>; from a locked state none is, and the lock stays. The sequence holds SecurityAccess
  requests only; what an ECUReset between them does to the lock is \<open>reset_lifts_lockout\<close>.
\<close>

theorem brute_force_bound:
  assumes "sec_run sec tr sec'" "sec_inv sec" "lock_in_window w sec"
    and "\<forall>(req, rc, nrc) \<in> set tr. in_window w (sec_req_clock req)"
    and "\<forall>e \<in> set tr. \<not> key_accepted e"
  shows "length (filter invalid_key_answer tr) \<le> 2 \<and>
    (locked sec \<longrightarrow> filter invalid_key_answer tr = [] \<and> locked sec')"
proof -
  have "if locked sec then filter invalid_key_answer tr = [] \<and> locked sec'
    else length (filter invalid_key_answer tr) + unat (fail_count sec) \<le>
      (if locked sec' then 2 else unat (fail_count sec'))"
    using assms
  proof (induction rule: sec_run.induct)
    case (sec_run_Nil sec)
    then show ?case by simp
  next
    case (sec_run_Cons sec req rc nrc sec1 tr sec2)
    then have step: "lock_in_window w sec1 \<and>
      (if locked sec then locked sec1 \<and> \<not> invalid_key_answer (req, rc, nrc)
       else of_bool (invalid_key_answer (req, rc, nrc)) + unat (fail_count sec) \<le>
         (if locked sec1 then 2 else unat (fail_count sec1)))"
      by (intro sec_step_window) auto
    with sec_run_Cons have "if locked sec1 then filter invalid_key_answer tr = [] \<and> locked sec2
      else length (filter invalid_key_answer tr) + unat (fail_count sec1) \<le>
        (if locked sec2 then 2 else unat (fail_count sec2))"
      using sec_step_inv [of sec req rc nrc sec1] by simp
    with step show ?case by (auto simp del: invalid_key_answer.simps split: if_splits)
  qed
  moreover have "\<not> locked sec' \<Longrightarrow> unat (fail_count sec') \<le> 2"
    using sec_run_inv [OF assms(1,2)] fail_count_step(2,3) [of sec']
    by (simp add: word_le_nat_alt UDS_CORE_MAX_ATTEMPTS_def)
  ultimately show ?thesis by (auto split: if_splits)
qed

theorem brute_force_bound_witness:
  "let clk = (\<lambda>_. \<lparr>tv_sec = 5, tv_nsec = 0\<rparr>);
     tr = [(RequestSeed clk (\<lambda>_. 7) 1, UDS_CORE_OK, 0),
           (SendKey clk 2 [1, 2, 3, 4], UDS_CORE_ERR_NRC, 0x35)]
   in (\<exists>sec'. sec_run zero_security tr sec') \<and> length (filter invalid_key_answer tr) \<le> 2"
proof -
  let ?clk = "\<lambda>_::nat. \<lparr>tv_sec = 5, tv_nsec = 0\<rparr>"
  let ?tr = "[(RequestSeed ?clk (\<lambda>_. 7) 1, UDS_CORE_OK, 0),
              (SendKey ?clk 2 [1, 2, 3, 4], UDS_CORE_ERR_NRC, 0x35)]"
  let ?s1 = "zero_security\<lparr>seed := [7, 7, 7, 7], seed_valid := True, pending_level := 1,
               seed_ts := \<lparr>tv_sec = 5, tv_nsec = 0\<rparr>\<rparr>"
  let ?s2 = "?s1\<lparr>fail_count := 1, seed_valid := False\<rparr>"
  have 1: "sec_serve (RequestSeed ?clk (\<lambda>_. 7) 1) zero_security =
      Some (UDS_CORE_OK, Some ?s1, mk_out [0x67, 1, 7, 7, 7, 7] 6 0)"
    by code_simp
  have 2: "sec_serve (SendKey ?clk 2 [1, 2, 3, 4]) ?s1 =
      Some (UDS_CORE_ERR_NRC, Some ?s2, mk_out (replicate 6 0) 0 0x35)"
    by code_simp
  have run: "sec_run zero_security ?tr ?s2"
    by (rule sec_run_Cons [OF sec_stepI [OF 1]], rule sec_run_Cons [OF sec_stepI [OF 2]], rule sec_run_Nil)
  moreover have "length (filter invalid_key_answer ?tr) \<le> 2"
    using brute_force_bound [OF run zero_security_inv, of 0]
    by (simp add: lock_in_window_def zero_security_def in_window_def)
  ultimately show ?thesis unfolding Let_def by blast
qed

end
