(* ===== verification/DataServices.thy ===== *)
theory DataServices
  imports Service
begin

text \<open>
  Data services, \<open>src/core/data.c\<close>: the registry of data identifiers (DIDs),
  ReadDataByIdentifier (0x22), WriteDataByIdentifier (0x2E), ECUReset (0x11) and
  CommunicationControl (0x28). An entry owns the buffer its \<open>data\<close> pointer refers to.
\<close>

section \<open>State\<close>

record UdsDidEntry =
  did_id :: u16
  did_data :: "u8 list ptr"
  data_len :: nat
  writable :: bool
  min_session :: u8
  min_write_session :: u8
  requires_security :: bool

record UdsDidRegistry =
  did_entries :: "UdsDidEntry list ptr"
  did_count :: nat

definition uds_did_registry_init ::
  "UdsDidRegistry ptr \<Rightarrow> UdsDidEntry list ptr \<Rightarrow> nat \<Rightarrow> UdsDidRegistry ptr" where
  "uds_did_registry_init reg entries count =
     (case reg of None \<Rightarrow> None
      | Some _ \<Rightarrow> Some \<lparr>did_entries = entries, did_count = count\<rparr>)"

text \<open>A pointer to an entry is its index in the array.\<close>

definition did_find :: "UdsDidEntry list ptr \<Rightarrow> nat \<Rightarrow> u16 \<Rightarrow> nat option option" where
  "did_find entries count did = scan (\<lambda>e. did_id e = did) entries 0 count"

definition did_find_mut :: "UdsDidEntry list ptr \<Rightarrow> nat \<Rightarrow> u16 \<Rightarrow> nat option option" where
  "did_find_mut entries count did = scan (\<lambda>e. did_id e = did) entries 0 count"

interpretation dids: keyed_table did_id did_find
  by (rule scan_keyed_table) (simp add: did_find_def)

interpretation dids_mut: keyed_table did_id did_find_mut
  by (rule scan_keyed_table) (simp add: did_find_mut_def)

section \<open>ReadDataByIdentifier\<close>

text \<open>The two bytes of the identifier at \<open>pos\<close>, then the data when the entry has any.\<close>

definition put_did_record :: "nat \<Rightarrow> u16 \<Rightarrow> UdsDidEntry \<Rightarrow> outp \<Rightarrow> outp option" where
  "put_did_record pos did entry out = do {
     out \<leftarrow> put_resp pos [byte_of 1 did, byte_of 0 did] out;
     if did_data entry \<noteq> None \<and> data_len entry > 0 then do {
       bs \<leftarrow> mem_read (did_data entry) 0 (data_len entry);
       put_resp (pos + 2) bs out }
     else Some out }"

text \<open>
  The loop over \<open>did_list\<close>; the result code, the position reached and the out-pointers.
\<close>

function read_did_loop ::
  "UdsDidRegistry \<Rightarrow> u16 list ptr \<Rightarrow> nat \<Rightarrow> nat \<Rightarrow> nat \<Rightarrow> nat \<Rightarrow> outp \<Rightarrow> (UdsCoreError \<times> nat \<times> outp) option" where
  "read_did_loop reg did_list n_dids resp_size i pos out =
     (if i < n_dids then do {
        did \<leftarrow> mem_get did_list i;
        found \<leftarrow> did_find (did_entries reg) (did_count reg) did;
        (case found of
           None \<Rightarrow> do {
             out \<leftarrow> set_nrc UDS_NRC_REQUEST_OUT_OF_RANGE out;
             Some (UDS_CORE_ERR_NRC, pos, out) }
         | Some ix \<Rightarrow> do {
             entry \<leftarrow> mem_get (did_entries reg) ix;
             let needed = 2 + data_len entry;
             if pos + needed > resp_size then Some (UDS_CORE_ERR_BUF, pos, out)
             else do {
               out \<leftarrow> put_did_record pos did entry out;
               read_did_loop reg did_list n_dids resp_size (Suc i) (pos + 2 + data_len entry) out } }) }
      else Some (UDS_CORE_OK, pos, out))"
  by pat_completeness auto
termination
  by (relation "measure (\<lambda>(reg, did_list, n_dids, resp_size, i, pos, out). n_dids - i)") auto

declare read_did_loop.simps [simp del]

definition uds_svc_read_did ::
  "u16 list ptr \<Rightarrow> nat \<Rightarrow> UdsDidRegistry ptr \<Rightarrow> nat \<Rightarrow> outp \<Rightarrow> UdsDidRegistry ptr result" where
  "uds_svc_read_did did_list n_dids preg resp_size out =
     (case preg of None \<Rightarrow> Some (UDS_CORE_ERR_PARAM, preg, out)
      | Some reg \<Rightarrow>
          if did_list = None \<or> null_out out \<or> n_dids = 0 then Some (UDS_CORE_ERR_PARAM, preg, out)
          else if resp_size < 1 then Some (UDS_CORE_ERR_BUF, preg, out)
          else do {
            out \<leftarrow> put_resp 0 [0x62] out;
            (rc, pos, out) \<leftarrow> read_did_loop reg did_list n_dids resp_size 0 1 out;
            if rc = UDS_CORE_OK then do {
              out \<leftarrow> set_resp_len pos out;
              Some (UDS_CORE_OK, preg, out) }
            else Some (rc, preg, out) })"

section \<open>WriteDataByIdentifier\<close>

definition uds_svc_write_did ::
  "u16 \<Rightarrow> u8 list ptr \<Rightarrow> nat \<Rightarrow> u8 \<Rightarrow> bool \<Rightarrow> UdsDidRegistry ptr \<Rightarrow> nat \<Rightarrow> outp \<Rightarrow> UdsDidRegistry ptr result" where
  "uds_svc_write_did did data n_data session_type security_unlocked preg resp_size out =
     (case preg of None \<Rightarrow> Some (UDS_CORE_ERR_PARAM, preg, out)
      | Some reg \<Rightarrow>
          if data = None \<or> null_out out then Some (UDS_CORE_ERR_PARAM, preg, out)
          else do {
            found \<leftarrow> did_find_mut (did_entries reg) (did_count reg) did;
            (case found of
               None \<Rightarrow> ret_nrc UDS_NRC_REQUEST_OUT_OF_RANGE preg out
             | Some ix \<Rightarrow> do {
                 entry \<leftarrow> mem_get (did_entries reg) ix;
                 if \<not> writable entry then ret_nrc UDS_NRC_REQUEST_OUT_OF_RANGE preg out
                 else if session_type < min_write_session entry
                 then ret_nrc UDS_NRC_REQUEST_OUT_OF_RANGE preg out
                 else if requires_security entry \<and> \<not> security_unlocked
                 then ret_nrc UDS_NRC_SECURITY_ACCESS_DENIED preg out
                 else if n_data \<noteq> data_len entry
                 then ret_nrc UDS_NRC_INCORRECT_MSG_LEN_OR_FORMAT preg out
                 else if resp_size < 3 then Some (UDS_CORE_ERR_BUF, preg, out)
                 else do {
                   entry' \<leftarrow> (if did_data entry \<noteq> None \<and> n_data > 0 then do {
                               d \<leftarrow> mem_cpy (did_data entry) 0 data 0 n_data;
                               Some (entry\<lparr>did_data := Some d\<rparr>) }
                             else Some entry);
                   es \<leftarrow> mem_set (did_entries reg) ix entry';
                   ret_ok [0x6E, byte_of 1 did, byte_of 0 did]
                     (Some (reg\<lparr>did_entries := Some es\<rparr>)) out } }) })"

section \<open>ECUReset and CommunicationControl\<close>

text \<open>These two have no state of their own.\<close>

definition uds_svc_ecu_reset :: "u8 \<Rightarrow> unit \<Rightarrow> nat \<Rightarrow> outp \<Rightarrow> unit result" where
  "uds_svc_ecu_reset reset_type st resp_size out =
     (if null_out out then Some (UDS_CORE_ERR_PARAM, st, out)
      else if reset_type < 0x01 \<or> reset_type > 0x03
      then ret_nrc UDS_NRC_SUB_FUNCTION_NOT_SUPPORTED st out
      else if resp_size < 2 then Some (UDS_CORE_ERR_BUF, st, out)
      else ret_ok [0x51, reset_type] st out)"

definition uds_svc_comm_control :: "u8 \<Rightarrow> u8 \<Rightarrow> unit \<Rightarrow> nat \<Rightarrow> outp \<Rightarrow> unit result" where
  "uds_svc_comm_control control_type comm_type st resp_size out =
     (if null_out out then Some (UDS_CORE_ERR_PARAM, st, out)
      else if control_type > 0x03 then ret_nrc UDS_NRC_SUB_FUNCTION_NOT_SUPPORTED st out
      else if comm_type = 0 then ret_nrc UDS_NRC_REQUEST_OUT_OF_RANGE st out
      else if resp_size < 2 then Some (UDS_CORE_ERR_BUF, st, out)
      else ret_ok [0x68, control_type] st out)"

interpretation ecu_reset: uds_service "uds_svc_ecu_reset ty" "\<lambda>_. True"
  by unfold_locales (auto simp: uds_svc_ecu_reset_def mem_simps)

interpretation comm_control: uds_service "uds_svc_comm_control ct cm" "\<lambda>_. True"
  by unfold_locales (auto simp: uds_svc_comm_control_def mem_simps)

interpretation ecu_reset_pos: positive_service "uds_svc_ecu_reset ty" "\<lambda>_. True" "0x11"
  by unfold_locales (simp only: uds_svc_ecu_reset_def Let_def, (rule opens_rules | (simp add: opens_final; fail))+)

interpretation comm_control_pos: positive_service "uds_svc_comm_control ct cm" "\<lambda>_. True" "0x28"
  by unfold_locales (simp only: uds_svc_comm_control_def Let_def, (rule opens_rules | (simp add: opens_final; fail))+)

interpretation ecu_reset_speaks: answering_service "uds_svc_ecu_reset ty" "\<lambda>_. True" "\<lambda>_ n. n < 2"
  by unfold_locales (simp only: uds_svc_ecu_reset_def null_out_mk if_False, (rule speaks_intros | (simp; fail))+)

interpretation comm_control_speaks: answering_service "uds_svc_comm_control ct cm" "\<lambda>_. True" "\<lambda>_ n. n < 2"
  by unfold_locales (simp only: uds_svc_comm_control_def null_out_mk if_False, (rule speaks_intros | (simp; fail))+)

interpretation ecu_reset_blind: blind_service "uds_svc_ecu_reset ty" "\<lambda>_. True"
  by unfold_locales (simp only: uds_svc_ecu_reset_def Let_def null_out_mk if_False, (rule unseen_rules | assumption | simp)+)

interpretation comm_control_blind: blind_service "uds_svc_comm_control ct cm" "\<lambda>_. True"
  by unfold_locales (simp only: uds_svc_comm_control_def Let_def null_out_mk if_False, (rule unseen_rules | assumption | simp)+)

section \<open>Well-formed registries\<close>

text \<open>
  The array has the announced number of entries and every buffer holds at least \<open>data_len\<close> bytes.
\<close>

definition did_entry_wf :: "UdsDidEntry \<Rightarrow> bool" where
  "did_entry_wf e \<longleftrightarrow> (\<forall>buf. did_data e = Some buf \<longrightarrow> data_len e \<le> length buf)"

definition did_reg_inv :: "UdsDidRegistry \<Rightarrow> bool" where
  "did_reg_inv reg \<longleftrightarrow>
     (\<exists>es. did_entries reg = Some es \<and> did_count reg \<le> length es \<and> (\<forall>e \<in> set es. did_entry_wf e))"

text \<open>What a DID currently holds, and its record in a 0x22 response.\<close>

definition did_lookup :: "UdsDidRegistry \<Rightarrow> u16 \<Rightarrow> UdsDidEntry option" where
  "did_lookup reg did =
     (case did_entries reg of None \<Rightarrow> None
      | Some es \<Rightarrow> find (\<lambda>e. did_id e = did) (take (did_count reg) es))"

definition did_value :: "UdsDidEntry \<Rightarrow> u8 list" where
  "did_value e = (case did_data e of None \<Rightarrow> [] | Some buf \<Rightarrow> take (data_len e) buf)"

definition did_record :: "u16 \<Rightarrow> UdsDidEntry \<Rightarrow> u8 list" where
  "did_record did e = [byte_of 1 did, byte_of 0 did] @ did_value e"

lemma did_reg_invE:
  assumes "did_reg_inv reg"
  obtains es where "did_entries reg = Some es" "did_count reg \<le> length es"
    "\<And>e. e \<in> set es \<Longrightarrow> did_entry_wf e"
  using assms by (auto simp: did_reg_inv_def)

lemma did_find_cases:
  assumes "did_reg_inv reg"
  obtains (missing) "did_find (did_entries reg) (did_count reg) did = Some None" "did_lookup reg did = None"
  | (found) es ix where "did_entries reg = Some es"
      "did_find (did_entries reg) (did_count reg) did = Some (Some ix)"
      "ix < length es" "did_lookup reg did = Some (es ! ix)" "did_id (es ! ix) = did" "did_entry_wf (es ! ix)"
proof -
  from assms obtain es where es: "did_entries reg = Some es" "did_count reg \<le> length es"
    "\<And>e. e \<in> set es \<Longrightarrow> did_entry_wf e" by (rule did_reg_invE) blast
  have lk: "did_lookup reg did = dids.lookup es (did_count reg) did"
    by (simp add: did_lookup_def dids.lookup_def es)
  from es(2) show thesis
  proof (cases rule: dids.find_lookup [where k = did])
    case missing
    then show thesis using that(1) es lk by simp
  next
    case (found i)
    then show thesis using that(2) [of es i] es lk by simp
  qed
qed

text \<open>The loop as a function of the identifiers still to do and the bytes written so far.\<close>

fun read_spec :: "(u16 \<Rightarrow> UdsDidEntry option) \<Rightarrow> nat \<Rightarrow> u16 list \<Rightarrow> u8 list \<Rightarrow> UdsCoreError \<times> u8 list" where
  "read_spec lk n [] acc = (UDS_CORE_OK, acc)"
| "read_spec lk n (d # ds) acc =
     (case lk d of
        None \<Rightarrow> (UDS_CORE_ERR_NRC, acc)
      | Some e \<Rightarrow>
          if length acc + (2 + data_len e) > n then (UDS_CORE_ERR_BUF, acc)
          else read_spec lk n ds (acc @ did_record d e))"

definition did_backed :: "UdsDidEntry \<Rightarrow> bool" where
  "did_backed e \<longleftrightarrow> did_data e \<noteq> None"

lemma length_did_record:
  "did_entry_wf e \<Longrightarrow> did_backed e \<Longrightarrow> length (did_record d e) = 2 + data_len e"
  by (auto simp: did_record_def did_value_def did_entry_wf_def did_backed_def)

text \<open>
  One round of the loop, whatever the data pointer: it writes \<open>2 + data_len\<close> bytes at most, from
  \<open>pos\<close> on, and exactly the record of the entry when the entry has a buffer.
\<close>

lemma write_record:
  assumes "did_entry_wf e" "pos + (2 + data_len e) \<le> length b"
  shows "\<exists>b'. put_did_record pos did e (mk_out b l c) = Some (mk_out b' l c) \<and>
    length b' = length b \<and> take pos b' = take pos b \<and>
    (did_backed e \<longrightarrow> take (pos + (2 + data_len e)) b' = take pos b @ did_record did e)"
proof -
  let ?h = "[byte_of 1 did, byte_of 0 did]"
  show ?thesis
  proof (cases "did_data e")
    case None
    with assms show ?thesis by (auto simp: put_did_record_def mem_simps did_backed_def)
  next
    case (Some buf)
    with assms(1) have buf: "data_len e \<le> length buf" by (simp add: did_entry_wf_def)
    have v: "did_value e = take (data_len e) buf" using Some by (simp add: did_value_def)
    have "splice (pos + 2) (take (data_len e) buf) (splice pos ?h b) = splice pos (did_record did e) b"
      using assms(2) buf splice_splice_adjacent [of pos ?h "take (data_len e) buf" b]
      by (simp add: did_record_def v)
    moreover have "take (pos + (2 + data_len e)) (splice pos (did_record did e) b) = take pos b @ did_record did e"
      using take_splice_end [of pos b "did_record did e"] assms buf
      by (simp add: did_record_def v)
    ultimately show ?thesis
      using assms Some buf by (auto simp: put_did_record_def mem_simps did_record_def v)
  qed
qed

lemma read_did_loop_spec:
  assumes "did_reg_inv reg" "n_dids \<le> length dl" "n \<le> length b" "pos \<le> n"
  shows "\<exists>rc pos' b' c'. read_did_loop reg (Some dl) n_dids n i pos (mk_out b l c) = Some (rc, pos', mk_out b' l c') \<and>
    length b' = length b \<and> pos' \<le> n \<and>
    c' = (if rc = UDS_CORE_ERR_NRC then nrc_code UDS_NRC_REQUEST_OUT_OF_RANGE else c) \<and>
    ((\<forall>did e. did_lookup reg did = Some e \<longrightarrow> did_backed e) \<longrightarrow>
       read_spec (did_lookup reg) n (drop i (take n_dids dl)) (take pos b) = (rc, take pos' b'))"
  using assms(3,4)
proof (induction "n_dids - i" arbitrary: i pos b c)
  case 0
  then show ?case by (auto simp: read_did_loop.simps)
next
  case (Suc k)
  from Suc.hyps(2) have i: "i < n_dids" by simp
  with assms(2) have ds: "drop i (take n_dids dl) = dl ! i # drop (Suc i) (take n_dids dl)"
    by (simp add: Cons_nth_drop_Suc [symmetric])
  have d: "mem_get (Some dl) i = Some (dl ! i)" using i assms(2) by (simp add: mem_simps)
  from assms(1) show ?case
  proof (cases rule: did_find_cases [where did = "dl ! i"])
    case missing
    with i d ds Suc.prems show ?thesis by (subst read_did_loop.simps) (auto simp: mem_simps)
  next
    case (found es ix)
    let ?e = "es ! ix"
    show ?thesis
    proof (cases "pos + (2 + data_len ?e) > n")
      case True
      with found i d ds Suc.prems show ?thesis
        by (subst read_did_loop.simps) (auto simp: mem_simps min_def)
    next
      case False
      with Suc.prems have fit: "pos + (2 + data_len ?e) \<le> length b" by simp
      from write_record [OF found(6) fit, of "dl ! i" l c] obtain b1 where
        w: "put_did_record pos (dl ! i) ?e (mk_out b l c) = Some (mk_out b1 l c)"
        and b1: "length b1 = length b"
          "did_backed ?e \<longrightarrow> take (pos + (2 + data_len ?e)) b1 = take pos b @ did_record (dl ! i) ?e"
        by blast
      have step: "read_did_loop reg (Some dl) n_dids n i pos (mk_out b l c) =
          read_did_loop reg (Some dl) n_dids n (Suc i) (pos + 2 + data_len ?e) (mk_out b1 l c)"
        using i d found False w by (subst read_did_loop.simps) (simp add: mem_simps)
      have "k = n_dids - Suc i" "n \<le> length b1" "pos + 2 + data_len ?e \<le> n"
        using Suc.hyps(2) Suc.prems False b1(1) by simp_all
      from Suc.hyps(1) [OF this, of c] obtain rc pos' b' c' where
        rest: "read_did_loop reg (Some dl) n_dids n (Suc i) (pos + 2 + data_len ?e) (mk_out b1 l c) =
          Some (rc, pos', mk_out b' l c')"
        "length b' = length b" "pos' \<le> n"
        "c' = (if rc = UDS_CORE_ERR_NRC then nrc_code UDS_NRC_REQUEST_OUT_OF_RANGE else c)"
        "(\<forall>did e. did_lookup reg did = Some e \<longrightarrow> did_backed e) \<longrightarrow>
         read_spec (did_lookup reg) n (drop (Suc i) (take n_dids dl)) (take (pos + 2 + data_len ?e) b1) = (rc, take pos' b')"
        unfolding b1(1) by (elim exE conjE) (rule that)
      have "read_spec (did_lookup reg) n (drop i (take n_dids dl)) (take pos b) = (rc, take pos' b')"
        if "\<forall>did e. did_lookup reg did = Some e \<longrightarrow> did_backed e"
        using that rest(5) ds found(4) False b1(2) Suc.prems by (simp add: min_def add.assoc)
      with step rest(1-4) show ?thesis by (intro exI [of _ rc] exI [of _ pos'] exI [of _ b'] exI [of _ c']) simp
    qed
  qed
qed

lemma read_did_safe_keeps:
  assumes "did_reg_inv reg" "n_dids \<le> length dl" "n \<le> length b"
  shows "\<exists>rc reg' out'. uds_svc_read_did (Some dl) n_dids (Some reg) n (mk_out b l c) =
      Some (rc, Some reg', out') \<and> out_contract n (mk_out b l c) rc out' \<and> did_reg_inv reg'"
proof (cases "n_dids = 0 \<or> n < 1")
  case True
  with assms show ?thesis by (auto simp: uds_svc_read_did_def)
next
  case False
  with assms have "n \<le> length (splice 0 [0x62] b)" "1 \<le> n" by simp_all
  from read_did_loop_spec [OF assms(1,2) this, of 0 l c] obtain rc pos' b' c' where
    "read_did_loop reg (Some dl) n_dids n 0 1 (mk_out (splice 0 [0x62] b) l c) = Some (rc, pos', mk_out b' l c')"
    "length b' = length (splice 0 [0x62] b)" "pos' \<le> n"
    "c' = (if rc = UDS_CORE_ERR_NRC then nrc_code UDS_NRC_REQUEST_OUT_OF_RANGE else c)" by blast
  with False assms show ?thesis by (auto simp: uds_svc_read_did_def mem_simps)
qed

interpretation read_did: uds_service "uds_svc_read_did (Some dl) (length dl)" "ptr_inv did_reg_inv"
  by (rule uds_service_ptrI, simp add: uds_svc_read_did_def, simp add: uds_svc_read_did_def,
      rule read_did_safe_keeps, simp_all)

lemma put_did_record_first:
  assumes "put_did_record pos did e out = Some out'" "0 < pos"
  shows "first_byte out' = first_byte out"
proof -
  from assms(1) obtain out1 where p: "put_resp pos [byte_of 1 did, byte_of 0 did] out = Some out1"
    and q: "out' = out1 \<or> (\<exists>bs. put_resp (pos + 2) bs out1 = Some out')"
    by (auto simp: put_did_record_def Option.bind_eq_Some_conv split: if_splits)
  from q have "first_byte out' = first_byte out1" by (auto dest: first_byte_put_later)
  with first_byte_put_later [OF p assms(2)] show ?thesis by simp
qed

lemma read_did_loop_first:
  "read_did_loop reg dl n_dids n i pos out = Some (rc, pos', out') \<Longrightarrow> 0 < pos \<Longrightarrow> first_byte out' = first_byte out"
proof (induction reg dl n_dids n i pos out rule: read_did_loop.induct)
  case (1 reg dl n_dids n i pos out)
  show ?case
  proof (cases "i < n_dids")
    case True
    from 1(2) True obtain did found where d: "mem_get dl i = Some did"
      "did_find (did_entries reg) (did_count reg) did = Some found"
      by (subst (asm) read_did_loop.simps) (auto simp: Option.bind_eq_Some_conv)
    show ?thesis
    proof (cases found)
      case None
      with 1(2) True d show ?thesis
        by (subst (asm) read_did_loop.simps) (auto simp: Option.bind_eq_Some_conv dest: first_byte_nrc)
    next
      case (Some ix)
      with 1(2) True d obtain e where e: "mem_get (did_entries reg) ix = Some e"
        by (subst (asm) read_did_loop.simps) (auto simp: Option.bind_eq_Some_conv)
      show ?thesis
      proof (cases "pos + (2 + data_len e) > n")
        case True
        with 1(2) \<open>i < n_dids\<close> d Some e show ?thesis by (subst (asm) read_did_loop.simps) simp
      next
        case False
        with 1(2) \<open>i < n_dids\<close> d Some e obtain out1 where r: "put_did_record pos did e out = Some out1"
          "read_did_loop reg dl n_dids n (Suc i) (pos + 2 + data_len e) out1 = Some (rc, pos', out')"
          by (subst (asm) read_did_loop.simps) (auto simp: Option.bind_eq_Some_conv)
        with "1.IH" [OF \<open>i < n_dids\<close> d Some e refl False r(1) r(2)] put_did_record_first [OF r(1) 1(3)]
        show ?thesis by simp
      qed
    qed
  qed (use 1(2) in \<open>simp add: read_did_loop.simps\<close>)
qed

interpretation read_did_pos: positive_service "uds_svc_read_did (Some dl) (length dl)" "ptr_inv did_reg_inv" "0x22"
proof unfold_locales
  fix s n out
  have "first_byte out' = Some 0x62" if "put_resp 0 [0x62] out = Some out1"
    "read_did_loop reg (Some dl) (length dl) n 0 1 out1 = Some (UDS_CORE_OK, pos, out2)" "set_resp_len pos out2 = Some out'"
    for reg out1 out2 pos out'
    using first_byte_put [OF that(1)] read_did_loop_first [OF that(2)] first_byte_len [OF that(3)] by simp
  then show "opens (0x22 + 0x40) (uds_svc_read_did (Some dl) (length dl) s n out)"
    by (auto simp: opens_def uds_svc_read_did_def Option.bind_eq_Some_conv split: option.splits if_splits)
qed

text \<open>
  A read is answered whenever the announced sizes of the requested entries fit; an unknown identifier
  counts nothing, since it ends the request with a response code.
\<close>

definition did_size :: "UdsDidRegistry \<Rightarrow> u16 \<Rightarrow> nat" where
  "did_size reg did = (case did_lookup reg did of None \<Rightarrow> 0 | Some e \<Rightarrow> 2 + data_len e)"

lemma read_did_loop_speaks:
  assumes "did_reg_inv reg"
  shows "read_did_loop reg (Some dl) (length dl) n i pos out = Some (rc, pos', out') \<Longrightarrow>
    pos + sum_list (map (did_size reg) (drop i dl)) \<le> n \<Longrightarrow>
    rc = UDS_CORE_OK \<and> pos \<le> pos' \<or> rc = UDS_CORE_ERR_NRC \<and> o_nrc out' \<noteq> Some 0"
proof (induction "length dl - i" arbitrary: i pos out)
  case 0
  then show ?case by (subst (asm) read_did_loop.simps) auto
next
  case (Suc k)
  then have i: "i < length dl" by simp
  then have ds: "drop i dl = dl ! i # drop (Suc i) dl" by (simp add: Cons_nth_drop_Suc)
  have d: "mem_get (Some dl) i = Some (dl ! i)" using i by (simp add: mem_simps)
  from assms show ?case
  proof (cases rule: did_find_cases [where did = "dl ! i"])
    case missing
    with i d Suc.prems(1) show ?thesis
      by (subst (asm) read_did_loop.simps) (auto simp: set_nrc_def Option.bind_eq_Some_conv)
  next
    case (found es ix)
    let ?e = "es ! ix"
    from found Suc.prems(2) ds have fit: "pos + (2 + data_len ?e) + sum_list (map (did_size reg) (drop (Suc i) dl)) \<le> n"
      by (simp add: did_size_def)
    with found i d Suc.prems(1) obtain out1 where
      "read_did_loop reg (Some dl) (length dl) n (Suc i) (pos + (2 + data_len ?e)) out1 = Some (rc, pos', out')"
      by (subst (asm) read_did_loop.simps) (auto simp: mem_simps Option.bind_eq_Some_conv add.assoc)
    moreover have "k = length dl - Suc i" using Suc.hyps(2) by simp
    ultimately show ?thesis using Suc.hyps(1) fit by fastforce
  qed
qed

interpretation read_did_speaks: answering_service "uds_svc_read_did (Some (d # dl)) (length (d # dl))" "ptr_inv did_reg_inv"
  "\<lambda>p n. case p of None \<Rightarrow> True | Some reg \<Rightarrow> n < 1 + sum_list (map (did_size reg) (d # dl))"
proof
  fix p n and b :: "u8 list"
  assume inv: "ptr_inv did_reg_inv p" and n: "n \<le> length b"
    and q: "\<not> (case p of None \<Rightarrow> True | Some reg \<Rightarrow> n < 1 + sum_list (map (did_size reg) (d # dl)))"
  then obtain reg where p: "p = Some reg" "did_reg_inv reg" "1 + sum_list (map (did_size reg) (drop 0 (d # dl))) \<le> n"
    by (auto split: option.splits)
  show "speaks (uds_svc_read_did (Some (d # dl)) (length (d # dl)) p n (mk_out b 0 0))"
    using p(3) n read_did_loop_speaks [OF p(2) _ p(3)] unfolding p(1)
    by (fastforce simp: uds_svc_read_did_def speaks_def mem_simps Option.bind_eq_Some_conv set_resp_len_def split: if_splits)
qed

text \<open>The positive 0x22 response for a list of identifiers.\<close>

definition did_response :: "UdsDidRegistry \<Rightarrow> u16 list \<Rightarrow> u8 list" where
  "did_response reg dl =
     concat (map (\<lambda>d. case did_lookup reg d of None \<Rightarrow> [] | Some e \<Rightarrow> did_record d e) dl)"

lemma did_lookup_wf:
  assumes "did_reg_inv reg" "did_lookup reg d = Some e"
  shows "did_entry_wf e" "did_id e = d"
  using assms(1)
  by (cases rule: did_find_cases [where did = d]; use assms(2) in simp)+

lemma read_spec_closed:
  assumes "did_reg_inv reg" "\<forall>did e. did_lookup reg did = Some e \<longrightarrow> did_backed e" "length acc \<le> n"
  shows "fst (read_spec (did_lookup reg) n ds acc) = UDS_CORE_OK \<longleftrightarrow>
      (\<forall>d \<in> set ds. did_lookup reg d \<noteq> None) \<and> length acc + length (did_response reg ds) \<le> n"
    and "fst (read_spec (did_lookup reg) n ds acc) = UDS_CORE_OK \<Longrightarrow>
      snd (read_spec (did_lookup reg) n ds acc) = acc @ did_response reg ds"
    and "fst (read_spec (did_lookup reg) n ds acc) = UDS_CORE_ERR_NRC \<Longrightarrow>
      \<exists>d \<in> set ds. did_lookup reg d = None"
    and "fst (read_spec (did_lookup reg) n ds acc) \<noteq> UDS_CORE_ERR_PARAM"
  using assms(3)
proof (induction ds arbitrary: acc)
  case Nil
  { case 1 then show ?case by (simp add: did_response_def) }
  { case 2 then show ?case by (simp add: did_response_def) }
  { case 3 then show ?case by simp }
  { case 4 then show ?case by simp }
next
  case (Cons d ds)
  have len: "length (did_record d e) = 2 + data_len e" if "did_lookup reg d = Some e" for e
    using that assms did_lookup_wf(1) length_did_record by blast
  { case 1 with Cons.IH(1) len show ?case
      by (cases "did_lookup reg d") (auto simp: did_response_def not_less) }
  { case 2 with Cons.IH(2) len show ?case
      by (cases "did_lookup reg d") (auto simp: did_response_def split: if_splits) }
  { case 3 with Cons.IH(3) len show ?case
      by (cases "did_lookup reg d") (auto simp: did_response_def split: if_splits) }
  { case 4 with Cons.IH(4) len show ?case
      by (cases "did_lookup reg d") (auto simp: did_response_def) }
qed

lemma read_did_eq:
  assumes "did_reg_inv reg" "\<forall>did e. did_lookup reg did = Some e \<longrightarrow> did_backed e"
    and "dl \<noteq> []" "n \<le> length b" "1 \<le> n"
  obtains rc pos' b' c' where
    "uds_svc_read_did (Some dl) (length dl) (Some reg) n (mk_out b l c) =
       Some (rc, Some reg, mk_out b' (if rc = UDS_CORE_OK then pos' else l) c')"
    "read_spec (did_lookup reg) n dl [0x62] = (rc, take pos' b')" "pos' \<le> length b'"
    "c' = (if rc = UDS_CORE_ERR_NRC then nrc_code UDS_NRC_REQUEST_OUT_OF_RANGE else c)"
proof -
  let ?b = "splice 0 [0x62] b"
  from assms have b: "n \<le> length ?b" "take (Suc 0) ?b = [0x62]"
    using take_splice0 [of "[0x62]" b] by simp_all
  from read_did_loop_spec [OF assms(1) order_refl b(1) assms(5), of dl 0 l c] assms(2) obtain rc pos' b' c' where
    r: "read_did_loop reg (Some dl) (length dl) n 0 1 (mk_out ?b l c) = Some (rc, pos', mk_out b' l c')"
    "length b' = length ?b" "pos' \<le> n"
    "c' = (if rc = UDS_CORE_ERR_NRC then nrc_code UDS_NRC_REQUEST_OUT_OF_RANGE else c)"
    "read_spec (did_lookup reg) n dl [0x62] = (rc, take pos' b')"
    by (auto simp: b(2))
  from assms r(1) have "uds_svc_read_did (Some dl) (length dl) (Some reg) n (mk_out b l c) =
      Some (rc, Some reg, mk_out b' (if rc = UDS_CORE_OK then pos' else l) c')"
    by (auto simp: uds_svc_read_did_def mem_simps)
  moreover from r(2,3) b(1) have "pos' \<le> length b'" by simp
  ultimately show thesis using r(4,5) that by blast
qed

text \<open>Two runs on different buffers, for a registry with a buffer behind every entry.\<close>

definition all_backed :: "UdsDidRegistry \<Rightarrow> bool" where
  "all_backed reg \<longleftrightarrow> (\<forall>did e. did_lookup reg did = Some e \<longrightarrow> did_backed e)"

interpretation read_did_blind: blind_service
  "uds_svc_read_did (Some dl) (length dl)" "ptr_inv (\<lambda>reg. did_reg_inv reg \<and> all_backed reg)"
proof
  fix p n l c and b b' :: "u8 list"
  assume p: "ptr_inv (\<lambda>reg. did_reg_inv reg \<and> all_backed reg) p" and n: "n \<le> length b" and b': "length b' = length b"
  show "rel_option same_answer (uds_svc_read_did (Some dl) (length dl) p n (mk_out b l c))
      (uds_svc_read_did (Some dl) (length dl) p n (mk_out b' l c))"
  proof (cases "p = None \<or> dl = [] \<or> n < 1")
    case True
    with b' show ?thesis by (auto simp: uds_svc_read_did_def split: option.split)
  next
    case False
    then obtain reg where reg: "p = Some reg" "dl \<noteq> []" "1 \<le> n" by auto
    with p have inv: "did_reg_inv reg" "\<forall>did e. did_lookup reg did = Some e \<longrightarrow> did_backed e" by (simp_all add: all_backed_def)
    from n b' have n': "n \<le> length b'" by simp
    obtain rc q x k where 1: "uds_svc_read_did (Some dl) (length dl) (Some reg) n (mk_out b l c) =
         Some (rc, Some reg, mk_out x (if rc = UDS_CORE_OK then q else l) k)"
      "read_spec (did_lookup reg) n dl [0x62] = (rc, take q x)" "q \<le> length x"
      "k = (if rc = UDS_CORE_ERR_NRC then nrc_code UDS_NRC_REQUEST_OUT_OF_RANGE else c)"
      by (rule read_did_eq [OF inv reg(2) n reg(3)])
    obtain rc' q' x' k' where 2: "uds_svc_read_did (Some dl) (length dl) (Some reg) n (mk_out b' l c) =
         Some (rc', Some reg, mk_out x' (if rc' = UDS_CORE_OK then q' else l) k')"
      "read_spec (did_lookup reg) n dl [0x62] = (rc', take q' x')" "q' \<le> length x'"
      "k' = (if rc' = UDS_CORE_ERR_NRC then nrc_code UDS_NRC_REQUEST_OUT_OF_RANGE else c)"
      by (rule read_did_eq [OF inv reg(2) n' reg(3)])
    from 1(2) 2(2) have e: "rc' = rc" "take q x = take q' x'" by simp_all
    from arg_cong [OF e(2), of length] 1(3) 2(3) have q: "q' = q" by simp
    have "length x = length b" "length x' = length b"
      using read_did_safe_keeps [OF inv(1) order_refl n, of dl l c] read_did_safe_keeps [OF inv(1) order_refl n', of dl l c]
        1(1) 2(1) b' by auto
    with 1 2 e q reg(1) show ?thesis by simp
  qed
qed

text \<open>
  C23. ReadDataByIdentifier is complete and exact. For a well-formed registry whose entries all have
  a buffer, the handler succeeds exactly when every requested identifier is registered and the
  whole response fits; then the response is \<open>62\<close> followed, in request order, by the identifier
  and the current value of each entry. It refuses with NRC 0x31 only if some identifier is
  unknown, and never changes the registry.
\<close>

theorem read_did_exact:
  assumes "did_reg_inv reg" "\<forall>did e. did_lookup reg did = Some e \<longrightarrow> did_backed e"
    and "dl \<noteq> []" "n \<le> length b" "1 \<le> n"
  shows "\<exists>rc b' l' c'.
    uds_svc_read_did (Some dl) (length dl) (Some reg) n (mk_out b l c) = Some (rc, Some reg, mk_out b' l' c') \<and>
    (rc = UDS_CORE_OK \<longleftrightarrow>
       (\<forall>d \<in> set dl. did_lookup reg d \<noteq> None) \<and> 1 + length (did_response reg dl) \<le> n) \<and>
    (rc = UDS_CORE_OK \<longrightarrow> l' = 1 + length (did_response reg dl) \<and> take l' b' = 0x62 # did_response reg dl) \<and>
    (rc = UDS_CORE_ERR_NRC \<longrightarrow> c' = nrc_code UDS_NRC_REQUEST_OUT_OF_RANGE \<and>
       (\<exists>d \<in> set dl. did_lookup reg d = None)) \<and>
    rc \<noteq> UDS_CORE_ERR_PARAM"
  using assms
proof (rule read_did_eq [where l = l and c = c])
  fix rc pos' b' c'
  assume r: "uds_svc_read_did (Some dl) (length dl) (Some reg) n (mk_out b l c) =
      Some (rc, Some reg, mk_out b' (if rc = UDS_CORE_OK then pos' else l) c')"
    "read_spec (did_lookup reg) n dl [0x62] = (rc, take pos' b')" "pos' \<le> length b'"
    "c' = (if rc = UDS_CORE_ERR_NRC then nrc_code UDS_NRC_REQUEST_OUT_OF_RANGE else c)"
  note closed = read_spec_closed [OF assms(1,2), of "[0x62]" n dl, simplified r(2), simplified, OF assms(5) [unfolded One_nat_def]]
  moreover have "pos' = 1 + length (did_response reg dl)" if "rc = UDS_CORE_OK"
    using closed(2) that r(3) by (auto dest: arg_cong [of _ _ length])
  ultimately show ?thesis using r by auto
qed

text \<open>Two identifiers, one of them over a two-byte value, read together into a nine-byte buffer.\<close>

definition demo_reg :: UdsDidRegistry where
  "demo_reg = \<lparr>did_entries = Some
     [\<lparr>did_id = 0xF190, did_data = Some [0x41, 0x42], data_len = 2, writable = True,
       min_session = 1, min_write_session = 3, requires_security = True\<rparr>,
      \<lparr>did_id = 0xF18C, did_data = Some [0x53], data_len = 1, writable = False,
       min_session = 1, min_write_session = 1, requires_security = False\<rparr>], did_count = 2\<rparr>"

lemma demo_reg_wf: "did_reg_inv demo_reg" "did_lookup demo_reg did = Some e \<Longrightarrow> did_backed e"
  by (auto simp: demo_reg_def did_reg_inv_def did_entry_wf_def did_lookup_def did_backed_def split: if_splits)

theorem read_did_exact_witness:
  "\<exists>b' l' c'. uds_svc_read_did (Some [0xF18C, 0xF190]) 2 (Some demo_reg) 9 (mk_out (replicate 9 0) 0 0) =
     Some (UDS_CORE_OK, Some demo_reg, mk_out b' l' c') \<and>
     take l' b' = [0x62, 0xF1, 0x8C, 0x53, 0xF1, 0x90, 0x41, 0x42]"
proof -
  have "did_response demo_reg [0xF18C, 0xF190] = [0xF1, 0x8C, 0x53, 0xF1, 0x90, 0x41, 0x42]"
    "\<forall>d \<in> set [0xF18C, 0xF190]. did_lookup demo_reg d \<noteq> None" by code_simp+
  with read_did_exact [OF demo_reg_wf(1), of "[0xF18C, 0xF190]" 9 "replicate 9 0" 0 0] demo_reg_wf(2)
  show ?thesis by (auto simp: numeral_2_eq_2)
qed

text \<open>
  C24. An entry without a data pointer leaks the response buffer. ReadDataByIdentifier for a registered
  identifier whose data pointer is NULL is answered positively, and in the place of the value the
  response has \<open>data_len\<close> bytes of whatever the buffer held before the call.
\<close>

theorem unbacked_did_leaks:
  assumes "did_reg_inv reg" "did_lookup reg did = Some e" "did_data e = None" "3 + data_len e \<le> n" "n \<le> length b"
  shows "uds_svc_read_did (Some [did]) 1 (Some reg) n (mk_out b l c) =
    Some (UDS_CORE_OK, Some reg, mk_out ([0x62, byte_of 1 did, byte_of 0 did] @ drop 3 b) (3 + data_len e) c)"
proof -
  have b: "splice 1 [byte_of 1 did, byte_of 0 did] (splice 0 [0x62] b) = [0x62, byte_of 1 did, byte_of 0 did] @ drop 3 b"
    using assms(4,5) splice_splice_adjacent [of 0 "[0x62]" "[byte_of 1 did, byte_of 0 did]" b]
    by (simp add: splice_def numeral_3_eq_3)
  from assms(1) show ?thesis
  proof (cases rule: did_find_cases [where did = did])
    case missing
    with assms(2) show ?thesis by simp
  next
    case (found es ix)
    with assms(2) have e: "es ! ix = e" by simp
    have put: "put_did_record 1 did e (mk_out (splice 0 [0x62] b) l c) =
        Some (mk_out ([0x62, byte_of 1 did, byte_of 0 did] @ drop 3 b) l c)"
      using assms(3-5) b by (simp add: put_did_record_def mem_simps)
    let ?out = "mk_out ([0x62, byte_of 1 did, byte_of 0 did] @ drop 3 b) l c"
    have "read_did_loop reg (Some [did]) 1 n 0 1 (mk_out (splice 0 [0x62] b) l c) =
        read_did_loop reg (Some [did]) 1 n (Suc 0) (1 + 2 + data_len e) ?out"
      using found e put assms(4) by (subst read_did_loop.simps) (simp add: mem_simps)
    also have "\<dots> = Some (UDS_CORE_OK, 3 + data_len e, ?out)" by (subst read_did_loop.simps) simp
    finally have "read_did_loop reg (Some [did]) 1 n 0 1 (mk_out (splice 0 [0x62] b) l c) =
        Some (UDS_CORE_OK, 3 + data_len e, ?out)" .
    with assms(4,5) show ?thesis by (simp add: uds_svc_read_did_def mem_simps)
  qed
qed

text \<open>A registry with one such entry, and a buffer with an old response in it.\<close>

definition bare_reg :: UdsDidRegistry where
  "bare_reg = \<lparr>did_entries = Some [\<lparr>did_id = 0x0200, did_data = None, data_len = 2, writable = False, min_session = 1,
     min_write_session = 1, requires_security = False\<rparr>], did_count = 1\<rparr>"

theorem unbacked_did_leaks_witness:
  "uds_svc_read_did (Some [0x0200]) 1 (Some bare_reg) 6 (mk_out [0x67, 0x01, 0xDE, 0xAD, 0xBE, 0xEF] 0 0) =
    Some (UDS_CORE_OK, Some bare_reg, mk_out [0x62, 0x02, 0x00, 0xAD, 0xBE, 0xEF] 5 0)"
proof -
  have inv: "did_reg_inv bare_reg" by (simp add: bare_reg_def did_reg_inv_def did_entry_wf_def)
  have e: "did_lookup bare_reg 0x0200 = Some (the (did_lookup bare_reg 0x0200))" "did_data (the (did_lookup bare_reg 0x0200)) = None"
    "data_len (the (did_lookup bare_reg 0x0200)) = 2" by (simp_all add: bare_reg_def did_lookup_def)
  have b: "byte_of 1 (0x0200 :: u16) = 0x02" "byte_of 0 (0x0200 :: u16) = 0x00" by code_simp+
  from unbacked_did_leaks [OF inv e(1,2), where n = 6 and b = "[0x67, 0x01, 0xDE, 0xAD, 0xBE, 0xEF]" and l = 0 and c = 0]
  show ?thesis unfolding e(3) b by simp
qed

section \<open>Writing\<close>

text \<open>Everything that must hold for a write to be granted, and the entry it leaves.\<close>

definition write_granted :: "UdsDidEntry \<Rightarrow> u8 \<Rightarrow> bool \<Rightarrow> nat \<Rightarrow> bool" where
  "write_granted e sess unlocked n_data \<longleftrightarrow> writable e \<and> min_write_session e \<le> sess \<and>
     (requires_security e \<longrightarrow> unlocked) \<and> n_data = data_len e"

definition written :: "UdsDidEntry \<Rightarrow> u8 list \<Rightarrow> UdsDidEntry" where
  "written e bs = e\<lparr>did_data := map_option (splice 0 bs) (did_data e)\<rparr>"

lemma written_simps [simp]:
  "did_id (written e bs) = did_id e" "data_len (written e bs) = data_len e"
  "writable (written e bs) = writable e" "requires_security (written e bs) = requires_security e"
  "min_write_session (written e bs) = min_write_session e" "min_session (written e bs) = min_session e"
  "did_backed (written e bs) = did_backed e"
  by (simp_all add: written_def did_backed_def)

lemma written_wf: "did_entry_wf e \<Longrightarrow> length bs = data_len e \<Longrightarrow> did_entry_wf (written e bs)"
  by (auto simp: did_entry_wf_def written_def)

lemma did_value_written: "did_backed e \<Longrightarrow> length bs = data_len e \<Longrightarrow> did_value (written e bs) = bs"
  using take_splice0 [of bs] by (auto simp: did_value_def written_def did_backed_def)

lemma did_find_mut_eq: "did_find_mut = did_find"
  by (intro ext) (simp add: did_find_mut_def did_find_def)

text \<open>The handler on a known identifier, one branch per guard.\<close>

lemma write_did_known:
  assumes "did_reg_inv reg" "did_entries reg = Some es"
    "did_find (did_entries reg) (did_count reg) did = Some (Some ix)" "ix < length es"
    "n_data \<le> length dl" "n \<le> length b"
  shows "uds_svc_write_did did (Some dl) n_data sess unlocked (Some reg) n (mk_out b l c) =
    (let e = es ! ix in
     if \<not> writable e \<or> sess < min_write_session e
     then Some (UDS_CORE_ERR_NRC, Some reg, mk_out b l (nrc_code UDS_NRC_REQUEST_OUT_OF_RANGE))
     else if requires_security e \<and> \<not> unlocked
     then Some (UDS_CORE_ERR_NRC, Some reg, mk_out b l (nrc_code UDS_NRC_SECURITY_ACCESS_DENIED))
     else if n_data \<noteq> data_len e
     then Some (UDS_CORE_ERR_NRC, Some reg, mk_out b l (nrc_code UDS_NRC_INCORRECT_MSG_LEN_OR_FORMAT))
     else if n < 3 then Some (UDS_CORE_ERR_BUF, Some reg, mk_out b l c)
     else Some (UDS_CORE_OK, Some (reg\<lparr>did_entries := Some (es[ix := written e (take n_data dl)])\<rparr>),
        mk_out (splice 0 [0x6E, byte_of 1 did, byte_of 0 did] b) 3 c))"
proof -
  have wf: "did_entry_wf (es ! ix)" using assms(1,2,4) by (auto elim!: did_reg_invE)
  have same: "(es ! ix)\<lparr>did_data := did_data (es ! ix)\<rparr> = es ! ix"
    by (cases "es ! ix") simp
  show ?thesis
  proof (cases "did_data (es ! ix)")
    case None
    then have "written (es ! ix) bs = es ! ix" for bs
      by (cases "es ! ix") (simp add: written_def)
    with None assms show ?thesis
      by (simp add: uds_svc_write_did_def did_find_mut_eq mem_simps Let_def)
  next
    case (Some buf)
    with wf have "data_len (es ! ix) \<le> length buf" by (simp add: did_entry_wf_def)
    moreover have "es[ix := (es ! ix)\<lparr>did_data := Some buf\<rparr>] = es"
      using same unfolding Some by (metis list_update_id)
    ultimately show ?thesis using Some assms
      by (auto simp: uds_svc_write_did_def did_find_mut_eq mem_simps Let_def mem_cpy_def written_def)
  qed
qed

lemma write_did_unknown:
  assumes "did_find (did_entries reg) (did_count reg) did = Some None"
  shows "uds_svc_write_did did (Some dl) n_data sess unlocked (Some reg) n (mk_out b l c) =
    Some (UDS_CORE_ERR_NRC, Some reg, mk_out b l (nrc_code UDS_NRC_REQUEST_OUT_OF_RANGE))"
  using assms by (simp add: uds_svc_write_did_def did_find_mut_eq mem_simps)

lemma write_did_safe_keeps:
  assumes "did_reg_inv reg" "n_data \<le> length dl" "n \<le> length b"
  shows "\<exists>rc reg' out'. uds_svc_write_did did (Some dl) n_data sess unlocked (Some reg) n (mk_out b l c) =
      Some (rc, Some reg', out') \<and> out_contract n (mk_out b l c) rc out' \<and> did_reg_inv reg'"
proof -
  from assms(1) show ?thesis
  proof (cases rule: did_find_cases [where did = did])
    case missing
    with assms show ?thesis by (simp add: write_did_unknown)
  next
    case (found es ix)
    from assms(1) found(1) have es: "did_count reg \<le> length es" "\<And>e. e \<in> set es \<Longrightarrow> did_entry_wf e"
      by (auto elim!: did_reg_invE)
    have "did_reg_inv (reg\<lparr>did_entries := Some (es[ix := written (es ! ix) (take n_data dl)])\<rparr>)"
      if "n_data = data_len (es ! ix)"
      using that es found(6) assms(2) written_wf [OF found(6), of "take n_data dl"]
      by (auto simp: did_reg_inv_def dest!: set_update_subset_insert [THEN subsetD])
    with assms show ?thesis
      by (simp add: write_did_known [OF assms(1) found(1,2,3) assms(2,3)] Let_def)
  qed
qed

interpretation write_did: uds_service
  "uds_svc_write_did did (Some dl) (length dl) sess unlocked" "ptr_inv did_reg_inv"
  by (rule uds_service_ptrI, simp add: uds_svc_write_did_def, simp add: uds_svc_write_did_def,
      rule write_did_safe_keeps, simp_all)

interpretation write_did_pos: positive_service
  "uds_svc_write_did did (Some dl) (length dl) sess unlocked" "ptr_inv did_reg_inv" "0x2E"
  by unfold_locales (simp only: uds_svc_write_did_def Let_def, (rule opens_rules | (simp add: opens_final; fail))+)

interpretation write_did_speaks:
  answering_service "uds_svc_write_did did (Some d) (length d) ty u" "ptr_inv did_reg_inv" "\<lambda>p n. p = None \<or> n < 3"
  by unfold_locales (simp only: uds_svc_write_did_def null_out_mk simp_thms, (rule speaks_intros | (simp; fail))+)

interpretation write_did_blind: blind_service
  "uds_svc_write_did did (Some dl) (length dl) sess unlocked" "ptr_inv did_reg_inv"
  by unfold_locales (simp only: uds_svc_write_did_def Let_def null_out_mk simp_thms, (rule unseen_rules | assumption)+)

lemma did_lookup_written:
  assumes "did_reg_inv reg" "did_entries reg = Some es"
    "did_find (did_entries reg) (did_count reg) did = Some (Some ix)"
  shows "did_lookup (reg\<lparr>did_entries := Some (es[ix := written (es ! ix) bs])\<rparr>) =
    (did_lookup reg)(did \<mapsto> written (es ! ix) bs)"
proof
  fix d
  from assms(1,2) have len: "did_count reg \<le> length es" by (auto elim!: did_reg_invE)
  from assms(2,3) dids.hit [of es "did_count reg" did ix] have k: "did_id (written (es ! ix) bs) = did" by simp
  from dids.lookup_update [OF len _ k, where k' = d] assms(2,3)
  show "did_lookup (reg\<lparr>did_entries := Some (es[ix := written (es ! ix) bs])\<rparr>) d =
    ((did_lookup reg)(did \<mapsto> written (es ! ix) bs)) d"
    by (simp add: did_lookup_def dids.lookup_def)
qed

text \<open>What a call returns and leaves behind, in terms of the lookup.\<close>

lemma write_did_cases:
  assumes "did_reg_inv reg" "n \<le> length b"
  obtains (refused) rc c' where
      "uds_svc_write_did did (Some dl) (length dl) sess unlocked (Some reg) n (mk_out b l c) =
         Some (rc, Some reg, mk_out b l c')"
      "rc \<noteq> UDS_CORE_OK" "rc = UDS_CORE_ERR_NRC \<Longrightarrow> case did_lookup reg did of None \<Rightarrow> True
         | Some e \<Rightarrow> \<not> write_granted e sess unlocked (length dl)"
      "rc \<noteq> UDS_CORE_ERR_NRC \<Longrightarrow> n < 3"
  | (granted) e reg' where "did_lookup reg did = Some e" "write_granted e sess unlocked (length dl)" "3 \<le> n"
      "uds_svc_write_did did (Some dl) (length dl) sess unlocked (Some reg) n (mk_out b l c) =
         Some (UDS_CORE_OK, Some reg', mk_out (splice 0 [0x6E, byte_of 1 did, byte_of 0 did] b) 3 c)"
      "did_lookup reg' = (did_lookup reg)(did \<mapsto> written e dl)" "did_reg_inv reg'"
proof -
  from assms(1) show thesis
  proof (cases rule: did_find_cases [where did = did])
    case missing
    with refused show thesis by (simp add: write_did_unknown)
  next
    case (found es ix)
    note eq = write_did_known [OF assms(1) found(1,2,3) order_refl [of "length dl"] assms(2), of sess unlocked l c]
    let ?reg' = "reg\<lparr>did_entries := Some (es[ix := written (es ! ix) dl])\<rparr>"
    show thesis
    proof (cases "write_granted (es ! ix) sess unlocked (length dl) \<and> 3 \<le> n")
      case True
      then have r: "uds_svc_write_did did (Some dl) (length dl) sess unlocked (Some reg) n (mk_out b l c) =
         Some (UDS_CORE_OK, Some ?reg', mk_out (splice 0 [0x6E, byte_of 1 did, byte_of 0 did] b) 3 c)"
        unfolding eq by (simp add: write_granted_def Let_def not_less [symmetric])
      with write_did_safe_keeps [OF assms(1) order_refl [of "length dl"] assms(2), of did sess unlocked l c]
      have "did_reg_inv ?reg'" by auto
      with granted [OF found(4) _ _ r] True did_lookup_written [OF assms(1) found(1,2)] show thesis by simp
    next
      case False
      then have "\<exists>rc c'. uds_svc_write_did did (Some dl) (length dl) sess unlocked (Some reg) n (mk_out b l c) =
          Some (rc, Some reg, mk_out b l c') \<and> rc \<noteq> UDS_CORE_OK \<and>
          (rc = UDS_CORE_ERR_NRC \<longrightarrow> \<not> write_granted (es ! ix) sess unlocked (length dl)) \<and>
          (rc \<noteq> UDS_CORE_ERR_NRC \<longrightarrow> n < 3)"
        unfolding eq by (auto simp: write_granted_def Let_def)
      with refused found(4) show thesis by auto
    qed
  qed
qed

text \<open>
  C22. WriteDataByIdentifier performs a write exactly when it is allowed: it returns
  \<open>UDS_CORE_OK\<close> iff the identifier is registered, the entry is writable, the session is at least
  its minimum, security is unlocked when the entry requires it, the length is the entry's, and the
  three response bytes fit. Then the entry holds the new bytes and every other identifier is
  unchanged; on any other return the whole registry is unchanged. The registry stays well-formed.
\<close>

theorem write_did_guarded:
  assumes "did_reg_inv reg" "n \<le> length b"
  shows "\<exists>rc reg' b' l' c'.
    uds_svc_write_did did (Some dl) (length dl) sess unlocked (Some reg) n (mk_out b l c) =
      Some (rc, Some reg', mk_out b' l' c') \<and>
    (rc = UDS_CORE_OK \<longleftrightarrow> 3 \<le> n \<and> (\<exists>e. did_lookup reg did = Some e \<and> writable e \<and>
       min_write_session e \<le> sess \<and> (requires_security e \<longrightarrow> unlocked) \<and> length dl = data_len e)) \<and>
    (rc = UDS_CORE_OK \<longrightarrow> take l' b' = [0x6E, byte_of 1 did, byte_of 0 did] \<and>
       (\<forall>e. did_lookup reg did = Some e \<and> did_backed e \<longrightarrow>
          map_option did_value (did_lookup reg' did) = Some dl) \<and>
       (\<forall>d. d \<noteq> did \<longrightarrow> did_lookup reg' d = did_lookup reg d)) \<and>
    (rc \<noteq> UDS_CORE_OK \<longrightarrow> reg' = reg \<and> b' = b \<and> l' = l) \<and> did_reg_inv reg'"
  using assms
proof (cases rule: write_did_cases [where did = did and dl = dl and sess = sess and unlocked = unlocked and l = l and c = c])
  case (refused rc c')
  moreover from refused(3) have "rc = UDS_CORE_ERR_NRC \<longrightarrow>
      (\<forall>e. did_lookup reg did = Some e \<longrightarrow> \<not> write_granted e sess unlocked (length dl))"
    by (auto split: option.splits)
  with refused(4) have "\<not> (3 \<le> n \<and> (\<exists>e. did_lookup reg did = Some e \<and> writable e \<and>
       min_write_session e \<le> sess \<and> (requires_security e \<longrightarrow> unlocked) \<and> length dl = data_len e))"
    by (auto simp: write_granted_def)
  ultimately show ?thesis using assms(1) by auto
next
  case (granted e reg')
  moreover from granted(2) have "length dl = data_len e" by (simp add: write_granted_def)
  ultimately show ?thesis using take_splice0 [of "[0x6E, byte_of 1 did, byte_of 0 did]" b]
    by (auto simp: write_granted_def did_value_written numeral_3_eq_3)
qed

text \<open>The secured two-byte entry, written in the extended session after the unlock.\<close>

theorem write_did_guarded_witness:
  "\<exists>reg' b' l' c'.
     uds_svc_write_did 0xF190 (Some [0x11, 0x22]) 2 3 True (Some demo_reg) 8 (mk_out (replicate 8 0) 0 0) =
       Some (UDS_CORE_OK, Some reg', mk_out b' l' c') \<and>
     map_option did_value (did_lookup reg' 0xF190) = Some [0x11, 0x22] \<and>
     did_lookup reg' 0xF18C = did_lookup demo_reg 0xF18C"
proof -
  obtain e where e: "did_lookup demo_reg 0xF190 = Some e" "writable e" "min_write_session e = 3"
      "data_len e = 2" "did_backed e"
    by (simp add: did_lookup_def demo_reg_def did_backed_def)
  with write_did_guarded [OF demo_reg_wf(1), where n = 8 and b = "replicate 8 0" and
      did = "0xF190" and dl = "[0x11, 0x22]" and sess = 3 and unlocked = True and l = 0 and c = 0]
  have "\<exists>reg' b' l' c'.
     uds_svc_write_did 0xF190 (Some [0x11, 0x22]) 2 3 True (Some demo_reg) 8 (mk_out (replicate 8 0) 0 0) =
       Some (UDS_CORE_OK, Some reg', mk_out b' l' c') \<and>
     map_option did_value (did_lookup reg' 0xF190) = Some [0x11, 0x22] \<and>
     (\<forall>d. d \<noteq> 0xF190 \<longrightarrow> did_lookup reg' d = did_lookup demo_reg d)"
    by (auto simp: numeral_2_eq_2)
  moreover have "(0xF18C :: u16) \<noteq> 0xF190" by simp
  ultimately show ?thesis by blast
qed

text \<open>
  C27. Round trip through the wire: after a granted WriteDataByIdentifier of an entry with a
  buffer, ReadDataByIdentifier for that identifier into a buffer that can hold the record answers
  with exactly the bytes written, in whatever state the registry was before.
\<close>

theorem write_then_read_did:
  assumes "did_reg_inv reg" "\<forall>d e. did_lookup reg d = Some e \<longrightarrow> did_backed e"
    and "n \<le> length b" "m \<le> length b2" "3 + length dl \<le> m"
    and "uds_svc_write_did did (Some dl) (length dl) sess unlocked (Some reg) n (mk_out b l c) =
      Some (UDS_CORE_OK, Some reg', out')"
  shows "\<exists>b'. uds_svc_read_did (Some [did]) 1 (Some reg') m (mk_out b2 l2 c2) =
      Some (UDS_CORE_OK, Some reg', mk_out b' (3 + length dl) c2) \<and>
    take (3 + length dl) b' = [0x62, byte_of 1 did, byte_of 0 did] @ dl"
  using assms(1,3)
proof (cases rule: write_did_cases [where did = did and dl = dl and sess = sess and unlocked = unlocked and l = l and c = c])
  case (refused rc c')
  with assms(6) show ?thesis by simp
next
  case (granted e reg'')
  then have [simp]: "reg'' = reg'" and len: "length dl = data_len e"
    using assms(6) by (simp_all add: write_granted_def)
  have e: "did_backed e" "did_value (written e dl) = dl"
    using assms(2) granted(1) len did_value_written by auto
  have spec: "read_spec (did_lookup reg') m [did] [0x62] =
      (UDS_CORE_OK, [0x62, byte_of 1 did, byte_of 0 did] @ dl)"
    using granted(5) assms(5) e(2) len by (simp add: did_record_def)
  have backed: "\<forall>d e. did_lookup reg' d = Some e \<longrightarrow> did_backed e"
    using granted(5) assms(2) e(1) by simp
  from assms(5) have "1 \<le> m" by simp
  from granted(6) backed have inv: "did_reg_inv reg'" by simp
  obtain rc pos' b' c' where r:
    "uds_svc_read_did (Some [did]) (length [did]) (Some reg') m (mk_out b2 l2 c2) =
        Some (rc, Some reg', mk_out b' (if rc = UDS_CORE_OK then pos' else l2) c')"
    "read_spec (did_lookup reg') m [did] [0x62] = (rc, take pos' b')" "pos' \<le> length b'"
    "c' = (if rc = UDS_CORE_ERR_NRC then nrc_code UDS_NRC_REQUEST_OUT_OF_RANGE else c2)"
    by (rule read_did_eq [OF inv backed _ assms(4) \<open>1 \<le> m\<close>, where l = l2 and c = c2 and dl = "[did]"]) simp
  moreover from r(2) spec have v: "rc = UDS_CORE_OK" "take pos' b' = [0x62, byte_of 1 did, byte_of 0 did] @ dl"
    by simp_all
  moreover from r(3) v(2) have "pos' = 3 + length dl" by (auto dest: arg_cong [of _ _ length])
  ultimately show ?thesis by auto
qed

theorem write_then_read_did_witness:
  "\<exists>reg' out' b'.
     uds_svc_write_did 0xF190 (Some [0x11, 0x22]) 2 3 True (Some demo_reg) 8 (mk_out (replicate 8 0) 0 0) =
       Some (UDS_CORE_OK, Some reg', out') \<and>
     uds_svc_read_did (Some [0xF190]) 1 (Some reg') 5 (mk_out (replicate 5 0) 0 0) =
       Some (UDS_CORE_OK, Some reg', mk_out b' 5 0) \<and>
     take 5 b' = [0x62, 0xF1, 0x90, 0x11, 0x22]"
proof -
  have "\<exists>reg' out'. uds_svc_write_did 0xF190 (Some [0x11, 0x22]) (length [0x11, 0x22 :: u8]) 3 True
      (Some demo_reg) 8 (mk_out (replicate 8 0) 0 0) = Some (UDS_CORE_OK, Some reg', out')"
    by (rule positive_return) code_simp
  then obtain reg' out' where w: "uds_svc_write_did 0xF190 (Some [0x11, 0x22]) (length [0x11, 0x22 :: u8]) 3 True
      (Some demo_reg) 8 (mk_out (replicate 8 0) 0 0) = Some (UDS_CORE_OK, Some reg', out')" by blast
  have "byte_of 1 (0xF190 :: u16) = 0xF1" "byte_of 0 (0xF190 :: u16) = 0x90" by code_simp+
  with write_then_read_did [OF demo_reg_wf(1) _ _ _ _ w, where m = 5 and ?b2.0 = "replicate 5 0" and ?l2.0 = 0 and ?c2.0 = 0] demo_reg_wf(2) w
  show ?thesis by (auto simp: numeral_2_eq_2)
qed

end
