(* ===== verification/Dtc.thy ===== *)
theory Dtc
  imports Service
begin

text \<open>
  Trouble codes, \<open>src/core/dtc.c\<close>: the registry of diagnostic trouble codes (DTCs),
  ClearDiagnosticInformation (0x14) and ReadDTCInformation (0x19, sub-functions 0x01, 0x02, 0x0A).
\<close>

section \<open>State\<close>

record UdsDtcEntry =
  dtc_code :: u32
  dtc_status :: u8
  snapshot_data :: "u8 list"
  snapshot_len :: nat

record UdsDtcRegistry =
  dtc_entries :: "UdsDtcEntry list ptr"
  dtc_count :: nat

definition uds_dtc_registry_init ::
  "UdsDtcRegistry ptr \<Rightarrow> UdsDtcEntry list ptr \<Rightarrow> nat \<Rightarrow> UdsDtcRegistry ptr" where
  "uds_dtc_registry_init reg entries count =
     (case reg of None \<Rightarrow> None
      | Some _ \<Rightarrow> Some \<lparr>dtc_entries = entries, dtc_count = count\<rparr>)"

section \<open>ClearDiagnosticInformation\<close>

definition group_of :: "u32 \<Rightarrow> u8" where
  "group_of code = ucast (drop_bit 16 code AND 0xFF)"

definition clear_entry :: "UdsDtcEntry \<Rightarrow> UdsDtcEntry" where
  "clear_entry e = e\<lparr>dtc_status := 0x00, snapshot_data := replicate 16 0x00, snapshot_len := 0\<rparr>"

text \<open>The loop over the registry: the entries array and the \<open>found\<close> flag.\<close>

function clear_dtc_loop ::
  "bool \<Rightarrow> u8 \<Rightarrow> nat \<Rightarrow> nat \<Rightarrow> UdsDtcEntry list ptr \<Rightarrow> bool \<Rightarrow> (UdsDtcEntry list ptr \<times> bool) option" where
  "clear_dtc_loop clear_all group_byte count i entries found =
     (if i < count then do {
        entry \<leftarrow> mem_get entries i;
        let entry_group = group_of (dtc_code entry);
        if clear_all \<or> entry_group = group_byte then do {
          es \<leftarrow> mem_set entries i (clear_entry entry);
          clear_dtc_loop clear_all group_byte count (Suc i) (Some es) True }
        else clear_dtc_loop clear_all group_byte count (Suc i) entries found }
      else Some (entries, found))"
  by pat_completeness auto
termination
  by (relation "measure (\<lambda>(clear_all, group_byte, count, i, entries, found). count - i)") auto

declare clear_dtc_loop.simps [simp del]

definition uds_svc_clear_dtc :: "u32 \<Rightarrow> UdsDtcRegistry ptr \<Rightarrow> nat \<Rightarrow> outp \<Rightarrow> UdsDtcRegistry ptr result" where
  "uds_svc_clear_dtc group_of_dtc preg resp_size out =
     (case preg of None \<Rightarrow> Some (UDS_CORE_ERR_PARAM, preg, out)
      | Some reg \<Rightarrow>
          if null_out out then Some (UDS_CORE_ERR_PARAM, preg, out)
          else if resp_size < 1 then Some (UDS_CORE_ERR_BUF, preg, out)
          else do {
            let clear_all = (group_of_dtc = 0xFFFFFF);
            let group_byte = group_of group_of_dtc;
            (es, found) \<leftarrow> clear_dtc_loop clear_all group_byte (dtc_count reg) 0 (dtc_entries reg) False;
            let preg = Some (reg\<lparr>dtc_entries := es\<rparr>);
            if \<not> clear_all \<and> \<not> found
            then ret_nrc UDS_NRC_REQUEST_OUT_OF_RANGE preg out
            else ret_ok [0x54] preg out })"

section \<open>ReadDTCInformation\<close>

text \<open>Sub-function 0x01: the counter is a \<open>uint16_t\<close> and wraps.\<close>

function count_dtc_loop :: "u8 \<Rightarrow> UdsDtcEntry list ptr \<Rightarrow> nat \<Rightarrow> nat \<Rightarrow> u16 \<Rightarrow> u16 option" where
  "count_dtc_loop status_mask entries n i count =
     (if i < n then do {
        e \<leftarrow> mem_get entries i;
        count_dtc_loop status_mask entries n (Suc i)
          (if dtc_status e AND status_mask \<noteq> 0 then count + 1 else count) }
      else Some count)"
  by pat_completeness auto
termination
  by (relation "measure (\<lambda>(status_mask, entries, n, i, count). n - i)") auto

declare count_dtc_loop.simps [simp del]

definition dtc_record :: "UdsDtcEntry \<Rightarrow> u8 list" where
  "dtc_record e =
     [ucast (drop_bit 16 (dtc_code e) AND 0xFF), ucast (drop_bit 8 (dtc_code e) AND 0xFF),
      ucast (dtc_code e AND 0xFF), dtc_status e]"

text \<open>
  Sub-functions 0x02 and 0x0A: the records of the entries selected by \<open>sel\<close>, four bytes each. The
  loop of 0x02 skips an entry that is not selected (\<open>continue\<close>), the loop of 0x0A selects all.
\<close>

function report_dtc_loop ::
  "(UdsDtcEntry \<Rightarrow> bool) \<Rightarrow> UdsDtcEntry list ptr \<Rightarrow> nat \<Rightarrow> nat \<Rightarrow> nat \<Rightarrow> nat \<Rightarrow> outp \<Rightarrow>
   (UdsCoreError \<times> nat \<times> outp) option" where
  "report_dtc_loop sel entries n resp_size i pos out =
     (if i < n then do {
        e \<leftarrow> mem_get entries i;
        if \<not> sel e then report_dtc_loop sel entries n resp_size (Suc i) pos out
        else if pos + 4 > resp_size then Some (UDS_CORE_ERR_BUF, pos, out)
        else do {
          out \<leftarrow> put_resp pos (dtc_record e) out;
          report_dtc_loop sel entries n resp_size (Suc i) (pos + 4) out } }
      else Some (UDS_CORE_OK, pos, out))"
  by pat_completeness auto
termination
  by (relation "measure (\<lambda>(sel, entries, n, resp_size, i, pos, out). n - i)") auto

declare report_dtc_loop.simps [simp del]

definition req_status_mask :: "u8 list ptr \<Rightarrow> nat \<Rightarrow> u8 option" where
  "req_status_mask req_data req_data_len =
     (if req_data \<noteq> None \<and> req_data_len \<ge> 1 then mem_get req_data 0 else Some 0xFF)"

definition report_dtcs ::
  "(UdsDtcEntry \<Rightarrow> bool) \<Rightarrow> u8 list \<Rightarrow> UdsDtcRegistry \<Rightarrow> nat \<Rightarrow> outp \<Rightarrow> UdsDtcRegistry ptr result" where
  "report_dtcs sel hdr reg resp_size out = do {
     out \<leftarrow> put_resp 0 hdr out;
     (rc, pos, out) \<leftarrow> report_dtc_loop sel (dtc_entries reg) (dtc_count reg) resp_size 0 3 out;
     if rc = UDS_CORE_OK then do {
       out \<leftarrow> set_resp_len pos out;
       Some (UDS_CORE_OK, Some reg, out) }
     else Some (rc, Some reg, out) }"

definition uds_svc_read_dtc ::
  "u8 \<Rightarrow> u8 list ptr \<Rightarrow> nat \<Rightarrow> UdsDtcRegistry ptr \<Rightarrow> nat \<Rightarrow> outp \<Rightarrow> UdsDtcRegistry ptr result" where
  "uds_svc_read_dtc sub_fn req_data req_data_len preg resp_size out =
     (case preg of None \<Rightarrow> Some (UDS_CORE_ERR_PARAM, preg, out)
      | Some reg \<Rightarrow>
          if null_out out then Some (UDS_CORE_ERR_PARAM, preg, out)
          else if sub_fn = 0x01 then
            (if resp_size < 6 then Some (UDS_CORE_ERR_BUF, preg, out)
             else do {
               status_mask \<leftarrow> req_status_mask req_data req_data_len;
               count \<leftarrow> count_dtc_loop status_mask (dtc_entries reg) (dtc_count reg) 0 0;
               ret_ok [0x59, 0x01, 0xFF, 0x01, byte_of 1 count, byte_of 0 count] preg out })
          else if sub_fn = 0x02 then
            (if resp_size < 3 then Some (UDS_CORE_ERR_BUF, preg, out)
             else do {
               status_mask \<leftarrow> req_status_mask req_data req_data_len;
               report_dtcs (\<lambda>e. dtc_status e AND status_mask \<noteq> 0) [0x59, 0x02, status_mask] reg resp_size out })
          else if sub_fn = 0x0A then
            (if resp_size < 3 then Some (UDS_CORE_ERR_BUF, preg, out)
             else report_dtcs (\<lambda>_. True) [0x59, 0x0A, 0xFF] reg resp_size out)
          else ret_nrc UDS_NRC_SUB_FUNCTION_NOT_SUPPORTED preg out)"

section \<open>Well-formed registries and the loops\<close>

definition dtc_reg_inv :: "UdsDtcRegistry \<Rightarrow> bool" where
  "dtc_reg_inv reg \<longleftrightarrow> (\<exists>es. dtc_entries reg = Some es \<and> dtc_count reg \<le> length es)"

definition dtc_list :: "UdsDtcRegistry \<Rightarrow> UdsDtcEntry list" where
  "dtc_list reg = take (dtc_count reg) (the (dtc_entries reg))"

text \<open>The codes a request selects, and the effect of clearing on the array.\<close>

definition selected_by_group :: "u32 \<Rightarrow> UdsDtcEntry \<Rightarrow> bool" where
  "selected_by_group g e \<longleftrightarrow> g = 0xFFFFFF \<or> group_of (dtc_code e) = group_of g"

lemma clear_dtc_loop_eq:
  assumes "count \<le> length es" "i \<le> count"
  shows "clear_dtc_loop (g = 0xFFFFFF) (group_of g) count i (Some es) found =
    Some (Some (take i es @ map (\<lambda>e. if selected_by_group g e then clear_entry e else e) (drop i (take count es)) @
        drop count es),
      found \<or> (\<exists>e \<in> set (drop i (take count es)). selected_by_group g e))"
  using assms
proof (induction "count - i" arbitrary: i es found)
  case 0
  then show ?case by (simp add: clear_dtc_loop.simps)
next
  case (Suc k)
  then have i: "i < count" "i < length es" by simp_all
  have ds: "drop i (take count es) = es ! i # drop (Suc i) (take count es)"
    using i Suc.prems by (simp add: Cons_nth_drop_Suc [symmetric])
  have tk: "take (Suc i) (es[i := x]) = take i es @ [x]" for x
    using i by (simp add: take_Suc_conv_app_nth)
  have dr: "drop (Suc i) (take count (es[i := x])) = drop (Suc i) (take count es)"
    "drop count (es[i := x]) = drop count es" for x
    using i by (simp_all add: take_update_swap drop_update_cancel)
  show ?case
  proof (cases "selected_by_group g (es ! i)")
    case True
    then have c: "g = 0xFFFFFF \<or> group_of (dtc_code (es ! i)) = group_of g" by (simp add: selected_by_group_def)
    from Suc.hyps(1) [of "Suc i" "es[i := clear_entry (es ! i)]" True] Suc i c True show ?thesis
      by (subst clear_dtc_loop.simps) (simp add: mem_simps ds tk dr)
  next
    case False
    then have c: "\<not> (g = 0xFFFFFF \<or> group_of (dtc_code (es ! i)) = group_of g)" by (simp add: selected_by_group_def)
    from Suc.hyps(1) [of "Suc i" es found] Suc i c False show ?thesis
      by (subst clear_dtc_loop.simps) (simp add: mem_simps ds take_Suc_conv_app_nth)
  qed
qed

lemma count_dtc_loop_eq:
  assumes "n \<le> length es" "i \<le> n"
  shows "count_dtc_loop m (Some es) n i k =
    Some (k + of_nat (length (filter (\<lambda>e. dtc_status e AND m \<noteq> 0) (drop i (take n es)))))"
  using assms
proof (induction "n - i" arbitrary: i k)
  case 0
  then show ?case by (simp add: count_dtc_loop.simps)
next
  case (Suc j)
  then have i: "i < n" "i < length es" by simp_all
  have ds: "drop i (take n es) = es ! i # drop (Suc i) (take n es)"
    using i Suc.prems by (simp add: Cons_nth_drop_Suc [symmetric])
  from Suc.hyps(1) [of "Suc i"] Suc i show ?case
    by (subst count_dtc_loop.simps) (simp add: mem_simps ds add.assoc)
qed

text \<open>
  The report loop against the concatenation of the selected records: it stops at the first record
  that does not fit.
\<close>

lemma report_dtc_loop_spec:
  assumes "n \<le> length es" "i \<le> n" "resp_size \<le> length b" "pos \<le> resp_size"
  shows "\<exists>rc pos' b'. report_dtc_loop sel (Some es) n resp_size i pos (mk_out b l c) = Some (rc, pos', mk_out b' l c) \<and>
    length b' = length b \<and> pos' \<le> resp_size \<and> rc \<in> {UDS_CORE_OK, UDS_CORE_ERR_BUF} \<and>
    (let recs = concat (map dtc_record (filter sel (drop i (take n es)))) in
     (rc = UDS_CORE_OK \<longleftrightarrow> pos + length recs \<le> resp_size) \<and>
     (rc = UDS_CORE_OK \<longrightarrow> pos' = pos + length recs \<and> take pos' b' = take pos b @ recs))"
  using assms(2-4)
proof (induction "n - i" arbitrary: i pos b)
  case 0
  then show ?case by (simp add: report_dtc_loop.simps)
next
  case (Suc k)
  with assms(1) have i: "i < n" "i < length es" by simp_all
  have ds: "drop i (take n es) = es ! i # drop (Suc i) (take n es)"
    using i assms(1) by (simp add: Cons_nth_drop_Suc [symmetric])
  have len: "length (dtc_record (es ! i)) = 4" by (simp add: dtc_record_def)
  consider (skip) "\<not> sel (es ! i)" | (full) "sel (es ! i)" "pos + 4 > resp_size"
    | (put) "sel (es ! i)" "pos + 4 \<le> resp_size" by linarith
  then show ?case
  proof cases
    case skip
    with Suc.hyps(1) [of "Suc i" b pos] Suc.hyps(2) Suc.prems i ds show ?thesis
      by (subst report_dtc_loop.simps) (simp add: mem_simps)
  next
    case full
    with Suc.prems i ds len show ?thesis
      by (subst report_dtc_loop.simps) (simp add: mem_simps)
  next
    case put
    let ?b = "splice pos (dtc_record (es ! i)) b"
    have fit: "take (pos + 4) ?b = take pos b @ dtc_record (es ! i)" "length ?b = length b"
      using take_splice_end [of pos b "dtc_record (es ! i)"] len put Suc.prems by simp_all
    from Suc.hyps(1) [of "Suc i" ?b "pos + 4"] Suc.hyps(2) Suc.prems i put fit show ?thesis
      by (subst report_dtc_loop.simps) (simp add: mem_simps ds len Let_def add.assoc)
  qed
qed

section \<open>The handlers\<close>

definition cleared :: "u32 \<Rightarrow> UdsDtcRegistry \<Rightarrow> UdsDtcRegistry" where
  "cleared g reg = reg\<lparr>dtc_entries := map_option
     (\<lambda>es. map (\<lambda>e. if selected_by_group g e then clear_entry e else e) (take (dtc_count reg) es) @
            drop (dtc_count reg) es) (dtc_entries reg)\<rparr>"

lemma cleared_inv: "dtc_reg_inv reg \<Longrightarrow> dtc_reg_inv (cleared g reg)"
  by (auto simp: dtc_reg_inv_def cleared_def)

lemma dtc_list_cleared:
  "dtc_reg_inv reg \<Longrightarrow>
   dtc_list (cleared g reg) = map (\<lambda>e. if selected_by_group g e then clear_entry e else e) (dtc_list reg)"
  by (auto simp: dtc_reg_inv_def cleared_def dtc_list_def min_def)

lemma cleared_none:
  assumes "\<forall>e \<in> set (dtc_list reg). \<not> selected_by_group g e" "dtc_reg_inv reg"
  shows "cleared g reg = reg"
proof -
  from assms(2) obtain es where es: "dtc_entries reg = Some es" by (auto simp: dtc_reg_inv_def)
  with assms(1) have "map (\<lambda>e. if selected_by_group g e then clear_entry e else e) (take (dtc_count reg) es) =
      take (dtc_count reg) es"
    by (auto simp: dtc_list_def intro!: map_idI)
  with es show ?thesis by (cases reg) (simp add: cleared_def)
qed

lemma clear_dtc_eq:
  assumes "dtc_reg_inv reg" "n \<le> length b"
  shows "uds_svc_clear_dtc g (Some reg) n (mk_out b l c) = Some
    (if n < 1 then (UDS_CORE_ERR_BUF, Some reg, mk_out b l c)
     else if g \<noteq> 0xFFFFFF \<and> (\<forall>e \<in> set (dtc_list reg). \<not> selected_by_group g e)
     then (UDS_CORE_ERR_NRC, Some reg, mk_out b l (nrc_code UDS_NRC_REQUEST_OUT_OF_RANGE))
     else (UDS_CORE_OK, Some (cleared g reg), mk_out (splice 0 [0x54] b) 1 c))"
proof -
  from assms(1) obtain es where es: "dtc_entries reg = Some es" "dtc_count reg \<le> length es"
    by (auto simp: dtc_reg_inv_def)
  have loop: "clear_dtc_loop (g = 0xFFFFFF) (group_of g) (dtc_count reg) 0 (Some es) False =
      Some (dtc_entries (cleared g reg), \<exists>e \<in> set (dtc_list reg). selected_by_group g e)"
    using clear_dtc_loop_eq [OF es(2), of 0 g False] es(1) by (simp add: cleared_def dtc_list_def)
  have upd: "reg\<lparr>dtc_entries := dtc_entries (cleared g reg)\<rparr> = cleared g reg"
    by (simp add: cleared_def)
  show ?thesis
    using assms(2) es loop upd cleared_none [OF _ assms(1), of g]
    by (auto simp: uds_svc_clear_dtc_def mem_simps Let_def)
qed

lemma clear_dtc_safe_keeps:
  assumes "dtc_reg_inv reg" "n \<le> length b"
  shows "\<exists>rc reg' out'. uds_svc_clear_dtc g (Some reg) n (mk_out b l c) = Some (rc, Some reg', out') \<and>
    out_contract n (mk_out b l c) rc out' \<and> dtc_reg_inv reg'"
  using assms by (auto simp: clear_dtc_eq cleared_inv)

interpretation clear_dtc: uds_service "uds_svc_clear_dtc g" "ptr_inv dtc_reg_inv"
  by (rule uds_service_ptrI, simp add: uds_svc_clear_dtc_def, simp add: uds_svc_clear_dtc_def,
      rule clear_dtc_safe_keeps, simp_all)

interpretation clear_dtc_pos: positive_service "uds_svc_clear_dtc g" "ptr_inv dtc_reg_inv" "0x14"
  by unfold_locales (simp only: uds_svc_clear_dtc_def Let_def, (rule opens_rules | (simp add: opens_final; fail))+)

interpretation clear_dtc_speaks: answering_service "uds_svc_clear_dtc g" "ptr_inv dtc_reg_inv" "\<lambda>p n. p = None \<or> n < 1"
  by unfold_locales (simp only: uds_svc_clear_dtc_def Let_def null_out_mk if_False, (rule speaks_intros | (simp; fail))+)

interpretation clear_dtc_blind: blind_service "uds_svc_clear_dtc g" "ptr_inv dtc_reg_inv"
  by unfold_locales (simp only: uds_svc_clear_dtc_def Let_def null_out_mk if_False, (rule unseen_rules | assumption)+)

lemma report_dtc_loop_first:
  "report_dtc_loop sel es n k i pos out = Some (rc, pos', out') \<Longrightarrow> 0 < pos \<Longrightarrow> first_byte out' = first_byte out"
proof (induction sel es n k i pos out rule: report_dtc_loop.induct)
  case (1 sel es n k i pos out)
  show ?case
  proof (cases "i < n")
    case True
    with 1(3) obtain e where e: "mem_get es i = Some e"
      by (subst (asm) report_dtc_loop.simps) (auto simp: Option.bind_eq_Some_conv)
    consider "\<not> sel e" | "sel e" "pos + 4 > k" | "sel e" "\<not> pos + 4 > k" by blast
    then show ?thesis
    proof cases
      case 1
      with "1.IH"(1) [OF True e 1] "1.prems" True e show ?thesis by (subst (asm) (2) report_dtc_loop.simps) simp
    next
      case 2
      with "1.prems" True e show ?thesis by (subst (asm) report_dtc_loop.simps) simp
    next
      case 3
      with "1.prems" True e obtain out1 where r: "put_resp pos (dtc_record e) out = Some out1"
        "report_dtc_loop sel es n k (Suc i) (pos + 4) out1 = Some (rc, pos', out')"
        by (subst (asm) report_dtc_loop.simps) (auto simp: Option.bind_eq_Some_conv)
      with "1.IH"(2) [OF True e _ 3(2) r(1,2)] 3(1) first_byte_put_later [OF r(1) "1.prems"(2)] show ?thesis by simp
    qed
  qed (use 1(3) in \<open>simp add: report_dtc_loop.simps\<close>)
qed

lemma opens_report_dtcs [opens_intros]: "hdr \<noteq> [] \<Longrightarrow> x = hd hdr \<Longrightarrow> opens x (report_dtcs sel hdr reg n out)"
proof -
  assume hdr: "hdr \<noteq> []" "x = hd hdr"
  then have "first_byte out' = Some x" if "put_resp 0 hdr out = Some out1"
    "report_dtc_loop sel (dtc_entries reg) (dtc_count reg) n 0 3 out1 = Some (UDS_CORE_OK, pos, out2)"
    "set_resp_len pos out2 = Some out'" for out1 out2 pos out'
    using first_byte_put [of "hd hdr" "tl hdr" out out1] report_dtc_loop_first [OF that(2)] first_byte_len [OF that(3)] that(1)
    by simp
  then show ?thesis by (auto simp: opens_def report_dtcs_def Option.bind_eq_Some_conv split: if_splits)
qed

text \<open>The status mask of a request, and the two kinds of report.\<close>

definition mask_of :: "u8 list \<Rightarrow> u8" where
  "mask_of d = (if d = [] then 0xFF else hd d)"

lemma req_status_mask_eq: "req_status_mask (Some d) (length d) = Some (mask_of d)"
  by (cases d) (simp_all add: req_status_mask_def mask_of_def mem_get_def)

lemma report_dtcs_spec:
  assumes "dtc_reg_inv reg" "n \<le> length b" "length hdr = 3" "3 \<le> n"
  shows "\<exists>rc b' l'. report_dtcs sel hdr reg n (mk_out b l c) = Some (rc, Some reg, mk_out b' l' c) \<and>
    length b' = length b \<and> rc \<in> {UDS_CORE_OK, UDS_CORE_ERR_BUF} \<and>
    (let recs = concat (map dtc_record (filter sel (dtc_list reg))) in
     (rc = UDS_CORE_OK \<longleftrightarrow> 3 + length recs \<le> n) \<and>
     (if rc = UDS_CORE_OK then l' = 3 + length recs \<and> take l' b' = hdr @ recs else l' = l))"
proof -
  from assms(1) obtain es where es: "dtc_entries reg = Some es" "dtc_count reg \<le> length es"
    by (auto simp: dtc_reg_inv_def)
  let ?b = "splice 0 hdr b"
  have "n \<le> length ?b" "take 3 ?b = hdr" using assms take_splice0 [of hdr b] by simp_all
  with report_dtc_loop_spec [OF es(2) _ _ assms(4), of 0 ?b sel l c] es assms show ?thesis
    by (auto simp: report_dtcs_def mem_simps dtc_list_def Let_def)
qed

lemma read_dtc_safe_keeps:
  assumes "dtc_reg_inv reg" "n \<le> length b"
  shows "\<exists>rc reg' out'. uds_svc_read_dtc sub (Some d) (length d) (Some reg) n (mk_out b l c) =
      Some (rc, Some reg', out') \<and> out_contract n (mk_out b l c) rc out' \<and> dtc_reg_inv reg'"
proof -
  from assms(1) obtain es where es: "dtc_entries reg = Some es" "dtc_count reg \<le> length es"
    by (auto simp: dtc_reg_inv_def)
  have rep: "\<exists>rc reg' out'. report_dtcs sel hdr reg n (mk_out b l c) = Some (rc, Some reg', out') \<and>
      out_contract n (mk_out b l c) rc out' \<and> dtc_reg_inv reg'" if "length hdr = 3" "3 \<le> n" for sel hdr
    using report_dtcs_spec [OF assms that, of sel l c] assms(1) by (auto simp: Let_def split: if_splits)
  show ?thesis
    using assms es rep
    by (auto simp: uds_svc_read_dtc_def req_status_mask_eq mem_simps count_dtc_loop_eq not_less)
qed

interpretation read_dtc: uds_service "uds_svc_read_dtc sub (Some d) (length d)" "ptr_inv dtc_reg_inv"
  by (rule uds_service_ptrI, simp add: uds_svc_read_dtc_def, simp add: uds_svc_read_dtc_def,
      rule read_dtc_safe_keeps, simp_all)

interpretation read_dtc_pos: positive_service "uds_svc_read_dtc sub (Some d) (length d)" "ptr_inv dtc_reg_inv" "0x19"
  by unfold_locales (simp only: uds_svc_read_dtc_def Let_def, (rule opens_report_dtcs opens_rules | (simp add: opens_final; fail))+)

lemma req_status_mask_bind: "(req_status_mask (Some d) (length d) \<bind> f) = f (mask_of d)"
  by (simp add: req_status_mask_eq)

lemma unseen_report_dtcs:
  assumes "dtc_reg_inv reg" "n \<le> length b" "length b' = length b" "length hdr = 3" "3 \<le> n"
  shows "rel_option same_answer (report_dtcs sel hdr reg n (mk_out b l c)) (report_dtcs sel hdr reg n (mk_out b' l c))"
proof -
  from assms(2,3) have n': "n \<le> length b'" by simp
  from report_dtcs_spec [OF assms(1,2,4,5), of sel l c] report_dtcs_spec [OF assms(1) n' assms(4,5), of sel l c] assms(2-4)
  show ?thesis by (auto simp: Let_def split: if_splits)
qed

text \<open>A report is sent whenever the records of all entries fit.\<close>

lemma speaks_report_dtcs:
  assumes "dtc_reg_inv reg" "n \<le> length b" "length hdr = 3" "3 + 4 * dtc_count reg \<le> n"
  shows "speaks (report_dtcs sel hdr reg n (mk_out b l c))"
proof -
  have "length (concat (map dtc_record es)) = 4 * length es" for es
    by (induction es) (simp_all add: dtc_record_def)
  moreover have "length (filter sel (dtc_list reg)) \<le> dtc_count reg"
    by (rule order_trans [OF length_filter_le]) (simp add: dtc_list_def)
  ultimately have "3 + length (concat (map dtc_record (filter sel (dtc_list reg)))) \<le> n" using assms(4) by simp
  with report_dtcs_spec [OF assms(1-3), of sel l c] assms(4) show ?thesis
    by (auto simp: speaks_def Let_def)
qed

interpretation read_dtc_speaks: answering_service "uds_svc_read_dtc sub (Some d) (length d)" "ptr_inv dtc_reg_inv"
  "\<lambda>p n. case p of None \<Rightarrow> True | Some reg \<Rightarrow> n < 6 \<or> n < 3 + 4 * dtc_count reg"
proof
  fix p n and b :: "u8 list"
  assume *: "ptr_inv dtc_reg_inv p" "n \<le> length b"
    "\<not> (case p of None \<Rightarrow> True | Some reg \<Rightarrow> n < 6 \<or> n < 3 + 4 * dtc_count reg)"
  then obtain reg where p: "p = Some reg" by (auto split: option.splits)
  show "speaks (uds_svc_read_dtc sub (Some d) (length d) p n (mk_out b 0 0))"
    using * unfolding p
    by (simp only: uds_svc_read_dtc_def option.case null_out_mk if_False)
      (rule speaks_report_dtcs speaks_intros | (simp add: *; fail))+
qed

interpretation read_dtc_blind: blind_service "uds_svc_read_dtc sub (Some d) (length d)" "ptr_inv dtc_reg_inv"
proof
  fix p n l c and b b' :: "u8 list"
  assume *: "ptr_inv dtc_reg_inv p" "n \<le> length b" "length b' = length b"
  then show "rel_option same_answer (uds_svc_read_dtc sub (Some d) (length d) p n (mk_out b l c))
      (uds_svc_read_dtc sub (Some d) (length d) p n (mk_out b' l c))"
    by (simp only: uds_svc_read_dtc_def null_out_mk if_False req_status_mask_bind)
      (rule unseen_report_dtcs unseen_rules | (simp add: *; fail) | (simp; fail))+
qed

section \<open>Properties\<close>

definition demo_dtcs :: UdsDtcRegistry where
  "demo_dtcs = \<lparr>dtc_entries = Some
     [\<lparr>dtc_code = 0xC11000, dtc_status = 0x28, snapshot_data = replicate 16 1, snapshot_len = 3\<rparr>,
      \<lparr>dtc_code = 0x0A1B2C, dtc_status = 0x04, snapshot_data = replicate 16 2, snapshot_len = 0\<rparr>],
     dtc_count = 2\<rparr>"

lemma demo_dtcs_inv: "dtc_reg_inv demo_dtcs"
  by (simp add: dtc_reg_inv_def demo_dtcs_def)

text \<open>
  C31. ClearDiagnosticInformation clears exactly the codes of the requested group: the group
  0xFFFFFF selects every entry, any other group the entries with the same high byte. The call is
  positive exactly when that selects something (always for 0xFFFFFF), the selected entries lose
  status and snapshot, the others are untouched, and a refused call changes nothing.
\<close>

theorem clear_dtc_exact:
  assumes "dtc_reg_inv reg" "n \<le> length b" "1 \<le> n"
  shows "\<exists>rc reg' out'. uds_svc_clear_dtc g (Some reg) n (mk_out b l c) = Some (rc, Some reg', out') \<and>
    (rc = UDS_CORE_OK \<longleftrightarrow> g = 0xFFFFFF \<or> (\<exists>e \<in> set (dtc_list reg). group_of (dtc_code e) = group_of g)) \<and>
    dtc_list reg' = map (\<lambda>e. if g = 0xFFFFFF \<or> group_of (dtc_code e) = group_of g
      then e\<lparr>dtc_status := 0, snapshot_data := replicate 16 0, snapshot_len := 0\<rparr> else e) (dtc_list reg) \<and>
    (rc \<noteq> UDS_CORE_OK \<longrightarrow> reg' = reg)"
proof (cases "g \<noteq> 0xFFFFFF \<and> (\<forall>e \<in> set (dtc_list reg). \<not> selected_by_group g e)")
  case True
  then have "map (\<lambda>e. if selected_by_group g e then clear_entry e else e) (dtc_list reg) = dtc_list reg"
    by (auto intro!: map_idI)
  with True have "map (\<lambda>e. if g = 0xFFFFFF \<or> group_of (dtc_code e) = group_of g
      then e\<lparr>dtc_status := 0, snapshot_data := replicate 16 0, snapshot_len := 0\<rparr> else e) (dtc_list reg) = dtc_list reg"
    unfolding selected_by_group_def clear_entry_def by blast
  with True assms show ?thesis
    by (auto simp: clear_dtc_eq selected_by_group_def)
next
  case False
  have "dtc_list (cleared g reg) = map (\<lambda>e. if g = 0xFFFFFF \<or> group_of (dtc_code e) = group_of g
      then e\<lparr>dtc_status := 0, snapshot_data := replicate 16 0, snapshot_len := 0\<rparr> else e) (dtc_list reg)"
    by (simp add: dtc_list_cleared assms selected_by_group_def clear_entry_def)
  with False assms show ?thesis by (auto simp: clear_dtc_eq selected_by_group_def)
qed

theorem clear_dtc_exact_witness:
  "\<exists>reg' out'. uds_svc_clear_dtc 0xC10000 (Some demo_dtcs) 8 (mk_out (replicate 8 0) 0 0) =
     Some (UDS_CORE_OK, Some reg', out') \<and> map dtc_status (dtc_list reg') = [0, 0x04]"
proof -
  have "group_of 0xC11000 = 0xC1" "group_of 0xC10000 = 0xC1" "group_of 0x0A1B2C = 0x0A" by code_simp+
  with clear_dtc_exact [OF demo_dtcs_inv, where n = 8 and b = "replicate 8 0" and g = "0xC10000" and l = 0 and c = 0]
  show ?thesis by (auto simp: dtc_list_def demo_dtcs_def)
qed

text \<open>
  C32. ReadDTCInformation 0x02 answers with the mask and, in registry order, the three code bytes
  and the status of exactly the entries whose status meets the mask, or refuses a buffer that
  cannot hold them; 0x01 with the same mask answers the number of those records (the counter does
  not wrap for a registry below 65536 entries). Neither changes the registry.
\<close>

theorem read_dtc_reports:
  fixes reg d
  defines "hits \<equiv> filter (\<lambda>e. dtc_status e AND mask_of d \<noteq> 0) (dtc_list reg)"
  assumes "dtc_reg_inv reg" "n \<le> length b" "6 \<le> n" "dtc_count reg < 65536"
  shows "(\<exists>rc b' l'. uds_svc_read_dtc 0x02 (Some d) (length d) (Some reg) n (mk_out b l c) =
        Some (rc, Some reg, mk_out b' l' c) \<and> (rc = UDS_CORE_OK \<longleftrightarrow> 3 + 4 * length hits \<le> n) \<and>
        (rc = UDS_CORE_OK \<longrightarrow> l' = 3 + 4 * length hits \<and>
           take l' b' = [0x59, 0x02, mask_of d] @ concat (map dtc_record hits))) \<and>
    (\<exists>b' h lo. uds_svc_read_dtc 0x01 (Some d) (length d) (Some reg) n (mk_out b l c) =
        Some (UDS_CORE_OK, Some reg, mk_out b' 6 c) \<and>
        take 6 b' = [0x59, 0x01, 0xFF, 0x01, h, lo] \<and> unat (be16 h lo) = length hits)"
    (is "?list \<and> ?number")
proof -
  from assms(2) obtain es where es: "dtc_entries reg = Some es" "dtc_count reg \<le> length es"
    by (auto simp: dtc_reg_inv_def)
  have len: "length (concat (map dtc_record xs)) = 4 * length xs" for xs
    by (induction xs) (simp_all add: dtc_record_def)
  have "length hits \<le> dtc_count reg"
    unfolding hits_def by (rule order_trans [OF length_filter_le]) (simp add: dtc_list_def)
  with assms(5) have small: "unat (of_nat (length hits) :: u16) = length hits"
    by (simp add: unat_of_nat)
  have ?list
    using report_dtcs_spec [of reg n b "[0x59, 0x02, mask_of d]" "\<lambda>e. dtc_status e AND mask_of d \<noteq> 0" l c] assms len
    by (auto simp: uds_svc_read_dtc_def req_status_mask_eq Let_def hits_def)
  moreover have ?number
    using assms(3,4) es small take_splice0 [of "[0x59, 0x01, 0xFF, 0x01, byte_of 1 (of_nat (length hits) :: u16),
        byte_of 0 (of_nat (length hits) :: u16)]" b]
    by (auto simp: uds_svc_read_dtc_def req_status_mask_eq count_dtc_loop_eq mem_simps hits_def dtc_list_def)
  ultimately show ?thesis by blast
qed

theorem read_dtc_reports_witness:
  "\<exists>b'. uds_svc_read_dtc 0x02 (Some [0x08]) 1 (Some demo_dtcs) 8 (mk_out (replicate 8 0) 0 0) =
      Some (UDS_CORE_OK, Some demo_dtcs, mk_out b' 7 0) \<and>
    take 7 b' = [0x59, 0x02, 0x08, 0xC1, 0x10, 0x00, 0x28]"
proof -
  have f: "concat (map dtc_record (filter (\<lambda>e. dtc_status e AND 0x08 \<noteq> 0) (dtc_list demo_dtcs))) =
      [0xC1, 0x10, 0x00, 0x28]"
    "length (filter (\<lambda>e. dtc_status e AND 0x08 \<noteq> 0) (dtc_list demo_dtcs)) = 1"
    "mask_of [0x08] = 0x08" "dtc_count demo_dtcs = 2"
    by code_simp+
  from read_dtc_reports [OF demo_dtcs_inv, where n = 8 and b = "replicate 8 0" and d = "[0x08]" and l = 0 and c = 0]
  show ?thesis by (auto simp: f)
qed

text \<open>
  Clearing works end to end: a ClearDiagnosticInformation for all groups is positive, and
  afterwards the reports 0x01 and 0x02 are empty for every status mask, while the registry still
  holds the same codes in the same order.
\<close>

lemma clear_all_then_read:
  assumes "dtc_reg_inv reg" "n \<le> length b" "m \<le> length b2" "1 \<le> n" "6 \<le> m"
  shows "\<exists>reg' out'. uds_svc_clear_dtc 0xFFFFFF (Some reg) n (mk_out b l c) = Some (UDS_CORE_OK, Some reg', out') \<and>
    (\<exists>b'. uds_svc_read_dtc 0x01 (Some [k]) 1 (Some reg') m (mk_out b2 l2 c2) =
       Some (UDS_CORE_OK, Some reg', mk_out b' 6 c2) \<and> take 6 b' = [0x59, 0x01, 0xFF, 0x01, 0, 0]) \<and>
    (\<exists>b'. uds_svc_read_dtc 0x02 (Some [k]) 1 (Some reg') m (mk_out b2 l2 c2) =
       Some (UDS_CORE_OK, Some reg', mk_out b' 3 c2) \<and> take 3 b' = [0x59, 0x02, k]) \<and>
    map dtc_code (dtc_list reg') = map dtc_code (dtc_list reg)"
    (is "\<exists>reg' out'. ?clear reg' out' \<and> ?number reg' \<and> ?list reg' \<and> ?codes reg'")
proof -
  let ?r = "cleared 0xFFFFFF reg"
  have inv: "dtc_reg_inv ?r" using assms(1) by (rule cleared_inv)
  then obtain es where es: "dtc_entries ?r = Some es" "dtc_count ?r \<le> length es"
    by (auto simp: dtc_reg_inv_def)
  have "\<forall>e \<in> set (dtc_list ?r). dtc_status e = 0"
    using assms(1) by (auto simp: dtc_list_cleared selected_by_group_def clear_entry_def)
  then have none: "filter (\<lambda>e. dtc_status e AND x \<noteq> 0) (dtc_list ?r) = []" for x
    by (auto simp: filter_empty_conv)
  have k: "req_status_mask (Some [k]) 1 = Some k" by (simp add: req_status_mask_def mem_get_def)
  have zero: "byte_of j (0 :: u16) = 0" for j by (simp add: byte_of_def)
  have "?number ?r"
    using assms(3,5) es none k take_splice0 [of "[0x59, 0x01, 0xFF, 0x01, 0, 0]" b2]
    by (auto simp: uds_svc_read_dtc_def count_dtc_loop_eq mem_simps dtc_list_def zero)
  moreover have "?list ?r"
    using report_dtcs_spec [OF inv assms(3), of "[0x59, 0x02, k]" "\<lambda>e. dtc_status e AND k \<noteq> 0" l2 c2] assms(5) none k
    by (auto simp: uds_svc_read_dtc_def Let_def)
  moreover have "?codes ?r"
    using assms(1) by (simp add: dtc_list_cleared selected_by_group_def clear_entry_def)
  moreover have "?clear ?r (mk_out (splice 0 [0x54] b) 1 c)" using assms by (simp add: clear_dtc_eq)
  ultimately show ?thesis by blast
qed

end
