(* ===== verification/Routine.thy ===== *)
theory Routine
  imports Service
begin

text \<open>
  RoutineControl (0x31), \<open>src/core/routine_control.c\<close>: the routine registry, the handler with
  its three sub-functions, the life cycle of a routine as an abstract state machine the handler
  refines, and the runs of a server that answers any sequence of requests.
\<close>

section \<open>State\<close>

datatype UdsRoutineState =
    UDS_ROUTINE_IDLE
  | UDS_ROUTINE_RUNNING
  | UDS_ROUTINE_STOPPED
  | UDS_ROUTINE_RESULT_AVAILABLE

record UdsRoutineEntry =
  routine_id :: u16
  rt_state :: UdsRoutineState
  result_data :: "u8 list"
  result_len :: nat
  rt_min_session :: u8
  rt_requires_security :: bool

record UdsRoutineRegistry =
  rt_entries :: "UdsRoutineEntry list ptr"
  rt_count :: nat

definition uds_routine_registry_init ::
  "UdsRoutineRegistry ptr \<Rightarrow> UdsRoutineEntry list ptr \<Rightarrow> nat \<Rightarrow> UdsRoutineRegistry ptr" where
  "uds_routine_registry_init reg entries count =
     (case reg of None \<Rightarrow> None
      | Some _ \<Rightarrow> Some \<lparr>rt_entries = entries, rt_count = count\<rparr>)"

definition routine_find :: "UdsRoutineEntry list ptr \<Rightarrow> nat \<Rightarrow> u16 \<Rightarrow> nat option option" where
  "routine_find entries count rid = scan (\<lambda>e. routine_id e = rid) entries 0 count"

interpretation routines: keyed_table routine_id routine_find
  by (rule scan_keyed_table) (simp add: routine_find_def)

section \<open>The handler\<close>

text \<open>The \<open>switch\<close> on the sub-function, for the entry at index \<open>ix\<close>.\<close>

definition routine_switch ::
  "u8 \<Rightarrow> u16 \<Rightarrow> UdsRoutineRegistry \<Rightarrow> nat \<Rightarrow> UdsRoutineEntry \<Rightarrow> nat \<Rightarrow> outp \<Rightarrow> UdsRoutineRegistry ptr result" where
  "routine_switch sub_fn rid reg ix entry resp_size out =
     (let hdr = [0x71, sub_fn, byte_of 1 rid, byte_of 0 rid];
          goto = (\<lambda>st. do {
            es \<leftarrow> mem_set (rt_entries reg) ix (entry\<lparr>rt_state := st\<rparr>);
            ret_ok hdr (Some (reg\<lparr>rt_entries := Some es\<rparr>)) out })
      in if sub_fn = 0x01 then
           (if resp_size < 4 then Some (UDS_CORE_ERR_BUF, Some reg, out)
            else goto UDS_ROUTINE_RUNNING)
         else if sub_fn = 0x02 then
           (if rt_state entry \<noteq> UDS_ROUTINE_RUNNING
            then ret_nrc UDS_NRC_CONDITIONS_NOT_CORRECT (Some reg) out
            else if resp_size < 4 then Some (UDS_CORE_ERR_BUF, Some reg, out)
            else goto UDS_ROUTINE_STOPPED)
         else if sub_fn = 0x03 then
           (if rt_state entry \<noteq> UDS_ROUTINE_RESULT_AVAILABLE
            then ret_nrc UDS_NRC_CONDITIONS_NOT_CORRECT (Some reg) out
            else if resp_size < 4 + result_len entry then Some (UDS_CORE_ERR_BUF, Some reg, out)
            else do {
              out \<leftarrow> put_resp 0 hdr out;
              out \<leftarrow> (if result_len entry > 0 then do {
                        bs \<leftarrow> mem_read (Some (result_data entry)) 0 (result_len entry);
                        put_resp 4 bs out }
                      else Some out);
              out \<leftarrow> set_resp_len (4 + result_len entry) out;
              Some (UDS_CORE_OK, Some reg, out) })
         else ret_nrc UDS_NRC_SUB_FUNCTION_NOT_SUPPORTED (Some reg) out)"

definition uds_svc_routine_control ::
  "u8 \<Rightarrow> u16 \<Rightarrow> u8 \<Rightarrow> bool \<Rightarrow> u8 list ptr \<Rightarrow> nat \<Rightarrow> UdsRoutineRegistry ptr \<Rightarrow> nat \<Rightarrow> outp \<Rightarrow>
   UdsRoutineRegistry ptr result" where
  "uds_svc_routine_control sub_fn rid session_type security_unlocked option_data option_len preg resp_size out =
     (case preg of None \<Rightarrow> Some (UDS_CORE_ERR_PARAM, preg, out)
      | Some reg \<Rightarrow>
          if null_out out then Some (UDS_CORE_ERR_PARAM, preg, out)
          else if sub_fn < 0x01 \<or> sub_fn > 0x03
          then ret_nrc UDS_NRC_SUB_FUNCTION_NOT_SUPPORTED preg out
          else do {
            found \<leftarrow> routine_find (rt_entries reg) (rt_count reg) rid;
            (case found of
               None \<Rightarrow> ret_nrc UDS_NRC_REQUEST_OUT_OF_RANGE preg out
             | Some ix \<Rightarrow> do {
                 entry \<leftarrow> mem_get (rt_entries reg) ix;
                 if session_type < rt_min_session entry
                 then ret_nrc UDS_NRC_REQUEST_OUT_OF_RANGE preg out
                 else if rt_requires_security entry \<and> \<not> security_unlocked
                 then ret_nrc UDS_NRC_SECURITY_ACCESS_DENIED preg out
                 else routine_switch sub_fn rid reg ix entry resp_size out }) })"

section \<open>Well-formed registries\<close>

text \<open>\<open>result_data\<close> is an array of 16 bytes, of which \<open>result_len\<close> are valid.\<close>

definition routine_reg_inv :: "UdsRoutineRegistry \<Rightarrow> bool" where
  "routine_reg_inv reg \<longleftrightarrow> (\<exists>es. rt_entries reg = Some es \<and> rt_count reg \<le> length es \<and>
     (\<forall>e \<in> set es. result_len e \<le> length (result_data e)))"

definition routine_lookup :: "UdsRoutineRegistry \<Rightarrow> u16 \<Rightarrow> UdsRoutineEntry option" where
  "routine_lookup reg rid =
     (case rt_entries reg of None \<Rightarrow> None
      | Some es \<Rightarrow> find (\<lambda>e. routine_id e = rid) (take (rt_count reg) es))"

definition set_routine :: "UdsRoutineRegistry \<Rightarrow> nat \<Rightarrow> UdsRoutineState \<Rightarrow> UdsRoutineRegistry" where
  "set_routine reg ix st = reg\<lparr>rt_entries := map_option (\<lambda>es. es[ix := (es ! ix)\<lparr>rt_state := st\<rparr>]) (rt_entries reg)\<rparr>"

lemma routine_find_cases:
  assumes "routine_reg_inv reg"
  obtains (missing) "routine_find (rt_entries reg) (rt_count reg) rid = Some None" "routine_lookup reg rid = None"
  | (found) es ix where "rt_entries reg = Some es"
      "routine_find (rt_entries reg) (rt_count reg) rid = Some (Some ix)"
      "ix < length es" "routine_lookup reg rid = Some (es ! ix)" "result_len (es ! ix) \<le> length (result_data (es ! ix))"
      "\<And>st. routine_reg_inv (set_routine reg ix st)"
      "\<And>st. routine_lookup (set_routine reg ix st) = (routine_lookup reg)(rid \<mapsto> (es ! ix)\<lparr>rt_state := st\<rparr>)"
proof -
  from assms obtain es where es: "rt_entries reg = Some es" "rt_count reg \<le> length es"
    "\<And>e. e \<in> set es \<Longrightarrow> result_len e \<le> length (result_data e)" by (auto simp: routine_reg_inv_def)
  have lk: "routine_lookup reg k = routines.lookup es (rt_count reg) k" for k
    by (simp add: routine_lookup_def routines.lookup_def es)
  from es(2) show thesis
  proof (cases rule: routines.find_lookup [where k = rid])
    case missing
    then show thesis using that(1) es lk by simp
  next
    case (found i)
    have inv: "routine_reg_inv (set_routine reg i st)" for st
      using es found(3) by (auto simp: routine_reg_inv_def set_routine_def dest!: set_update_subset_insert [THEN subsetD])
    have upd: "routine_lookup (set_routine reg i st) = (routine_lookup reg)(rid \<mapsto> (es ! i)\<lparr>rt_state := st\<rparr>)" for st
    proof
      fix k
      from routines.lookup_update [OF es(2) found(1), of "(es ! i)\<lparr>rt_state := st\<rparr>" k] found(5)
      show "routine_lookup (set_routine reg i st) k = ((routine_lookup reg)(rid \<mapsto> (es ! i)\<lparr>rt_state := st\<rparr>)) k"
        by (simp add: routine_lookup_def set_routine_def routines.lookup_def es(1))
    qed
    show thesis using that(2) [of es i] es found lk inv upd by simp
  qed
qed

section \<open>The life cycle of a routine\<close>

text \<open>
  The abstract machine: a routine can be started in any state, stopped only while it runs, and
  asked for results only when they are available. \<open>None\<close> is a refusal.
\<close>

fun lifecycle :: "UdsRoutineState \<Rightarrow> u8 \<Rightarrow> UdsRoutineState option" where
  "lifecycle st sub =
     (if sub = 0x01 then Some UDS_ROUTINE_RUNNING
      else if sub = 0x02 \<and> st = UDS_ROUTINE_RUNNING then Some UDS_ROUTINE_STOPPED
      else if sub = 0x03 \<and> st = UDS_ROUTINE_RESULT_AVAILABLE then Some st
      else None)"

definition routine_answer :: "UdsRoutineEntry \<Rightarrow> u8 \<Rightarrow> u16 \<Rightarrow> u8 list" where
  "routine_answer e sub rid = [0x71, sub, byte_of 1 rid, byte_of 0 rid] @
     (if sub = 0x03 then take (result_len e) (result_data e) else [])"

definition routine_permitted :: "UdsRoutineEntry \<Rightarrow> u8 \<Rightarrow> bool \<Rightarrow> bool" where
  "routine_permitted e sess unlocked \<longleftrightarrow> rt_min_session e \<le> sess \<and> (rt_requires_security e \<longrightarrow> unlocked)"

lemma splice_two: "length a + length bs \<le> length b \<Longrightarrow> n = length a \<Longrightarrow> splice n bs (splice 0 a b) = splice 0 (a @ bs) b"
  using splice_splice_adjacent [of 0 a bs b] by simp

lemma routine_switch_eq:
  assumes "rt_entries reg = Some es" "ix < length es" "result_len (es ! ix) \<le> length (result_data (es ! ix))"
    "n \<le> length b" "sub \<in> {1, 2, 3}"
  shows "routine_switch sub rid reg ix (es ! ix) n (mk_out b l c) = Some
    (case lifecycle (rt_state (es ! ix)) sub of
       None \<Rightarrow> (UDS_CORE_ERR_NRC, Some reg, mk_out b l (nrc_code UDS_NRC_CONDITIONS_NOT_CORRECT))
     | Some st \<Rightarrow>
         let a = routine_answer (es ! ix) sub rid in
         if n < length a then (UDS_CORE_ERR_BUF, Some reg, mk_out b l c)
         else (UDS_CORE_OK, Some (set_routine reg ix st), mk_out (splice 0 a b) (length a) c))"
proof -
  let ?e = "es ! ix"
  have id: "set_routine reg ix (rt_state ?e) = reg"
    using assms(1,2) by (cases reg; cases ?e) (auto simp: set_routine_def intro!: list_update_same_conv [THEN iffD2])
  have goto: "reg\<lparr>rt_entries := Some (es[ix := ?e\<lparr>rt_state := st\<rparr>])\<rparr> = set_routine reg ix st" for st
    using assms(1) by (simp add: set_routine_def)
  from assms(5) consider "sub = 1" | "sub = 2" | "sub = 3" by blast
  then show ?thesis
  proof cases
    case 3
    with assms id show ?thesis
      by (auto simp: routine_switch_def mem_simps routine_answer_def Let_def splice_two not_less min_def)
  qed (use assms goto in \<open>auto simp: routine_switch_def mem_simps routine_answer_def Let_def\<close>)
qed

text \<open>The handler on valid pointers, in terms of the lookup.\<close>

lemma routine_control_eq:
  assumes "routine_reg_inv reg" "n \<le> length b"
  shows "\<exists>rc reg' b' l' c'.
    uds_svc_routine_control sub rid sess unlocked opt ol (Some reg) n (mk_out b l c) =
      Some (rc, Some reg', mk_out b' l' c') \<and> routine_reg_inv reg' \<and>
    out_contract n (mk_out b l c) rc (mk_out b' l' c') \<and>
    (rc = UDS_CORE_OK \<longleftrightarrow> sub \<in> {1, 2, 3} \<and> (\<exists>e st. routine_lookup reg rid = Some e \<and>
        routine_permitted e sess unlocked \<and> lifecycle (rt_state e) sub = Some st \<and>
        length (routine_answer e sub rid) \<le> n)) \<and>
    (rc = UDS_CORE_OK \<longrightarrow> (\<exists>e st. routine_lookup reg rid = Some e \<and> lifecycle (rt_state e) sub = Some st \<and>
        routine_lookup reg' = (routine_lookup reg)(rid \<mapsto> e\<lparr>rt_state := st\<rparr>) \<and>
        take l' b' = routine_answer e sub rid)) \<and>
    (rc \<noteq> UDS_CORE_OK \<longrightarrow> reg' = reg \<and> b' = b \<and> l' = l)"
proof (cases "sub \<in> {1, 2, 3}")
  case False
  then have "sub < 1 \<or> sub > 3"
    by (auto simp: word_less_nat_alt word_unat_eq_iff)
  with False assms show ?thesis by (auto simp: uds_svc_routine_control_def mem_simps)
next
  case True
  then have rng: "\<not> (sub < 1 \<or> sub > 3)" by auto
  from assms(1) show ?thesis
  proof (cases rule: routine_find_cases [where rid = rid])
    case missing
    with rng assms show ?thesis by (auto simp: uds_svc_routine_control_def mem_simps)
  next
    case (found es ix)
    note sw = routine_switch_eq [OF found(1,3,5) assms(2) True, of rid l c]
    show ?thesis
    proof (cases "routine_permitted (es ! ix) sess unlocked")
      case False
      with rng found assms show ?thesis
        by (auto simp: uds_svc_routine_control_def mem_simps routine_permitted_def not_le not_less)
    next
      case perm: True
      then have eq: "uds_svc_routine_control sub rid sess unlocked opt ol (Some reg) n (mk_out b l c) =
          routine_switch sub rid reg ix (es ! ix) n (mk_out b l c)"
        using rng found assms
        by (auto simp: uds_svc_routine_control_def mem_simps routine_permitted_def not_le not_less)
      show ?thesis
      proof (cases "lifecycle (rt_state (es ! ix)) sub")
        case None
        then show ?thesis unfolding eq sw using found assms True by (simp del: lifecycle.simps)
      next
        case (Some st)
        then show ?thesis unfolding eq sw using found assms True perm
          by (cases "n < length (routine_answer (es ! ix) sub rid)") (simp_all add: Let_def del: lifecycle.simps)
      qed
    qed
  qed
qed

lemma routine_control_safe_keeps:
  assumes "routine_reg_inv reg" "n \<le> length b"
  shows "\<exists>rc reg' out'. uds_svc_routine_control sub rid sess unlocked opt ol (Some reg) n (mk_out b l c) =
      Some (rc, Some reg', out') \<and> out_contract n (mk_out b l c) rc out' \<and> routine_reg_inv reg'"
  using routine_control_eq [OF assms, of sub rid sess unlocked opt ol l c] by blast

interpretation routine_control: uds_service
  "uds_svc_routine_control sub rid sess unlocked opt ol" "ptr_inv routine_reg_inv"
  by (rule uds_service_ptrI, simp add: uds_svc_routine_control_def, simp add: uds_svc_routine_control_def,
      rule routine_control_safe_keeps, simp_all)

interpretation routine_control_pos: positive_service
  "uds_svc_routine_control sub rid sess unlocked opt ol" "ptr_inv routine_reg_inv" "0x31"
  by unfold_locales (simp only: uds_svc_routine_control_def routine_switch_def Let_def, (rule opens_rules | (simp add: opens_final; fail))+)

interpretation routine_control_blind: blind_service
  "uds_svc_routine_control sub rid sess unlocked opt ol" "ptr_inv routine_reg_inv"
proof
  fix p n l c and b b' :: "u8 list"
  assume p: "ptr_inv routine_reg_inv p" and n: "n \<le> length b" and b': "length b' = length b"
  from n b' have n': "n \<le> length b'" by simp
  show "rel_option same_answer (uds_svc_routine_control sub rid sess unlocked opt ol p n (mk_out b l c))
     (uds_svc_routine_control sub rid sess unlocked opt ol p n (mk_out b' l c))"
  proof (cases p)
    case None
    with b' show ?thesis by (simp add: uds_svc_routine_control_def)
  next
    case (Some reg)
    with p have inv: "routine_reg_inv reg" by simp
    show ?thesis
    proof (cases "sub \<in> {1, 2, 3}")
      case False
      then have "sub < 1 \<or> sub > 3" by (auto simp: word_less_nat_alt word_unat_eq_iff)
      with b' Some show ?thesis by (simp add: uds_svc_routine_control_def mem_simps)
    next
      case True
      then have rng: "\<not> (sub < 1 \<or> sub > 3)" by auto
      from inv show ?thesis
      proof (cases rule: routine_find_cases [where rid = rid])
        case missing
        with rng Some b' show ?thesis by (simp add: uds_svc_routine_control_def mem_simps)
      next
        case (found es ix)
        have "rel_option same_answer (routine_switch sub rid reg ix (es ! ix) n (mk_out b l c))
            (routine_switch sub rid reg ix (es ! ix) n (mk_out b' l c))"
          unfolding routine_switch_eq [OF found(1,3,5) n True] routine_switch_eq [OF found(1,3,5) n' True]
          using n b' by (auto simp: unseen_answer Let_def not_less split: option.split)
        with rng found Some b' show ?thesis by (simp add: uds_svc_routine_control_def mem_simps)
      qed
    qed
  qed
qed

section \<open>Properties\<close>

text \<open>
  C29. RoutineControl refines the life cycle. The handler answers positively exactly when the
  sub-function is known, the routine exists, session and security allow it, the life cycle has
  the transition, and the answer (with the result bytes for 0x03) fits; then that routine makes
  the transition and no other routine changes. Any refusal leaves the registry as it was.
\<close>

theorem routine_control_refines:
  assumes "routine_reg_inv reg" "n \<le> length b"
  shows "\<exists>rc reg' b' l' c'.
    uds_svc_routine_control sub rid sess unlocked opt ol (Some reg) n (mk_out b l c) =
      Some (rc, Some reg', mk_out b' l' c') \<and>
    (rc = UDS_CORE_OK \<longleftrightarrow> sub \<in> {1, 2, 3} \<and> (\<exists>e st. routine_lookup reg rid = Some e \<and>
        rt_min_session e \<le> sess \<and> (rt_requires_security e \<longrightarrow> unlocked) \<and>
        lifecycle (rt_state e) sub = Some st \<and> length (routine_answer e sub rid) \<le> n)) \<and>
    (rc = UDS_CORE_OK \<longrightarrow> (\<exists>e st. routine_lookup reg rid = Some e \<and> lifecycle (rt_state e) sub = Some st \<and>
        routine_lookup reg' = (routine_lookup reg)(rid \<mapsto> e\<lparr>rt_state := st\<rparr>) \<and>
        take l' b' = routine_answer e sub rid)) \<and>
    (rc \<noteq> UDS_CORE_OK \<longrightarrow> reg' = reg \<and> b' = b \<and> l' = l)"
  using routine_control_eq [OF assms, of sub rid sess unlocked opt ol l c]
  unfolding routine_permitted_def by (elim ex_forward) blast

definition demo_routines :: UdsRoutineRegistry where
  "demo_routines = \<lparr>rt_entries = Some
     [\<lparr>routine_id = 0xFF00, rt_state = UDS_ROUTINE_IDLE, result_data = replicate 16 0, result_len = 0,
       rt_min_session = 2, rt_requires_security = True\<rparr>,
      \<lparr>routine_id = 0x0203, rt_state = UDS_ROUTINE_RESULT_AVAILABLE, result_data = [7, 8] @ replicate 14 0,
       result_len = 2, rt_min_session = 1, rt_requires_security = False\<rparr>],
     rt_count = 2\<rparr>"

lemma demo_routines_inv: "routine_reg_inv demo_routines"
  by (simp add: routine_reg_inv_def demo_routines_def)

theorem routine_control_refines_witness:
  "\<exists>reg' b' l' c'. uds_svc_routine_control 0x01 0xFF00 2 True None 0 (Some demo_routines) 8
       (mk_out (replicate 8 0) 0 0) = Some (UDS_CORE_OK, Some reg', mk_out b' l' c') \<and>
     map_option rt_state (routine_lookup reg' 0xFF00) = Some UDS_ROUTINE_RUNNING"
proof -
  have e: "routine_lookup demo_routines 0xFF00 = Some \<lparr>routine_id = 0xFF00, rt_state = UDS_ROUTINE_IDLE,
      result_data = replicate 16 0, result_len = 0, rt_min_session = 2, rt_requires_security = True\<rparr>"
    by (simp add: routine_lookup_def demo_routines_def)
  from routine_control_refines [OF demo_routines_inv, where n = 8 and b = "replicate 8 0" and sub = 1 and
      rid = "0xFF00" and sess = 2 and unlocked = True and opt = None and ol = 0 and l = 0 and c = 0]
  show ?thesis unfolding e by (auto simp: routine_answer_def)
qed

section \<open>Runs of requests\<close>

text \<open>
  A server that answers requests one after the other: any session type, security state, buffer
  and option record may come with each of them. The trace lists the positive answers, newest
  first, as sub-function and routine.
\<close>

inductive routine_run :: "UdsRoutineRegistry \<Rightarrow> (u8 \<times> u16) list \<Rightarrow> UdsRoutineRegistry \<Rightarrow> bool" for reg0 where
  start: "routine_run reg0 [] reg0"
| positive: "routine_run reg0 tr reg \<Longrightarrow> n \<le> length b \<Longrightarrow>
    uds_svc_routine_control sub rid sess unlocked opt ol (Some reg) n (mk_out b l c) =
      Some (UDS_CORE_OK, Some reg', out') \<Longrightarrow> routine_run reg0 ((sub, rid) # tr) reg'"
| refused: "routine_run reg0 tr reg \<Longrightarrow> n \<le> length b \<Longrightarrow>
    uds_svc_routine_control sub rid sess unlocked opt ol (Some reg) n (mk_out b l c) =
      Some (rc, Some reg', out') \<Longrightarrow> rc \<noteq> UDS_CORE_OK \<Longrightarrow> routine_run reg0 tr reg'"

text \<open>The last positive start or stop of a routine, and the state it implies.\<close>

definition last_control :: "(u8 \<times> u16) list \<Rightarrow> u16 \<Rightarrow> u8 option" where
  "last_control tr rid = map_option fst (find (\<lambda>(sub, r). r = rid \<and> sub \<noteq> 3) tr)"

definition state_after :: "UdsRoutineState \<Rightarrow> u8 option \<Rightarrow> UdsRoutineState" where
  "state_after st0 ctl = (case ctl of None \<Rightarrow> st0
     | Some sub \<Rightarrow> if sub = 1 then UDS_ROUTINE_RUNNING else UDS_ROUTINE_STOPPED)"

lemma routine_run_state:
  assumes "routine_run reg0 tr reg" "routine_reg_inv reg0"
  shows "routine_reg_inv reg \<and> (\<forall>rid. map_option rt_state (routine_lookup reg rid) =
    map_option (\<lambda>e. state_after (rt_state e) (last_control tr rid)) (routine_lookup reg0 rid))"
  using assms
proof (induction rule: routine_run.induct)
  case start
  then show ?case by (simp add: last_control_def state_after_def option.map_comp comp_def)
next
  case (positive tr reg n b sub rid sess unlocked opt ol l c reg' out')
  then have inv: "routine_reg_inv reg" by simp
  from routine_control_eq [OF inv positive(2), of sub rid sess unlocked opt ol l c] positive(3) obtain e st where
    r: "routine_reg_inv reg'" "sub \<in> {1, 2, 3}" "routine_lookup reg rid = Some e"
      "lifecycle (rt_state e) sub = Some st" "routine_lookup reg' = (routine_lookup reg)(rid \<mapsto> e\<lparr>rt_state := st\<rparr>)"
    by auto
  have "map_option rt_state (routine_lookup reg' k) =
      map_option (\<lambda>e. state_after (rt_state e) (last_control ((sub, rid) # tr) k)) (routine_lookup reg0 k)" for k
  proof -
    from positive.IH positive.prems have IH: "map_option rt_state (routine_lookup reg k) =
      map_option (\<lambda>e. state_after (rt_state e) (last_control tr k)) (routine_lookup reg0 k)" by blast
    show ?thesis
    proof (cases "k = rid")
      case True
      with IH r show ?thesis
        by (cases "routine_lookup reg0 rid")
          (auto simp: last_control_def state_after_def split: if_splits option.splits)
    next
      case False
      then have "last_control ((sub, rid) # tr) k = last_control tr k" by (simp add: last_control_def)
      with False IH r(5) show ?thesis by simp
    qed
  qed
  with r(1) show ?case by blast
next
  case (refused tr reg n b sub rid sess unlocked opt ol l c rc reg' out')
  then have inv: "routine_reg_inv reg" by simp
  from routine_control_eq [OF inv refused(2), of sub rid sess unlocked opt ol l c] refused(3,4) have "reg' = reg"
    by auto
  with refused show ?case by simp
qed

text \<open>
  C30. Over any run of requests against routines that all begin idle: a positive stop answer for a
  routine comes only while its latest positive start or stop was a start, and results are never
  answered, since no request makes them available.
\<close>

theorem stop_needs_start:
  assumes "routine_run reg0 tr reg" "routine_reg_inv reg0"
    and "\<forall>k e. routine_lookup reg0 k = Some e \<longrightarrow> rt_state e = UDS_ROUTINE_IDLE" "n \<le> length b"
    and "uds_svc_routine_control sub rid sess unlocked opt ol (Some reg) n (mk_out b l c) =
      Some (UDS_CORE_OK, Some reg', out')"
  shows "sub \<noteq> 3 \<and> (sub = 2 \<longrightarrow> last_control tr rid = Some 1)"
proof -
  from routine_run_state [OF assms(1,2)] have inv: "routine_reg_inv reg"
    and st: "map_option rt_state (routine_lookup reg rid) =
      map_option (\<lambda>e. state_after (rt_state e) (last_control tr rid)) (routine_lookup reg0 rid)" by blast+
  from routine_control_eq [OF inv assms(4), of sub rid sess unlocked opt ol l c] assms(5) obtain e st where
    e: "routine_lookup reg rid = Some e" "lifecycle (rt_state e) sub = Some st" by auto
  with st assms(3) have "rt_state e = state_after UDS_ROUTINE_IDLE (last_control tr rid)"
    by (cases "routine_lookup reg0 rid") auto
  with e(2) show ?thesis by (auto simp: state_after_def split: option.splits if_splits)
qed

definition idle_routine :: UdsRoutineRegistry where
  "idle_routine = \<lparr>rt_entries = Some
     [\<lparr>routine_id = 0xFF00, rt_state = UDS_ROUTINE_IDLE, result_data = replicate 16 0, result_len = 0,
       rt_min_session = 1, rt_requires_security = False\<rparr>], rt_count = 1\<rparr>"

theorem stop_needs_start_witness:
  "\<exists>reg reg' out'. routine_run idle_routine [(1, 0xFF00)] reg \<and>
     uds_svc_routine_control 2 0xFF00 1 False None 0 (Some reg) 4 (mk_out (replicate 4 0) 0 0) =
       Some (UDS_CORE_OK, Some reg', out') \<and> last_control [(1, 0xFF00)] 0xFF00 = Some 1"
proof -
  let ?out = "mk_out (replicate 4 0) 0 0" and ?reg = "set_routine idle_routine 0 UDS_ROUTINE_RUNNING"
  have "uds_svc_routine_control 1 0xFF00 1 False None 0 (Some idle_routine) 4 ?out =
      Some (UDS_CORE_OK, Some ?reg, mk_out [0x71, 1, 0xFF, 0] 4 0)" by code_simp
  then have run: "routine_run idle_routine [(1, 0xFF00)] ?reg"
    by (rule routine_run.positive [OF routine_run.start, rotated]) simp
  have "\<exists>reg' out'. uds_svc_routine_control 2 0xFF00 1 False None 0 (Some ?reg) 4 ?out =
      Some (UDS_CORE_OK, Some reg', out')" by (rule positive_return) code_simp
  then obtain reg' out' where stop: "uds_svc_routine_control 2 0xFF00 1 False None 0 (Some ?reg) 4 ?out =
      Some (UDS_CORE_OK, Some reg', out')" by blast
  have "last_control [(1, 0xFF00)] 0xFF00 = Some 1"
    using stop_needs_start [OF run _ _ _ stop] by (auto simp: idle_routine_def routine_reg_inv_def routine_lookup_def split: if_splits)
  with run stop show ?thesis by blast
qed

end
