(* ===== verification/Flash.thy ===== *)
theory Flash
  imports Service "HOL-Library.Code_Target_Nat"
begin

text \<open>
  The simulated flash memory, \<open>src/bootloader/flash.c\<close>: its region table, the range check and the
  four operations. The interface the transfer services rely on is the locale \<open>flash_device\<close>,
  interpreted at the end of the theory on the operations of the model.
\<close>

section \<open>State\<close>

record UdsFlashRegion =
  base_address :: u32
  rg_size :: u32
  protected :: bool

text \<open>
  The 256 KB array is a function from indices to bytes; the accesses below are faults outside of
  \<open>UDS_FLASH_MAX_SIZE\<close>, and the indices beyond it are never read or written.
\<close>

record UdsFlashMemory =
  fl_data :: "nat \<Rightarrow> u8"
  fl_regions :: "UdsFlashRegion list"
  region_count :: nat
  initialized :: bool

definition UDS_FLASH_MAX_REGIONS :: nat where
  "UDS_FLASH_MAX_REGIONS = 8"

definition UDS_FLASH_MAX_SIZE :: nat where
  "UDS_FLASH_MAX_SIZE = 256 * 1024"

definition UDS_FLASH_ERASE_VALUE :: u8 where
  "UDS_FLASH_ERASE_VALUE = 0xFF"

text \<open>Memory contents with a range of bytes replaced.\<close>

definition patch :: "nat \<Rightarrow> u8 list \<Rightarrow> (nat \<Rightarrow> u8) \<Rightarrow> nat \<Rightarrow> u8" where
  "patch a bs mem = (\<lambda>i. if a \<le> i \<and> i < a + length bs then bs ! (i - a) else mem i)"

definition flash_fill :: "nat \<Rightarrow> nat \<Rightarrow> u8 \<Rightarrow> UdsFlashMemory \<Rightarrow> UdsFlashMemory option" where
  "flash_fill a n v f =
     (if a + n \<le> UDS_FLASH_MAX_SIZE
      then Some (f\<lparr>fl_data := patch a (replicate n v) (fl_data f)\<rparr>)
      else None)"

definition flash_put :: "nat \<Rightarrow> u8 list \<Rightarrow> UdsFlashMemory \<Rightarrow> UdsFlashMemory option" where
  "flash_put a bs f =
     (if a + length bs \<le> UDS_FLASH_MAX_SIZE
      then Some (f\<lparr>fl_data := patch a bs (fl_data f)\<rparr>)
      else None)"

definition flash_get :: "nat \<Rightarrow> nat \<Rightarrow> UdsFlashMemory \<Rightarrow> u8 list option" where
  "flash_get a n f =
     (if a + n \<le> UDS_FLASH_MAX_SIZE then Some (map (fl_data f) [a..<a + n]) else None)"

section \<open>Operations\<close>

definition region_match :: "u32 \<Rightarrow> u32 \<Rightarrow> UdsFlashRegion \<Rightarrow> bool" where
  "region_match address len r \<longleftrightarrow> address \<ge> base_address r \<and> address - base_address r < rg_size r \<and>
     len \<le> rg_size r - (address - base_address r)"

text \<open>A region pointer is its index in the table.\<close>

definition find_region :: "UdsFlashMemory \<Rightarrow> u32 \<Rightarrow> u32 \<Rightarrow> nat option option" where
  "find_region flash address len =
     scan (region_match address len) (Some (fl_regions flash)) 0 (region_count flash)"

definition uds_flash_init ::
  "UdsFlashMemory ptr \<Rightarrow> UdsFlashRegion list ptr \<Rightarrow> nat \<Rightarrow> UdsFlashMemory ptr option" where
  "uds_flash_init pflash regions count =
     (case pflash of None \<Rightarrow> Some None
      | Some flash \<Rightarrow> do {
          flash \<leftarrow> flash_fill 0 UDS_FLASH_MAX_SIZE UDS_FLASH_ERASE_VALUE flash;
          let count = (if count > UDS_FLASH_MAX_REGIONS then UDS_FLASH_MAX_REGIONS else count);
          let flash = flash\<lparr>region_count := count\<rparr>;
          flash \<leftarrow> (if regions \<noteq> None \<and> count > 0 then do {
                      rs \<leftarrow> mem_cpy (Some (fl_regions flash)) 0 regions 0 count;
                      Some (flash\<lparr>fl_regions := rs\<rparr>) }
                    else Some flash);
          Some (Some (flash\<lparr>initialized := True\<rparr>)) })"

definition uds_flash_address_valid :: "UdsFlashMemory ptr \<Rightarrow> u32 \<Rightarrow> u32 \<Rightarrow> bool option" where
  "uds_flash_address_valid pflash address len =
     (case pflash of None \<Rightarrow> Some False
      | Some flash \<Rightarrow>
          if len = 0 then Some False
          else do { r \<leftarrow> find_region flash address len; Some (r \<noteq> None) })"

definition uds_flash_erase ::
  "UdsFlashMemory ptr \<Rightarrow> u32 \<Rightarrow> u32 \<Rightarrow> (UdsCoreError \<times> UdsFlashMemory ptr) option" where
  "uds_flash_erase pflash address len =
     (case pflash of None \<Rightarrow> Some (UDS_CORE_ERR_PARAM, None)
      | Some flash \<Rightarrow>
          if len = 0 then Some (UDS_CORE_ERR_PARAM, pflash)
          else do {
            found \<leftarrow> find_region flash address len;
            (case found of None \<Rightarrow> Some (UDS_CORE_ERR_NRC, pflash)
             | Some k \<Rightarrow> do {
                 r \<leftarrow> mem_get (Some (fl_regions flash)) k;
                 if protected r then Some (UDS_CORE_ERR_NRC, pflash)
                 else do {
                   flash \<leftarrow> flash_fill (unat address) (unat len) UDS_FLASH_ERASE_VALUE flash;
                   Some (UDS_CORE_OK, Some flash) } }) })"

text \<open>The range check sees \<open>(uint32_t)len\<close>, the copy the whole \<open>len\<close>.\<close>

definition uds_flash_write ::
  "UdsFlashMemory ptr \<Rightarrow> u32 \<Rightarrow> u8 list ptr \<Rightarrow> nat \<Rightarrow> (UdsCoreError \<times> UdsFlashMemory ptr) option" where
  "uds_flash_write pflash address data len =
     (case pflash of None \<Rightarrow> Some (UDS_CORE_ERR_PARAM, None)
      | Some flash \<Rightarrow>
          if data = None \<or> len = 0 then Some (UDS_CORE_ERR_PARAM, pflash)
          else do {
            found \<leftarrow> find_region flash address (of_nat len);
            (case found of None \<Rightarrow> Some (UDS_CORE_ERR_NRC, pflash)
             | Some k \<Rightarrow> do {
                 r \<leftarrow> mem_get (Some (fl_regions flash)) k;
                 if protected r then Some (UDS_CORE_ERR_NRC, pflash)
                 else do {
                   bs \<leftarrow> mem_read data 0 len;
                   flash \<leftarrow> flash_put (unat address) bs flash;
                   Some (UDS_CORE_OK, Some flash) } }) })"

text \<open>\<open>buf\<close> is a pointer into a buffer, at offset \<open>boff\<close>.\<close>

definition uds_flash_read ::
  "UdsFlashMemory ptr \<Rightarrow> u32 \<Rightarrow> u8 list ptr \<Rightarrow> nat \<Rightarrow> nat \<Rightarrow> (UdsCoreError \<times> u8 list ptr) option" where
  "uds_flash_read pflash address buf boff len =
     (case pflash of None \<Rightarrow> Some (UDS_CORE_ERR_PARAM, buf)
      | Some flash \<Rightarrow>
          if buf = None \<or> len = 0 then Some (UDS_CORE_ERR_PARAM, buf)
          else do {
            valid \<leftarrow> uds_flash_address_valid pflash address (of_nat len);
            if \<not> valid then Some (UDS_CORE_ERR_NRC, buf)
            else do {
              bs \<leftarrow> flash_get (unat address) len flash;
              b \<leftarrow> mem_put buf boff bs;
              Some (UDS_CORE_OK, Some b) } })"

section \<open>Ranges\<close>

text \<open>The regions in use, and the range check without modular arithmetic.\<close>

definition regions_of :: "UdsFlashMemory \<Rightarrow> UdsFlashRegion list" where
  "regions_of f = take (region_count f) (fl_regions f)"

definition in_region :: "nat \<Rightarrow> nat \<Rightarrow> UdsFlashRegion \<Rightarrow> bool" where
  "in_region a n r \<longleftrightarrow> unat (base_address r) \<le> a \<and> a < unat (base_address r) + unat (rg_size r) \<and>
     a + n \<le> unat (base_address r) + unat (rg_size r)"

lemma region_match_nat: "region_match a n r \<longleftrightarrow> in_region (unat a) (unat n) r"
proof (cases "base_address r \<le> a \<and> a - base_address r < rg_size r")
  case True
  then have le: "unat (base_address r) \<le> unat a" "base_address r \<le> a" "a - base_address r < rg_size r"
    by (simp_all add: word_le_nat_alt)
  have off: "unat (a - base_address r) = unat a - unat (base_address r)"
    using le(2) by (rule unat_sub)
  then have lt: "unat a - unat (base_address r) < unat (rg_size r)"
    using le(3) by (simp add: word_less_nat_alt)
  have "unat (rg_size r - (a - base_address r)) = unat (rg_size r) - (unat a - unat (base_address r))"
    using le(3) off by (simp add: unat_sub [OF order_less_imp_le])
  with True le(1) lt show ?thesis
    by (auto simp: region_match_def in_region_def word_le_nat_alt)
next
  case False
  then show ?thesis
    by (auto simp: region_match_def in_region_def word_le_nat_alt word_less_nat_alt unat_sub)
qed

lemma in_region_sub: "in_region a n r \<Longrightarrow> a \<le> a' \<Longrightarrow> a' + m \<le> a + n \<Longrightarrow> 0 < m \<Longrightarrow> in_region a' m r"
  by (simp add: in_region_def)

text \<open>The invariant: the table is in bounds and every region lies inside of the array.\<close>

definition flash_inv :: "UdsFlashMemory \<Rightarrow> bool" where
  "flash_inv f \<longleftrightarrow> region_count f \<le> length (fl_regions f) \<and>
     (\<forall>r \<in> set (regions_of f). unat (base_address r) + unat (rg_size r) \<le> UDS_FLASH_MAX_SIZE)"

lemma flash_inv_data [simp]: "flash_inv (f\<lparr>fl_data := d\<rparr>) = flash_inv f"
  by (simp add: flash_inv_def regions_of_def)

lemma regions_of_data [simp]: "regions_of (f\<lparr>fl_data := d\<rparr>) = regions_of f"
  by (simp add: regions_of_def)

lemma find_region_cases:
  assumes "flash_inv f"
  obtains (missing) "find_region f a n = Some None" "\<And>r. r \<in> set (regions_of f) \<Longrightarrow> \<not> in_region (unat a) (unat n) r"
  | (found) k where "find_region f a n = Some (Some k)" "k < length (fl_regions f)"
      "fl_regions f ! k \<in> set (regions_of f)" "in_region (unat a) (unat n) (fl_regions f ! k)"
      "unat a + unat n \<le> UDS_FLASH_MAX_SIZE"
proof -
  from assms have len: "region_count f \<le> length (fl_regions f)" by (simp add: flash_inv_def)
  from scan_find [OF len, of "region_match a n"] obtain r where
    r: "find_region f a n = Some r"
    "case r of None \<Rightarrow> find (region_match a n) (regions_of f) = None
     | Some k \<Rightarrow> k < region_count f \<and> region_match a n (fl_regions f ! k) \<and>
         find (region_match a n) (regions_of f) = Some (fl_regions f ! k)"
    unfolding find_region_def regions_of_def by blast
  show thesis
  proof (cases r)
    case None
    with r missing show thesis by (auto simp: find_None_iff region_match_nat)
  next
    case (Some k)
    with r have k: "k < region_count f" "in_region (unat a) (unat n) (fl_regions f ! k)"
      by (simp_all add: region_match_nat)
    with len have mem: "fl_regions f ! k \<in> set (regions_of f)"
      by (auto simp: regions_of_def in_set_conv_nth intro!: exI [of _ k])
    with assms k(2) have "unat a + unat n \<le> UDS_FLASH_MAX_SIZE"
      by (fastforce simp: flash_inv_def in_region_def)
    with r Some k mem len found show thesis by simp
  qed
qed

lemma map_patch [simp]: "map (patch a bs mem) [a..<a + length bs] = bs"
  by (auto simp: patch_def intro!: nth_equalityI)

lemma patch_outside: "i < a \<or> a + length bs \<le> i \<Longrightarrow> patch a bs mem i = mem i"
  by (auto simp: patch_def)

lemma patch_Nil [simp]: "patch a [] mem = mem"
  by (intro ext) (auto simp: patch_def)

lemma patch_append: "patch (a + length xs) ys (patch a xs mem) = patch a (xs @ ys) mem"
  by (auto simp: patch_def nth_append intro!: ext)

section \<open>The operations on valid ranges\<close>

lemma flash_write_cases:
  assumes "flash_inv f" "bs \<noteq> []" "length bs < 2 ^ 32"
  obtains (refused) "uds_flash_write (Some f) a (Some bs) (length bs) = Some (UDS_CORE_ERR_NRC, Some f)"
      "\<forall>r \<in> set (regions_of f). in_region (unat a) (length bs) r \<longrightarrow>
         (\<exists>r' \<in> set (regions_of f). in_region (unat a) (length bs) r' \<and> protected r')"
  | (written) r where "uds_flash_write (Some f) a (Some bs) (length bs) =
        Some (UDS_CORE_OK, Some (f\<lparr>fl_data := patch (unat a) bs (fl_data f)\<rparr>))"
      "r \<in> set (regions_of f)" "in_region (unat a) (length bs) r" "\<not> protected r"
      "unat a + length bs \<le> UDS_FLASH_MAX_SIZE"
proof -
  from assms(3) have n: "unat (of_nat (length bs) :: u32) = length bs" by (simp add: unat_of_nat)
  from assms(1) show thesis
  proof (cases rule: find_region_cases [where a = a and n = "of_nat (length bs)"])
    case missing
    with assms n refused show thesis by (auto simp: uds_flash_write_def)
  next
    case (found k)
    show thesis
    proof (cases "protected (fl_regions f ! k)")
      case True
      with found assms n refused show thesis by (auto simp: uds_flash_write_def mem_simps)
    next
      case False
      with found assms n written show thesis
        by (auto simp: uds_flash_write_def mem_simps flash_put_def)
    qed
  qed
qed

lemma flash_erase_cases:
  assumes "flash_inv f" "n \<noteq> 0"
  obtains (refused) "uds_flash_erase (Some f) a n = Some (UDS_CORE_ERR_NRC, Some f)"
      "\<forall>r \<in> set (regions_of f). in_region (unat a) (unat n) r \<longrightarrow>
         (\<exists>r' \<in> set (regions_of f). in_region (unat a) (unat n) r' \<and> protected r')"
  | (erased) r where "uds_flash_erase (Some f) a n =
        Some (UDS_CORE_OK, Some (f\<lparr>fl_data := patch (unat a) (replicate (unat n) 0xFF) (fl_data f)\<rparr>))"
      "r \<in> set (regions_of f)" "in_region (unat a) (unat n) r" "\<not> protected r"
      "unat a + unat n \<le> UDS_FLASH_MAX_SIZE"
  using assms(1)
proof (cases rule: find_region_cases [where a = a and n = n])
  case missing
  with assms refused show thesis by (auto simp: uds_flash_erase_def)
next
  case (found k)
  show thesis
  proof (cases "protected (fl_regions f ! k)")
    case True
    with found assms refused show thesis by (auto simp: uds_flash_erase_def mem_simps)
  next
    case False
    with found assms erased show thesis
      by (auto simp: uds_flash_erase_def mem_simps flash_fill_def UDS_FLASH_ERASE_VALUE_def)
  qed
qed

text \<open>A byte that belongs to protected regions only is out of reach of both operations.\<close>

definition protected_byte :: "UdsFlashMemory \<Rightarrow> nat \<Rightarrow> bool" where
  "protected_byte f i \<longleftrightarrow> (\<forall>r \<in> set (regions_of f). in_region i 1 r \<longrightarrow> protected r)"

lemma protected_byte_data [simp]: "protected_byte (f\<lparr>fl_data := d\<rparr>) = protected_byte f"
  by (intro ext) (simp add: protected_byte_def)

lemma patch_protected_byte:
  assumes "r \<in> set (regions_of f)" "in_region a (length bs) r" "\<not> protected r" "protected_byte f i"
  shows "patch a bs mem i = mem i"
proof (rule patch_outside, rule ccontr)
  assume "\<not> (i < a \<or> a + length bs \<le> i)"
  then have "in_region i 1 r" using in_region_sub [OF assms(2), of i 1] by simp
  with assms show False by (auto simp: protected_byte_def)
qed

definition flash_readable :: "UdsFlashMemory \<Rightarrow> nat \<Rightarrow> nat \<Rightarrow> bool" where
  "flash_readable f a n \<longleftrightarrow> (\<exists>r \<in> set (regions_of f). in_region a n r)"

lemma flash_readable_data [simp]: "flash_readable (f\<lparr>fl_data := d\<rparr>) = flash_readable f"
  by (intro ext) (simp add: flash_readable_def)

lemma address_valid_eq:
  assumes "flash_inv f"
  shows "uds_flash_address_valid (Some f) a n = Some (n \<noteq> 0 \<and> flash_readable f (unat a) (unat n))"
  using assms
proof (cases rule: find_region_cases [where a = a and n = n])
  case missing
  then show ?thesis by (auto simp: uds_flash_address_valid_def flash_readable_def)
next
  case (found k)
  then show ?thesis by (auto simp: uds_flash_address_valid_def flash_readable_def)
qed

lemma flash_readable_bound: "flash_inv f \<Longrightarrow> flash_readable f a n \<Longrightarrow> a + n \<le> UDS_FLASH_MAX_SIZE"
  by (fastforce simp: flash_readable_def flash_inv_def in_region_def)

lemma flash_read_eq:
  assumes "flash_inv f" "0 < n" "n < 2 ^ 32" "boff + n \<le> length b"
  shows "uds_flash_read (Some f) a (Some b) boff n =
    (if flash_readable f (unat a) n
     then Some (UDS_CORE_OK, Some (splice boff (map (fl_data f) [unat a..<unat a + n]) b))
     else Some (UDS_CORE_ERR_NRC, Some b))"
proof -
  from assms(3) have "unat (of_nat n :: u32) = n" by (simp add: unat_of_nat)
  moreover from this assms(2) have "(of_nat n :: u32) \<noteq> 0" by auto
  ultimately show ?thesis
    using assms flash_readable_bound [OF assms(1), of "unat a" n]
    by (auto simp: uds_flash_read_def address_valid_eq flash_get_def mem_simps)
qed

text \<open>
  A range that can be programmed piecewise: it lies in an unprotected region and no protected
  region touches it. Then every non-empty part of it is accepted whatever region comes first.
\<close>

definition flash_programmable :: "UdsFlashMemory \<Rightarrow> nat \<Rightarrow> nat \<Rightarrow> bool" where
  "flash_programmable f a n \<longleftrightarrow>
     (\<exists>r \<in> set (regions_of f). in_region a n r \<and> \<not> protected r) \<and>
     (\<forall>r \<in> set (regions_of f). protected r \<longrightarrow>
        unat (base_address r) + unat (rg_size r) \<le> a \<or> a + n \<le> unat (base_address r) \<or> rg_size r = 0)"

lemma flash_programmable_data [simp]: "flash_programmable (f\<lparr>fl_data := d\<rparr>) = flash_programmable f"
  by (intro ext) (simp add: flash_programmable_def)

lemma programmable_accepts:
  assumes "flash_programmable f a n" "0 < n"
  shows "\<exists>r \<in> set (regions_of f). in_region a n r"
    "r \<in> set (regions_of f) \<Longrightarrow> in_region a n r \<Longrightarrow> \<not> protected r"
  using assms by (force simp: flash_programmable_def in_region_def)+

section \<open>The flash interface\<close>

text \<open>
  What the transfer services rely on. \<open>cell f i\<close> is the content of the device at address \<open>i\<close>;
  \<open>can_read\<close> and \<open>can_write\<close> say which ranges the device accepts.
\<close>

locale flash_device =
  fixes inv :: "'f \<Rightarrow> bool"
    and cell :: "'f \<Rightarrow> nat \<Rightarrow> u8"
    and can_read :: "'f \<Rightarrow> nat \<Rightarrow> nat \<Rightarrow> bool"
    and can_write :: "'f \<Rightarrow> nat \<Rightarrow> nat \<Rightarrow> bool"
    and erase :: "'f ptr \<Rightarrow> u32 \<Rightarrow> u32 \<Rightarrow> (UdsCoreError \<times> 'f ptr) option"
    and program :: "'f ptr \<Rightarrow> u32 \<Rightarrow> u8 list ptr \<Rightarrow> nat \<Rightarrow> (UdsCoreError \<times> 'f ptr) option"
    and fetch :: "'f ptr \<Rightarrow> u32 \<Rightarrow> u8 list ptr \<Rightarrow> nat \<Rightarrow> nat \<Rightarrow> (UdsCoreError \<times> u8 list ptr) option"
  assumes bound: "inv f \<Longrightarrow> can_read f a n \<Longrightarrow> a + n \<le> UDS_FLASH_MAX_SIZE"
    and readable: "can_write f a n \<Longrightarrow> can_read f a n"
    and sub_read: "can_read f a n \<Longrightarrow> a \<le> a' \<Longrightarrow> a' + m \<le> a + n \<Longrightarrow> 0 < m \<Longrightarrow> can_read f a' m"
    and sub_write: "can_write f a n \<Longrightarrow> a \<le> a' \<Longrightarrow> a' + m \<le> a + n \<Longrightarrow> 0 < m \<Longrightarrow> can_write f a' m"
    and erase_law: "inv f \<Longrightarrow> can_write f (unat w) (unat k) \<Longrightarrow> k \<noteq> 0 \<Longrightarrow>
      \<exists>f'. erase (Some f) w k = Some (UDS_CORE_OK, Some f') \<and> inv f' \<and>
        can_read f' = can_read f \<and> can_write f' = can_write f \<and>
        cell f' = patch (unat w) (replicate (unat k) UDS_FLASH_ERASE_VALUE) (cell f)"
    and write_law: "inv f \<Longrightarrow> can_write f (unat w) (length bs) \<Longrightarrow> bs \<noteq> [] \<Longrightarrow>
      \<exists>f'. program (Some f) w (Some bs) (length bs) = Some (UDS_CORE_OK, Some f') \<and> inv f' \<and>
        can_read f' = can_read f \<and> can_write f' = can_write f \<and>
        cell f' = patch (unat w) bs (cell f)"
    and read_law: "inv f \<Longrightarrow> can_read f (unat w) n \<Longrightarrow> 0 < n \<Longrightarrow> boff + n \<le> length b \<Longrightarrow>
      fetch (Some f) w (Some b) boff n =
        Some (UDS_CORE_OK, Some (splice boff (map (cell f) [unat w..<unat w + n]) b))"
begin

lemma write_then_read:
  assumes "inv f" "can_write f (unat a) (length bs)" "bs \<noteq> []" "boff + length bs \<le> length b"
  shows "\<exists>f'. program (Some f) a (Some bs) (length bs) = Some (UDS_CORE_OK, Some f') \<and> inv f' \<and>
    fetch (Some f') a (Some b) boff (length bs) = Some (UDS_CORE_OK, Some (splice boff bs b)) \<and>
    (\<forall>i. i < unat a \<or> unat a + length bs \<le> i \<longrightarrow> cell f' i = cell f i)"
proof -
  from write_law [OF assms(1-3)] obtain f' where
    f': "program (Some f) a (Some bs) (length bs) = Some (UDS_CORE_OK, Some f')" "inv f'"
      "can_read f' = can_read f" "cell f' = patch (unat a) bs (cell f)" by blast
  have "can_read f' (unat a) (length bs)" using readable [OF assms(2)] f'(3) by simp
  from read_law [OF f'(2) this _ assms(4)] assms(3) f'(4)
  have "fetch (Some f') a (Some b) boff (length bs) = Some (UDS_CORE_OK, Some (splice boff bs b))" by simp
  with f' show ?thesis by (auto intro: patch_outside)
qed

text \<open>Two adjacent writes are one write of the concatenation.\<close>

lemma write_adjacent:
  assumes "inv f" "can_write f (unat a) (length xs + length ys)" "xs \<noteq> []" "ys \<noteq> []"
  shows "\<exists>f1 f2. program (Some f) a (Some xs) (length xs) = Some (UDS_CORE_OK, Some f1) \<and>
    program (Some f1) (a + of_nat (length xs)) (Some ys) (length ys) = Some (UDS_CORE_OK, Some f2) \<and> inv f2 \<and>
    can_read f2 = can_read f \<and> can_write f2 = can_write f \<and> cell f2 = patch (unat a) (xs @ ys) (cell f)"
proof -
  have "unat a + (length xs + length ys) \<le> UDS_FLASH_MAX_SIZE"
    using bound [OF assms(1) readable [OF assms(2)]] .
  then have addr: "unat (a + of_nat (length xs)) = unat a + length xs"
    by (simp add: unat_word_ariths(1) unat_of_nat UDS_FLASH_MAX_SIZE_def)
  have x: "can_write f (unat a) (length xs)" using sub_write [OF assms(2)] assms(3) by simp
  have y: "can_write f (unat a + length xs) (length ys)" using sub_write [OF assms(2)] assms(4) by simp
  from write_law [OF assms(1) x assms(3)] obtain f1 where
    f1: "program (Some f) a (Some xs) (length xs) = Some (UDS_CORE_OK, Some f1)" "inv f1"
      "can_read f1 = can_read f" "can_write f1 = can_write f" "cell f1 = patch (unat a) xs (cell f)" by blast
  with y addr have "can_write f1 (unat (a + of_nat (length xs))) (length ys)" by simp
  from write_law [OF f1(2) this assms(4)] f1 show ?thesis by (auto simp: addr patch_append)
qed

end

lemma flash_range_small: "flash_inv f \<Longrightarrow> flash_readable f a n \<Longrightarrow> n < 2 ^ 32"
  using flash_readable_bound [of f a n] by (simp add: UDS_FLASH_MAX_SIZE_def)

interpretation flash: flash_device flash_inv fl_data flash_readable flash_programmable
  uds_flash_erase uds_flash_write uds_flash_read
proof
  fix f a n
  assume "flash_inv f" "flash_readable f a n"
  then show "a + n \<le> UDS_FLASH_MAX_SIZE" by (rule flash_readable_bound)
next
  fix f a n a' m
  show "flash_readable f a n \<Longrightarrow> a \<le> a' \<Longrightarrow> a' + m \<le> a + n \<Longrightarrow> 0 < m \<Longrightarrow> flash_readable f a' m"
    unfolding flash_readable_def using in_region_sub by blast
  show "flash_programmable f a n \<Longrightarrow> a \<le> a' \<Longrightarrow> a' + m \<le> a + n \<Longrightarrow> 0 < m \<Longrightarrow> flash_programmable f a' m"
    unfolding flash_programmable_def using in_region_sub
    by (meson add_le_mono le_trans order_refl)
  show readable: "flash_readable f a n" if "flash_programmable f a n" for f a n
    using that by (auto simp: flash_programmable_def flash_readable_def)
  fix a n :: u32
  assume f: "flash_inv f" "flash_programmable f (unat a) (unat n)" "n \<noteq> 0"
  then have "0 < unat n" by (simp add: unat_gt_0)
  from f(1,3) show "\<exists>f'. uds_flash_erase (Some f) a n = Some (UDS_CORE_OK, Some f') \<and> flash_inv f' \<and>
      flash_readable f' = flash_readable f \<and> flash_programmable f' = flash_programmable f \<and>
      fl_data f' = patch (unat a) (replicate (unat n) UDS_FLASH_ERASE_VALUE) (fl_data f)"
  proof (cases rule: flash_erase_cases [where a = a])
    case refused
    with programmable_accepts [OF f(2) \<open>0 < unat n\<close>] show ?thesis by blast
  qed (use f in \<open>simp add: UDS_FLASH_ERASE_VALUE_def\<close>)
next
  fix f and a :: u32 and bs :: "u8 list"
  assume f: "flash_inv f" "flash_programmable f (unat a) (length bs)" "bs \<noteq> []"
  then have "flash_readable f (unat a) (length bs)" by (auto simp: flash_programmable_def flash_readable_def)
  with f(1) have "length bs < 2 ^ 32" by (rule flash_range_small)
  from f(1,3) this show "\<exists>f'. uds_flash_write (Some f) a (Some bs) (length bs) = Some (UDS_CORE_OK, Some f') \<and>
      flash_inv f' \<and> flash_readable f' = flash_readable f \<and> flash_programmable f' = flash_programmable f \<and>
      fl_data f' = patch (unat a) bs (fl_data f)"
  proof (cases rule: flash_write_cases [where a = a])
    case refused
    with programmable_accepts [OF f(2)] f(3) show ?thesis by blast
  qed (use f in simp)
next
  fix f and a :: u32 and n boff :: nat and b :: "u8 list"
  assume "flash_inv f" "flash_readable f (unat a) n" "0 < n" "boff + n \<le> length b"
  then show "uds_flash_read (Some f) a (Some b) boff n =
      Some (UDS_CORE_OK, Some (splice boff (map (fl_data f) [unat a..<unat a + n]) b))"
    using flash_range_small by (simp add: flash_read_eq)
qed

section \<open>Initialisation\<close>

lemma flash_init_eq:
  assumes "length (fl_regions f) = UDS_FLASH_MAX_REGIONS" "count \<le> UDS_FLASH_MAX_REGIONS" "count \<le> length rs"
  shows "uds_flash_init (Some f) (Some rs) count = Some (Some (f\<lparr>
    fl_data := patch 0 (replicate UDS_FLASH_MAX_SIZE 0xFF) (fl_data f),
    fl_regions := splice 0 (take count rs) (fl_regions f), region_count := count, initialized := True\<rparr>))"
  using assms by (cases "count = 0")
    (simp_all add: uds_flash_init_def flash_fill_def UDS_FLASH_ERASE_VALUE_def mem_cpy_def mem_simps)

lemma flash_init_inv:
  assumes "length (fl_regions f) = UDS_FLASH_MAX_REGIONS" "count \<le> UDS_FLASH_MAX_REGIONS" "count \<le> length rs"
    "\<forall>r \<in> set (take count rs). unat (base_address r) + unat (rg_size r) \<le> UDS_FLASH_MAX_SIZE"
  shows "\<exists>f'. uds_flash_init (Some f) (Some rs) count = Some (Some f') \<and> flash_inv f' \<and>
    regions_of f' = take count rs \<and> (\<forall>i < UDS_FLASH_MAX_SIZE. fl_data f' i = 0xFF)"
  using assms
  by (simp add: flash_init_eq flash_inv_def regions_of_def patch_def splice_def)

section \<open>Properties\<close>

text \<open>
  C28. A flash write never leaves the array and is exact: for any non-empty data below 4 GB it is
  accepted only inside one unprotected region, then a read of the same range returns the data;
  bytes outside of the range, and every byte that belongs to protected regions only, keep their
  value; a refused write changes nothing.
\<close>

theorem flash_write_exact:
  assumes "flash_inv f" "bs \<noteq> []" "length bs < 2 ^ 32" "boff + length bs \<le> length b"
  shows "\<exists>rc f'. uds_flash_write (Some f) a (Some bs) (length bs) = Some (rc, Some f') \<and> flash_inv f' \<and>
    (rc = UDS_CORE_OK \<longrightarrow>
       (\<exists>r \<in> set (regions_of f). in_region (unat a) (length bs) r \<and> \<not> protected r) \<and>
       uds_flash_read (Some f') a (Some b) boff (length bs) = Some (UDS_CORE_OK, Some (splice boff bs b))) \<and>
    (rc \<noteq> UDS_CORE_OK \<longrightarrow> f' = f) \<and>
    (\<forall>i. i < unat a \<or> unat a + length bs \<le> i \<longrightarrow> fl_data f' i = fl_data f i) \<and>
    (\<forall>i. protected_byte f i \<longrightarrow> fl_data f' i = fl_data f i)"
  using assms(1-3)
proof (cases rule: flash_write_cases [where a = a])
  case refused
  with assms(1) show ?thesis by auto
next
  case (written r)
  let ?f = "f\<lparr>fl_data := patch (unat a) bs (fl_data f)\<rparr>"
  have "flash_readable f (unat a) (length bs)" using written(2,3) by (auto simp: flash_readable_def)
  with assms have "uds_flash_read (Some ?f) a (Some b) boff (length bs) = Some (UDS_CORE_OK, Some (splice boff bs b))"
    by (simp add: flash_read_eq)
  moreover have "protected_byte f i \<Longrightarrow> patch (unat a) bs (fl_data f) i = fl_data f i" for i
    using patch_protected_byte [OF written(2-4)] .
  ultimately show ?thesis using written assms(1) by (auto intro: patch_outside)
qed

text \<open>One open and one protected region; the first write is accepted, the second refused.\<close>

definition demo_flash :: UdsFlashMemory where
  "demo_flash = \<lparr>fl_data = (\<lambda>_. 0xFF), fl_regions =
     [\<lparr>base_address = 0, rg_size = 0x1000, protected = False\<rparr>,
      \<lparr>base_address = 0x1000, rg_size = 0x1000, protected = True\<rparr>], region_count = 2, initialized = True\<rparr>"

lemma demo_flash_inv: "flash_inv demo_flash"
  by (simp add: flash_inv_def regions_of_def demo_flash_def UDS_FLASH_MAX_SIZE_def)

theorem flash_write_exact_witness:
  "\<exists>f'. uds_flash_write (Some demo_flash) 0x10 (Some [1, 2, 3]) 3 = Some (UDS_CORE_OK, Some f') \<and>
     uds_flash_read (Some f') 0x10 (Some [9, 9, 9, 9]) 1 3 = Some (UDS_CORE_OK, Some [9, 1, 2, 3])"
proof -
  have "\<exists>f'. uds_flash_write (Some demo_flash) 0x10 (Some [1, 2, 3]) 3 = Some (UDS_CORE_OK, Some f')"
    by (simp add: uds_flash_write_def find_region_def scan.simps region_match_def demo_flash_def
        mem_simps mem_get_def flash_put_def UDS_FLASH_MAX_SIZE_def)
  with flash_write_exact [OF demo_flash_inv, where bs = "[1, 2, 3]" and a = "0x10" and b = "[9, 9, 9, 9]" and boff = 1]
  show ?thesis by (auto simp: splice_def numeral_3_eq_3)
qed

text \<open>
  The length check sees only the low 32 bits of \<open>len\<close>: with a byte count of \<open>2 ^ 32 + 1\<close> a one-byte
  range passes the check and the copy leaves the array.
\<close>

lemma flash_write_truncated_length:
  assumes "length bs = 2 ^ 32 + 1"
  shows "uds_flash_write (Some demo_flash) 0 (Some bs) (length bs) = None"
proof -
  have "(of_nat (length bs) :: u32) = 1" by (simp add: assms)
  moreover have "length bs \<noteq> 0" "\<not> length bs \<le> UDS_FLASH_MAX_SIZE"
    using assms by (simp_all add: UDS_FLASH_MAX_SIZE_def)
  ultimately show ?thesis
    by (simp add: uds_flash_write_def find_region_def scan.simps region_match_def demo_flash_def
        mem_simps mem_get_def flash_put_def)
qed

end
