(* ===== verification/FlashServices.thy ===== *)
theory FlashServices
  imports Flash
begin

text \<open>
  The flash programming services, \<open>src/bootloader/flash_services.c\<close>: RequestDownload (0x34),
  RequestUpload (0x35), TransferData (0x36) and RequestTransferExit (0x37) over one transfer
  session, with the flash memory behind the interface \<open>flash_device\<close>.
\<close>

section \<open>State\<close>

datatype UdsXferMode = UDS_XFER_IDLE | UDS_XFER_DOWNLOAD | UDS_XFER_UPLOAD

record UdsXferSession =
  xf_mode :: UdsXferMode
  xf_address :: u32
  total_length :: u32
  transferred :: u32
  block_seq :: u8
  max_block_size :: u16

definition FLASH_MAX_BLOCK_DATA :: nat where
  "FLASH_MAX_BLOCK_DATA = 15"

definition zero_xfer :: UdsXferSession where
  "zero_xfer = \<lparr>xf_mode = UDS_XFER_IDLE, xf_address = 0, total_length = 0, transferred = 0,
     block_seq = 0, max_block_size = 0\<rparr>"

definition uds_xfer_init :: "UdsXferSession ptr \<Rightarrow> UdsXferSession ptr" where
  "uds_xfer_init px = (case px of None \<Rightarrow> None | Some _ \<Rightarrow> Some zero_xfer)"

text \<open>The session as both requests set it up, and the successor of a block counter.\<close>

definition begin_xfer :: "UdsXferMode \<Rightarrow> u32 \<Rightarrow> u32 \<Rightarrow> UdsXferSession" where
  "begin_xfer mode address mem_size = \<lparr>xf_mode = mode, xf_address = address, total_length = mem_size,
     transferred = 0, block_seq = 0x01, max_block_size = of_nat FLASH_MAX_BLOCK_DATA\<rparr>"

definition next_seq :: "u8 \<Rightarrow> u8" where
  "next_seq q = (if q = 0xFF then 0x01 else q + 1)"

section \<open>Parsing the address and length field\<close>

function be_loop :: "u8 list ptr \<Rightarrow> nat \<Rightarrow> nat \<Rightarrow> nat \<Rightarrow> u32 \<Rightarrow> u32 option" where
  "be_loop data off i n acc =
     (if i < n then do {
        byte \<leftarrow> mem_get data (off + i);
        be_loop data off (Suc i) n (push_bit 8 acc OR ucast byte) }
      else Some acc)"
  by pat_completeness auto
termination
  by (relation "measure (\<lambda>(data, off, i, n, acc). n - i)") auto

declare be_loop.simps [simp del]

definition parse_addr_len_fmt :: "u8 \<Rightarrow> u8 list ptr \<Rightarrow> nat \<Rightarrow> (u32 \<times> u32) option option" where
  "parse_addr_len_fmt fmt data data_len =
     (let addr_bytes = fmt AND 0x0F; size_bytes = drop_bit 4 fmt AND 0x0F
      in if addr_bytes < 1 \<or> addr_bytes > 4 \<or> size_bytes < 1 \<or> size_bytes > 4 then Some None
         else if data_len < unat addr_bytes + unat size_bytes then Some None
         else do {
           address \<leftarrow> be_loop data 0 0 (unat addr_bytes) 0;
           mem_size \<leftarrow> be_loop data (unat addr_bytes) 0 (unat size_bytes) 0;
           Some (Some (address, mem_size)) })"

section \<open>The services\<close>

type_synonym xfer_state = "UdsXferSession ptr \<times> UdsFlashMemory ptr"

definition uds_svc_request_download ::
  "u8 \<Rightarrow> u8 list ptr \<Rightarrow> nat \<Rightarrow> xfer_state \<Rightarrow> nat \<Rightarrow> outp \<Rightarrow> xfer_state result" where
  "uds_svc_request_download fmt data data_len st resp_size out =
     (case st of (px, pf) \<Rightarrow>
      (case px of None \<Rightarrow> Some (UDS_CORE_ERR_PARAM, st, out)
       | Some xfer \<Rightarrow>
           if pf = None \<or> data = None \<or> null_out out then Some (UDS_CORE_ERR_PARAM, st, out)
           else if xf_mode xfer \<noteq> UDS_XFER_IDLE then ret_nrc UDS_NRC_CONDITIONS_NOT_CORRECT st out
           else do {
             parsed \<leftarrow> parse_addr_len_fmt fmt data data_len;
             (case parsed of None \<Rightarrow> ret_nrc UDS_NRC_INCORRECT_MSG_LEN_OR_FORMAT st out
              | Some (address, mem_size) \<Rightarrow> do {
                  valid \<leftarrow> uds_flash_address_valid pf address mem_size;
                  if \<not> valid then ret_nrc UDS_NRC_REQUEST_OUT_OF_RANGE st out
                  else do {
                    (rc, pf) \<leftarrow> uds_flash_erase pf address mem_size;
                    if rc \<noteq> UDS_CORE_OK then ret_nrc UDS_NRC_GENERAL_PROGRAMMING_FAILURE (px, pf) out
                    else if resp_size < 4 then Some (UDS_CORE_ERR_BUF, (px, pf), out)
                    else ret_ok [0x74, 0x20, 0x00, of_nat FLASH_MAX_BLOCK_DATA]
                           (Some (begin_xfer UDS_XFER_DOWNLOAD address mem_size), pf) out } }) }))"

definition uds_svc_request_upload ::
  "u8 \<Rightarrow> u8 list ptr \<Rightarrow> nat \<Rightarrow> xfer_state \<Rightarrow> nat \<Rightarrow> outp \<Rightarrow> xfer_state result" where
  "uds_svc_request_upload fmt data data_len st resp_size out =
     (case st of (px, pf) \<Rightarrow>
      (case px of None \<Rightarrow> Some (UDS_CORE_ERR_PARAM, st, out)
       | Some xfer \<Rightarrow>
           if pf = None \<or> data = None \<or> null_out out then Some (UDS_CORE_ERR_PARAM, st, out)
           else if xf_mode xfer \<noteq> UDS_XFER_IDLE then ret_nrc UDS_NRC_CONDITIONS_NOT_CORRECT st out
           else do {
             parsed \<leftarrow> parse_addr_len_fmt fmt data data_len;
             (case parsed of None \<Rightarrow> ret_nrc UDS_NRC_INCORRECT_MSG_LEN_OR_FORMAT st out
              | Some (address, mem_size) \<Rightarrow> do {
                  valid \<leftarrow> uds_flash_address_valid pf address mem_size;
                  if \<not> valid then ret_nrc UDS_NRC_REQUEST_OUT_OF_RANGE st out
                  else if resp_size < 4 then Some (UDS_CORE_ERR_BUF, st, out)
                  else ret_ok [0x75, 0x20, 0x00, of_nat FLASH_MAX_BLOCK_DATA]
                         (Some (begin_xfer UDS_XFER_UPLOAD address mem_size), pf) out }) }))"

text \<open>The download branch writes before it looks at \<open>resp_size\<close>, as the code does.\<close>

definition uds_svc_transfer_data ::
  "u8 \<Rightarrow> u8 list ptr \<Rightarrow> nat \<Rightarrow> xfer_state \<Rightarrow> nat \<Rightarrow> outp \<Rightarrow> xfer_state result" where
  "uds_svc_transfer_data seq data data_len st resp_size out =
     (case st of (px, pf) \<Rightarrow>
      (case px of None \<Rightarrow> Some (UDS_CORE_ERR_PARAM, st, out)
       | Some xfer \<Rightarrow>
           if pf = None \<or> null_out out then Some (UDS_CORE_ERR_PARAM, st, out)
           else if xf_mode xfer = UDS_XFER_IDLE then ret_nrc UDS_NRC_CONDITIONS_NOT_CORRECT st out
           else if seq \<noteq> block_seq xfer then ret_nrc UDS_NRC_WRONG_BLOCK_SEQUENCE_COUNTER st out
           else if xf_mode xfer = UDS_XFER_DOWNLOAD then
             (if data = None \<or> data_len = 0 then Some (UDS_CORE_ERR_PARAM, st, out)
              else
                let remaining = total_length xfer - transferred xfer in
                if (of_nat data_len :: u32) > remaining
                then ret_nrc UDS_NRC_TRANSFER_DATA_SUSPENDED st out
                else do {
                  let dest = xf_address xfer + transferred xfer;
                  (rc, pf) \<leftarrow> uds_flash_write pf dest data data_len;
                  if rc \<noteq> UDS_CORE_OK then ret_nrc UDS_NRC_GENERAL_PROGRAMMING_FAILURE (px, pf) out
                  else do {
                    let xfer = xfer\<lparr>transferred := transferred xfer + of_nat data_len\<rparr>;
                    if resp_size < 2 then Some (UDS_CORE_ERR_BUF, (Some xfer, pf), out)
                    else ret_ok [0x76, seq] (Some (xfer\<lparr>block_seq := next_seq (block_seq xfer)\<rparr>), pf) out } })
           else
             (let remaining = total_length xfer - transferred xfer;
                  to_read = (if remaining < ucast (max_block_size xfer) then remaining
                             else ucast (max_block_size xfer))
              in if resp_size < unat (2 + to_read :: u32) then Some (UDS_CORE_ERR_BUF, st, out)
                 else do {
                   let src = xf_address xfer + transferred xfer;
                   (rc, resp) \<leftarrow> uds_flash_read pf src (o_resp out) 2 (unat to_read);
                   if rc \<noteq> UDS_CORE_OK
                   then ret_nrc UDS_NRC_GENERAL_PROGRAMMING_FAILURE st (out\<lparr>o_resp := resp\<rparr>)
                   else do {
                     let xfer = xfer\<lparr>transferred := transferred xfer + to_read\<rparr>;
                     out \<leftarrow> put_resp 0 [0x76, seq] (out\<lparr>o_resp := resp\<rparr>);
                     out \<leftarrow> set_resp_len (2 + unat to_read) out;
                     Some (UDS_CORE_OK,
                       (Some (xfer\<lparr>block_seq := next_seq (block_seq xfer)\<rparr>), pf), out) } })))"

definition uds_svc_transfer_exit :: "UdsXferSession ptr \<Rightarrow> nat \<Rightarrow> outp \<Rightarrow> UdsXferSession ptr result" where
  "uds_svc_transfer_exit px resp_size out =
     (case px of None \<Rightarrow> Some (UDS_CORE_ERR_PARAM, px, out)
      | Some xfer \<Rightarrow>
          if null_out out then Some (UDS_CORE_ERR_PARAM, px, out)
          else if xf_mode xfer = UDS_XFER_IDLE then ret_nrc UDS_NRC_CONDITIONS_NOT_CORRECT px out
          else if resp_size < 1 then Some (UDS_CORE_ERR_BUF, px, out)
          else ret_ok [0x77] (Some zero_xfer) out)"

section \<open>The parser\<close>

text \<open>The \<open>n\<close> low bytes of a word, most significant first.\<close>

primrec be_bytes :: "nat \<Rightarrow> u32 \<Rightarrow> u8 list" where
  "be_bytes 0 v = []"
| "be_bytes (Suc n) v = byte_of n v # be_bytes n v"

lemma length_be_bytes [simp]: "length (be_bytes n v) = n"
  by (induction n) simp_all

lemma be_loop_eq:
  assumes "off + n \<le> length d" "i \<le> n"
  shows "be_loop (Some d) off i n acc =
    Some (foldl (\<lambda>a b. push_bit 8 a OR ucast b) acc (take (n - i) (drop (off + i) d)))"
  using assms
proof (induction "n - i" arbitrary: i acc)
  case 0
  then show ?case by (simp add: be_loop.simps)
next
  case (Suc k)
  then have i: "i < n" "off + i < length d" by simp_all
  then have "take (n - i) (drop (off + i) d) = d ! (off + i) # take (n - Suc i) (drop (off + Suc i) d)"
    by (simp add: Cons_nth_drop_Suc [symmetric] take_Cons')
  with Suc i show ?case
    by (subst be_loop.simps) (simp add: mem_simps)
qed

lemma foldl_be_bytes:
  "foldl (\<lambda>a b. push_bit 8 a OR ucast b) acc (be_bytes n v) = (push_bit (8 * n) acc OR take_bit (8 * n) v :: u32)"
proof (induction n arbitrary: acc)
  case (Suc n)
  have "push_bit (8 * n) (push_bit 8 acc OR ucast (byte_of n v)) OR take_bit (8 * n) v =
      push_bit (8 * Suc n) acc OR take_bit (8 * Suc n) v"
    by (rule bit_word_eqI) (auto simp: bit_simps byte_of_def add.commute)
  with Suc show ?case by simp
qed simp

lemma parse_total:
  "data_len \<le> length d \<Longrightarrow> \<exists>r. parse_addr_len_fmt fmt (Some d) data_len = Some r"
  by (auto simp: parse_addr_len_fmt_def Let_def be_loop_eq)

section \<open>The invariant of a transfer\<close>

text \<open>
  While a transfer is open its whole range lies in one flash region, no more than the announced
  length has been transferred, the block counter is never zero and the block size is 15.
\<close>

definition xfer_inv :: "UdsFlashMemory \<Rightarrow> UdsXferSession \<Rightarrow> bool" where
  "xfer_inv f x \<longleftrightarrow> (xf_mode x \<noteq> UDS_XFER_IDLE \<longrightarrow>
     transferred x \<le> total_length x \<and> block_seq x \<noteq> 0 \<and> max_block_size x = 15 \<and> total_length x \<noteq> 0 \<and>
     flash_readable f (unat (xf_address x)) (unat (total_length x)))"

definition xfer_state_inv :: "xfer_state \<Rightarrow> bool" where
  "xfer_state_inv st \<longleftrightarrow> (case st of (px, pf) \<Rightarrow>
     (\<forall>f. pf = Some f \<longrightarrow> flash_inv f \<and> (\<forall>x. px = Some x \<longrightarrow> xfer_inv f x)))"

lemma xfer_inv_zero [simp]: "xfer_inv f zero_xfer"
  by (simp add: xfer_inv_def zero_xfer_def)

lemma xfer_state_inv_simps [simp]:
  "xfer_state_inv (None, Some f) \<longleftrightarrow> flash_inv f" "xfer_state_inv (px, None)"
  "xfer_state_inv (Some x, Some f) \<longleftrightarrow> flash_inv f \<and> xfer_inv f x"
  by (auto simp: xfer_state_inv_def)

lemma xfer_inv_data [simp]: "xfer_inv (f\<lparr>fl_data := d\<rparr>) x = xfer_inv f x"
  by (simp add: xfer_inv_def)

lemma xfer_inv_begin:
  "flash_readable f (unat a) (unat n) \<Longrightarrow> n \<noteq> 0 \<Longrightarrow> xfer_inv f (begin_xfer m a n)"
  by (simp add: xfer_inv_def begin_xfer_def FLASH_MAX_BLOCK_DATA_def)

lemma next_seq_nonzero: "next_seq q \<noteq> 0"
proof -
  have "q + 1 = 0 \<Longrightarrow> q = 0xFF" using add_eq_0_iff2 [of q 1] by simp
  then show ?thesis by (auto simp: next_seq_def)
qed

text \<open>What a service may do to the flash: the region table stays, protected bytes stay.\<close>

definition flash_frame :: "UdsFlashMemory \<Rightarrow> UdsFlashMemory \<Rightarrow> bool" where
  "flash_frame f f' \<longleftrightarrow> regions_of f' = regions_of f \<and> (\<forall>i. protected_byte f i \<longrightarrow> fl_data f' i = fl_data f i)"

lemma flash_frame_refl [simp]: "flash_frame f f"
  by (simp add: flash_frame_def)

lemma flash_frame_patch:
  "r \<in> set (regions_of f) \<Longrightarrow> in_region a (length bs) r \<Longrightarrow> \<not> protected r \<Longrightarrow>
   flash_frame f (f\<lparr>fl_data := patch a bs (fl_data f)\<rparr>)"
  by (simp add: flash_frame_def patch_protected_byte)

text \<open>A service over the pair of pointers.\<close>

lemma uds_service_xferI:
  assumes null: "\<And>px pf n out. px = None \<or> pf = None \<or> null_out out \<Longrightarrow>
      svc (px, pf) n out = Some (UDS_CORE_ERR_PARAM, (px, pf), out)"
    and run: "\<And>x f n b l c. P \<Longrightarrow> flash_inv f \<Longrightarrow> xfer_inv f x \<Longrightarrow> n \<le> length b \<Longrightarrow>
      \<exists>rc x' f' out'. svc (Some x, Some f) n (mk_out b l c) = Some (rc, (Some x', Some f'), out') \<and>
        out_contract n (mk_out b l c) rc out' \<and>
      flash_inv f' \<and> xfer_inv f' x' \<and> flash_frame f f'"
  shows "uds_service svc (\<lambda>st. P \<and> xfer_state_inv st)"
proof
  fix st n out
  assume "null_out out"
  then show "svc st n out = Some (UDS_CORE_ERR_PARAM, st, out)" using null by (cases st) simp
next
  fix st n l c and b :: "u8 list"
  assume st: "P \<and> xfer_state_inv st" "n \<le> length b"
  obtain px pf where [simp]: "st = (px, pf)" by (cases st)
  have key: "\<exists>rc st' out'. svc st n (mk_out b l c) = Some (rc, st', out') \<and>
      out_contract n (mk_out b l c) rc out' \<and> xfer_state_inv st'"
  proof (cases "px = None \<or> pf = None")
    case True
    with null [of px pf "mk_out b l c" n] st show ?thesis by auto
  next
    case False
    then obtain x f where "px = Some x" "pf = Some f" by auto
    with run [of f x n b l c] st show ?thesis by fastforce
  qed
  then show "\<exists>rc s' out'. svc st n (mk_out b l c) = Some (rc, s', out') \<and>
      out_contract n (mk_out b l c) rc out'" by blast
  fix rc st' out'
  assume "svc st n (mk_out b l c) = Some (rc, st', out')"
  with key st show "P \<and> xfer_state_inv st'" by auto
qed

lemma request_download_safe_keeps:
  assumes "flash_inv f" "xfer_inv f x" "n \<le> length b"
  shows "\<exists>rc x' f' out'. uds_svc_request_download fmt (Some d) (length d) (Some x, Some f) n (mk_out b l c) =
      Some (rc, (Some x', Some f'), out') \<and> out_contract n (mk_out b l c) rc out' \<and>
      flash_inv f' \<and> xfer_inv f' x' \<and> flash_frame f f'"
proof -
  from parse_total [OF order_refl, where d = d and fmt = fmt] obtain r where r: "parse_addr_len_fmt fmt (Some d) (length d) = Some r"
    by blast
  show ?thesis
  proof (cases "xf_mode x \<noteq> UDS_XFER_IDLE \<or> r = None")
    case True
    with assms r show ?thesis by (auto simp: uds_svc_request_download_def mem_simps)
  next
    case False
    then obtain a m where am: "r = Some (a, m)" by auto
    show ?thesis
    proof (cases "m \<noteq> 0 \<and> flash_readable f (unat a) (unat m)")
      case valid: True
      from assms(1) valid [THEN conjunct1] show ?thesis
      proof (cases rule: flash_erase_cases [where a = a])
        case refused
        with assms r am valid False show ?thesis
          by (auto simp: uds_svc_request_download_def mem_simps address_valid_eq)
      next
        case (erased rg)
        then have "flash_frame f (f\<lparr>fl_data := patch (unat a) (replicate (unat m) 0xFF) (fl_data f)\<rparr>)"
          by (intro flash_frame_patch) simp_all
        with erased assms r am valid False show ?thesis
          by (auto simp: uds_svc_request_download_def mem_simps address_valid_eq xfer_inv_begin)
      qed
    next
      case False
      with assms r am \<open>\<not> (xf_mode x \<noteq> UDS_XFER_IDLE \<or> r = None)\<close> show ?thesis
        by (auto simp: uds_svc_request_download_def mem_simps address_valid_eq)
    qed
  qed
qed

lemma request_upload_safe_keeps:
  assumes "flash_inv f" "xfer_inv f x" "n \<le> length b"
  shows "\<exists>rc x' f' out'. uds_svc_request_upload fmt (Some d) (length d) (Some x, Some f) n (mk_out b l c) =
      Some (rc, (Some x', Some f'), out') \<and> out_contract n (mk_out b l c) rc out' \<and>
      flash_inv f' \<and> xfer_inv f' x' \<and> flash_frame f f'"
proof -
  from parse_total [OF order_refl, where d = d and fmt = fmt] obtain r where "parse_addr_len_fmt fmt (Some d) (length d) = Some r"
    by blast
  with assms show ?thesis
    by (cases r) (auto simp: uds_svc_request_upload_def mem_simps address_valid_eq xfer_inv_begin)
qed

lemma transfer_exit_safe_keeps:
  assumes "xfer_inv f x" "n \<le> length b"
  shows "\<exists>rc x' out'. uds_svc_transfer_exit (Some x) n (mk_out b l c) = Some (rc, Some x', out') \<and>
    out_contract n (mk_out b l c) rc out' \<and> xfer_inv f x'"
  using assms by (auto simp: uds_svc_transfer_exit_def mem_simps)

lemmas uds_service_xfer = uds_service_xferI [where P = True, simplified]

interpretation request_download: uds_service "uds_svc_request_download fmt (Some d) (length d)" xfer_state_inv
  by (rule uds_service_xfer, force simp: uds_svc_request_download_def split: option.splits,
      rule request_download_safe_keeps)

interpretation request_upload: uds_service "uds_svc_request_upload fmt (Some d) (length d)" xfer_state_inv
  by (rule uds_service_xfer, force simp: uds_svc_request_upload_def split: option.splits,
      rule request_upload_safe_keeps)

interpretation transfer_exit: uds_service uds_svc_transfer_exit "ptr_inv (xfer_inv f)"
  by (rule uds_service_ptrI, simp add: uds_svc_transfer_exit_def, simp add: uds_svc_transfer_exit_def,
      rule transfer_exit_safe_keeps)

interpretation request_download_pos: positive_service
  "uds_svc_request_download fmt (Some d) (length d)" xfer_state_inv "0x34"
  by unfold_locales (simp only: uds_svc_request_download_def Let_def, (rule opens_rules | (simp add: opens_final; fail))+)

interpretation request_upload_pos: positive_service
  "uds_svc_request_upload fmt (Some d) (length d)" xfer_state_inv "0x35"
  by unfold_locales (simp only: uds_svc_request_upload_def Let_def, (rule opens_rules | (simp add: opens_final; fail))+)

interpretation transfer_exit_pos: positive_service uds_svc_transfer_exit "ptr_inv (xfer_inv f)" "0x37"
  by unfold_locales (simp only: uds_svc_transfer_exit_def Let_def, (rule opens_rules | (simp add: opens_final; fail))+)

interpretation request_download_speaks: answering_service
  "uds_svc_request_download fmt (Some d) (length d)" xfer_state_inv "\<lambda>st n. fst st = None \<or> snd st = None \<or> n < 4"
  by unfold_locales (simp only: uds_svc_request_download_def null_out_mk simp_thms, (rule speaks_intros | (simp; fail))+)

interpretation request_upload_speaks: answering_service
  "uds_svc_request_upload fmt (Some d) (length d)" xfer_state_inv "\<lambda>st n. fst st = None \<or> snd st = None \<or> n < 4"
  by unfold_locales (simp only: uds_svc_request_upload_def null_out_mk simp_thms, (rule speaks_intros | (simp; fail))+)

interpretation transfer_exit_speaks: answering_service uds_svc_transfer_exit "ptr_inv (xfer_inv f)" "\<lambda>p n. p = None \<or> n < 1"
  by unfold_locales (simp only: uds_svc_transfer_exit_def null_out_mk if_False, (rule speaks_intros | (simp; fail))+)

interpretation request_download_blind: blind_service
  "uds_svc_request_download fmt (Some d) (length d)" xfer_state_inv
  by unfold_locales (simp only: uds_svc_request_download_def Let_def null_out_mk simp_thms, (rule unseen_rules | assumption)+)

interpretation request_upload_blind: blind_service
  "uds_svc_request_upload fmt (Some d) (length d)" xfer_state_inv
  by unfold_locales (simp only: uds_svc_request_upload_def Let_def null_out_mk simp_thms, (rule unseen_rules | assumption)+)

interpretation transfer_exit_blind: blind_service uds_svc_transfer_exit "ptr_inv (xfer_inv f)"
  by unfold_locales (simp only: uds_svc_transfer_exit_def Let_def null_out_mk simp_thms, (rule unseen_rules | assumption)+)

section \<open>TransferData on an open transfer\<close>

text \<open>The position of a transfer and what is left of it, as natural numbers.\<close>

definition xfer_pos :: "UdsXferSession \<Rightarrow> nat" where
  "xfer_pos x = unat (xf_address x) + unat (transferred x)"

definition xfer_left :: "UdsXferSession \<Rightarrow> nat" where
  "xfer_left x = unat (total_length x) - unat (transferred x)"

lemma xfer_arith:
  assumes "flash_inv f" "xfer_inv f x" "xf_mode x \<noteq> UDS_XFER_IDLE"
  shows "unat (xf_address x + transferred x) = xfer_pos x"
    "unat (total_length x - transferred x) = xfer_left x"
    "k \<le> xfer_left x \<Longrightarrow> unat (transferred x + of_nat k) = unat (transferred x) + k"
    "xfer_pos x + xfer_left x \<le> UDS_FLASH_MAX_SIZE"
    "0 < m \<Longrightarrow> m \<le> xfer_left x \<Longrightarrow> flash_readable f (xfer_pos x) m"
    "xfer_left x < 2 ^ 32"
proof -
  from assms have le: "transferred x \<le> total_length x"
    and rd: "flash_readable f (unat (xf_address x)) (unat (total_length x))" by (simp_all add: xfer_inv_def)
  from le have le': "unat (transferred x) \<le> unat (total_length x)" by (simp add: word_le_nat_alt)
  note bnd = flash_readable_bound [OF assms(1) rd]
  show "unat (xf_address x + transferred x) = xfer_pos x"
    using bnd le' by (simp add: unat_word_ariths(1) xfer_pos_def UDS_FLASH_MAX_SIZE_def)
  show "unat (total_length x - transferred x) = xfer_left x"
    using le by (simp add: unat_sub xfer_left_def)
  show "unat (transferred x + of_nat k) = unat (transferred x) + k" if "k \<le> xfer_left x"
    using that bnd le' by (simp add: unat_word_ariths(1) unat_of_nat xfer_left_def UDS_FLASH_MAX_SIZE_def)
  show "xfer_pos x + xfer_left x \<le> UDS_FLASH_MAX_SIZE"
    using bnd le' by (simp add: xfer_pos_def xfer_left_def)
  show "flash_readable f (xfer_pos x) m" if "0 < m" "m \<le> xfer_left x"
    using flash.sub_read [OF rd _ _ that(1), of "xfer_pos x"] that(2) le'
    by (simp add: xfer_pos_def xfer_left_def)
  show "xfer_left x < 2 ^ 32" using bnd by (simp add: xfer_left_def UDS_FLASH_MAX_SIZE_def)
qed

definition advance :: "nat \<Rightarrow> UdsXferSession \<Rightarrow> UdsXferSession" where
  "advance k x = x\<lparr>transferred := transferred x + of_nat k\<rparr>"

definition step_seq :: "UdsXferSession \<Rightarrow> UdsXferSession" where
  "step_seq x = x\<lparr>block_seq := next_seq (block_seq x)\<rparr>"

lemma advance_inv:
  assumes "flash_inv f" "xfer_inv f x" "xf_mode x \<noteq> UDS_XFER_IDLE" "k \<le> xfer_left x"
  shows "xfer_inv f (advance k x)" "xfer_pos (advance k x) = xfer_pos x + k"
    "xfer_left (advance k x) = xfer_left x - k" "xf_mode (advance k x) = xf_mode x"
    "block_seq (advance k x) = block_seq x" "max_block_size (advance k x) = max_block_size x"
proof -
  note t = xfer_arith(3) [OF assms]
  from assms(2,3) have "transferred x \<le> total_length x" by (simp add: xfer_inv_def)
  with t assms(4) have "transferred x + of_nat k \<le> total_length x"
    by (simp add: word_le_nat_alt xfer_left_def)
  with assms show "xfer_inv f (advance k x)" by (simp add: xfer_inv_def advance_def)
  show "xfer_pos (advance k x) = xfer_pos x + k" "xfer_left (advance k x) = xfer_left x - k"
    "xf_mode (advance k x) = xf_mode x" "block_seq (advance k x) = block_seq x"
    "max_block_size (advance k x) = max_block_size x"
    using t by (simp_all add: xfer_pos_def xfer_left_def advance_def)
qed

lemma step_seq_simps [simp]:
  "xfer_inv f x \<Longrightarrow> xfer_inv f (step_seq x)" "xfer_pos (step_seq x) = xfer_pos x"
  "xfer_left (step_seq x) = xfer_left x" "xf_mode (step_seq x) = xf_mode x"
  "block_seq (step_seq x) = next_seq (block_seq x)" "max_block_size (step_seq x) = max_block_size x"
  by (simp_all add: xfer_inv_def step_seq_def xfer_pos_def xfer_left_def next_seq_nonzero)

lemma download_block:
  assumes "flash_inv f" "xfer_inv f x" "xf_mode x = UDS_XFER_DOWNLOAD" "d \<noteq> []" "length d < 2 ^ 32" "n \<le> length b"
  obtains (too_long) "length d > xfer_left x"
      "uds_svc_transfer_data (block_seq x) (Some d) (length d) (Some x, Some f) n (mk_out b l c) =
        Some (UDS_CORE_ERR_NRC, (Some x, Some f), mk_out b l (nrc_code UDS_NRC_TRANSFER_DATA_SUSPENDED))"
  | (failed) "length d \<le> xfer_left x" "\<not> flash_programmable f (xfer_pos x) (length d)"
      "uds_svc_transfer_data (block_seq x) (Some d) (length d) (Some x, Some f) n (mk_out b l c) =
        Some (UDS_CORE_ERR_NRC, (Some x, Some f), mk_out b l (nrc_code UDS_NRC_GENERAL_PROGRAMMING_FAILURE))"
  | (stored) "length d \<le> xfer_left x" "flash_frame f (f\<lparr>fl_data := patch (xfer_pos x) d (fl_data f)\<rparr>)"
      "uds_svc_transfer_data (block_seq x) (Some d) (length d) (Some x, Some f) n (mk_out b l c) =
        Some (let f' = f\<lparr>fl_data := patch (xfer_pos x) d (fl_data f)\<rparr>; x' = advance (length d) x in
          if n < 2 then (UDS_CORE_ERR_BUF, (Some x', Some f'), mk_out b l c)
          else (UDS_CORE_OK, (Some (step_seq x'), Some f'), mk_out (splice 0 [0x76, block_seq x] b) 2 c))"
proof -
  note ar = xfer_arith [OF assms(1,2), unfolded assms(3), simplified]
  have cmp: "(of_nat (length d) :: u32) > total_length x - transferred x \<longleftrightarrow> length d > xfer_left x"
    using assms(5) ar(2) by (simp add: word_less_nat_alt unat_of_nat)
  show thesis
  proof (cases "length d > xfer_left x")
    case True
    with cmp assms too_long show thesis by (simp add: uds_svc_transfer_data_def mem_simps)
  next
    case False
    from assms(1,4,5) show thesis
    proof (cases rule: flash_write_cases [where a = "xf_address x + transferred x"])
      case refused
      then have "\<not> flash_programmable f (xfer_pos x) (length d)"
        using programmable_accepts [of f "xfer_pos x" "length d"] assms(4) ar(1) by auto
      with False cmp refused assms failed show thesis by (simp add: uds_svc_transfer_data_def mem_simps)
    next
      case (written r)
      then have "flash_frame f (f\<lparr>fl_data := patch (xfer_pos x) d (fl_data f)\<rparr>)"
        using ar(1) by (intro flash_frame_patch) simp_all
      with written False cmp assms stored ar(1) show thesis
        by (simp add: uds_svc_transfer_data_def mem_simps advance_def step_seq_def Let_def)
    qed
  qed
qed

lemma upload_block:
  assumes "flash_inv f" "xfer_inv f x" "xf_mode x = UDS_XFER_UPLOAD" "n \<le> length b"
  defines "k \<equiv> min (xfer_left x) FLASH_MAX_BLOCK_DATA"
  shows "uds_svc_transfer_data (block_seq x) data len (Some x, Some f) n (mk_out b l c) = Some
    (if n < 2 + k then (UDS_CORE_ERR_BUF, (Some x, Some f), mk_out b l c)
     else if k = 0
     then (UDS_CORE_ERR_NRC, (Some x, Some f), mk_out b l (nrc_code UDS_NRC_GENERAL_PROGRAMMING_FAILURE))
     else (UDS_CORE_OK, (Some (step_seq (advance k x)), Some f),
       mk_out (splice 0 ([0x76, block_seq x] @ map (fl_data f) [xfer_pos x..<xfer_pos x + k]) b) (2 + k) c))"
proof -
  note ar = xfer_arith [OF assms(1,2), unfolded assms(3), simplified]
  from assms(2,3) have mb: "max_block_size x = 15" by (simp add: xfer_inv_def)
  define rem where "rem = total_length x - transferred x"
  define tr where "tr = (if rem < 15 then rem else 15)"
  have "unat rem = xfer_left x" using ar(2) by (simp add: rem_def)
  then have tr: "unat tr = k" by (auto simp: tr_def k_def FLASH_MAX_BLOCK_DATA_def word_less_nat_alt min_def)
  have k15: "k \<le> 15" "k \<le> xfer_left x" by (simp_all add: k_def FLASH_MAX_BLOCK_DATA_def)
  have two: "unat (2 + tr) = 2 + k" using tr k15 by (simp add: unat_word_ariths(1))
  have trk: "tr = of_nat k" unfolding tr [symmetric] by simp
  have out: "mk_out b l c\<lparr>o_resp := Some b'\<rparr> = mk_out b' l c" for b' by (simp add: mk_out_def)
  have run: "uds_svc_transfer_data (block_seq x) data len (Some x, Some f) n (mk_out b l c) =
      (if n < 2 + k then Some (UDS_CORE_ERR_BUF, (Some x, Some f), mk_out b l c)
       else do {
         (rc, resp) \<leftarrow> uds_flash_read (Some f) (xf_address x + transferred x) (Some b) 2 k;
         if rc \<noteq> UDS_CORE_OK
         then ret_nrc UDS_NRC_GENERAL_PROGRAMMING_FAILURE (Some x, Some f) (mk_out b l c\<lparr>o_resp := resp\<rparr>)
         else do {
           out \<leftarrow> put_resp 0 [0x76, block_seq x] (mk_out b l c\<lparr>o_resp := resp\<rparr>);
           out \<leftarrow> set_resp_len (2 + k) out;
           Some (UDS_CORE_OK, (Some (step_seq (advance k x)), Some f), out) } })"
    using two tr assms(3) unfolding uds_svc_transfer_data_def
    by (simp add: mb rem_def [symmetric] tr_def [symmetric] step_seq_def advance_def Let_def trk
        cong: if_cong option.case_cong)
  consider (small) "n < 2 + k" | (none) "2 + k \<le> n" "k = 0" | (some) "2 + k \<le> n" "0 < k" by linarith
  then show ?thesis
  proof cases
    case small
    then show ?thesis by (simp add: run)
  next
    case none
    then show ?thesis by (simp add: run uds_flash_read_def out mem_simps)
  next
    case some
    then have "flash_readable f (xfer_pos x) k" using ar(5) k15 by simp
    with some assms(1,4) k15 have "uds_flash_read (Some f) (xf_address x + transferred x) (Some b) 2 k =
        Some (UDS_CORE_OK, Some (splice 2 (map (fl_data f) [xfer_pos x..<xfer_pos x + k]) b))"
      by (simp add: flash_read_eq ar(1))
    with some assms(4) show ?thesis
      by (simp add: run out mem_simps splice_before)
  qed
qed

lemma transfer_data_safe_keeps:
  assumes "length d < 2 ^ 32" "flash_inv f" "xfer_inv f x" "n \<le> length b"
  shows "\<exists>rc x' f' out'. uds_svc_transfer_data seq (Some d) (length d) (Some x, Some f) n (mk_out b l c) =
      Some (rc, (Some x', Some f'), out') \<and> out_contract n (mk_out b l c) rc out' \<and>
      flash_inv f' \<and> xfer_inv f' x' \<and> flash_frame f f'"
proof -
  consider (idle) "xf_mode x = UDS_XFER_IDLE" | (seq) "xf_mode x \<noteq> UDS_XFER_IDLE" "seq \<noteq> block_seq x"
    | (empty) "xf_mode x = UDS_XFER_DOWNLOAD" "seq = block_seq x" "d = []"
    | (down) "xf_mode x = UDS_XFER_DOWNLOAD" "seq = block_seq x" "d \<noteq> []"
    | (up) "xf_mode x = UDS_XFER_UPLOAD" "seq = block_seq x"
    by (cases "xf_mode x") auto
  then show ?thesis
  proof cases
    case up
    then show ?thesis
      using upload_block [OF assms(2,3) _ assms(4), of "Some d" "length d" l c] assms
        advance_inv(1) [OF assms(2,3), of "min (xfer_left x) FLASH_MAX_BLOCK_DATA"]
      by (simp add: Let_def)
  next
    case down
    from assms(2,3) down(1,3) assms(1,4) show ?thesis
    proof (cases rule: download_block [where l = l and c = c])
      case stored
      then show ?thesis using assms down advance_inv(1) [OF assms(2,3), of "length d"] by (simp add: Let_def)
    qed (use assms down in simp_all)
  qed (use assms in \<open>auto simp: uds_svc_transfer_data_def mem_simps\<close>)
qed

interpretation transfer_data: uds_service "uds_svc_transfer_data seq (Some d) (length d)"
  "\<lambda>st. length d < 2 ^ 32 \<and> xfer_state_inv st"
  by (rule uds_service_xferI, force simp: uds_svc_transfer_data_def split: option.splits,
      rule transfer_data_safe_keeps)

interpretation transfer_data_pos: positive_service "uds_svc_transfer_data seq (Some d) (length d)"
  "\<lambda>st. length d < 2 ^ 32 \<and> xfer_state_inv st" "0x36"
  by unfold_locales (simp only: uds_svc_transfer_data_def Let_def, (rule opens_rules | (simp add: opens_final; fail))+)

text \<open>A block is answered, unless a download brings no data or the buffer cannot hold an upload block.\<close>

definition quiet_block :: "nat \<Rightarrow> xfer_state \<Rightarrow> nat \<Rightarrow> bool" where
  "quiet_block len st n \<longleftrightarrow> (case st of (Some x, Some f) \<Rightarrow>
     (xf_mode x = UDS_XFER_DOWNLOAD \<and> (len = 0 \<or> n < 2)) \<or> (xf_mode x = UDS_XFER_UPLOAD \<and> n < 2 + FLASH_MAX_BLOCK_DATA)
   | _ \<Rightarrow> True)"

interpretation transfer_data_speaks: answering_service "uds_svc_transfer_data seq (Some d) (length d)"
  "\<lambda>st. length d < 2 ^ 32 \<and> xfer_state_inv st" "quiet_block (length d)"
proof
  fix st n and b :: "u8 list"
  assume inv: "length d < 2 ^ 32 \<and> xfer_state_inv st" and n: "n \<le> length b" and q: "\<not> quiet_block (length d) st n"
  from q obtain x f where st: "st = (Some x, Some f)" by (auto simp: quiet_block_def split: prod.splits option.splits)
  with inv have i: "flash_inv f" "xfer_inv f x" by simp_all
  show "speaks (uds_svc_transfer_data seq (Some d) (length d) st n (mk_out b 0 0))"
  proof (cases "xf_mode x = UDS_XFER_UPLOAD \<and> seq = block_seq x")
    case True
    with upload_block [OF i _ n, of "Some d" "length d" 0 0] q show ?thesis
      unfolding st by (auto simp: speaks_def quiet_block_def Let_def split: if_splits)
  next
    case False
    then show ?thesis
      using q unfolding st
      by (simp only: uds_svc_transfer_data_def Let_def null_out_mk simp_thms option.case prod.case)
        (rule speaks_intros | (simp add: quiet_block_def; fail) | (cases "xf_mode x"; simp; fail))+
  qed
qed

interpretation transfer_data_blind: blind_service "uds_svc_transfer_data seq (Some d) (length d)" xfer_state_inv
proof
  fix st n l c and b b' :: "u8 list"
  assume st: "xfer_state_inv st" and n: "n \<le> length b" and b': "length b' = length b"
  let ?svc = "uds_svc_transfer_data seq (Some d) (length d) st n"
  show "rel_option same_answer (?svc (mk_out b l c)) (?svc (mk_out b' l c))"
  proof (cases "\<exists>x f. st = (Some x, Some f) \<and> xf_mode x = UDS_XFER_UPLOAD \<and> seq = block_seq x")
    case True
    then obtain x f where x: "st = (Some x, Some f)" "xf_mode x = UDS_XFER_UPLOAD" "seq = block_seq x" by blast
    with st have inv: "flash_inv f" "xfer_inv f x" by simp_all
    from n b' have n': "n \<le> length b'" by simp
    show ?thesis unfolding x(1,3) upload_block [OF inv x(2) n] upload_block [OF inv x(2) n']
      using n b' by (auto simp: unseen_answer Let_def not_less)
  next
    case False
    then show ?thesis
      using b' by (simp only: uds_svc_transfer_data_def Let_def null_out_mk simp_thms)
       ((rule unseen_rules | assumption | (simp; fail))+, rule FalseE, metis UdsXferMode.exhaust option.exhaust)
  qed
qed

section \<open>Whole transfers\<close>

text \<open>
  A client that sends the blocks of an image, and one that fetches \<open>k\<close> blocks; both number their
  blocks from the given counter and stop at the first answer that is not positive.
\<close>

fun send_blocks :: "nat \<Rightarrow> u8 list \<Rightarrow> u8 \<Rightarrow> u8 list list \<Rightarrow> xfer_state \<Rightarrow> xfer_state option" where
  "send_blocks n b seq [] st = Some st"
| "send_blocks n b seq (d # ds) st =
     (case uds_svc_transfer_data seq (Some d) (length d) st n (mk_out b 0 0) of
        Some (UDS_CORE_OK, st', _) \<Rightarrow> send_blocks n b (next_seq seq) ds st'
      | _ \<Rightarrow> None)"

fun fetch_blocks :: "nat \<Rightarrow> u8 list \<Rightarrow> u8 \<Rightarrow> nat \<Rightarrow> xfer_state \<Rightarrow> (u8 list \<times> xfer_state) option" where
  "fetch_blocks n b seq 0 st = Some ([], st)"
| "fetch_blocks n b seq (Suc k) st =
     (case uds_svc_transfer_data seq (Some []) 0 st n (mk_out b 0 0) of
        Some (UDS_CORE_OK, st', out) \<Rightarrow> do {
          resp \<leftarrow> o_resp out;
          len \<leftarrow> o_len out;
          (rest, st'') \<leftarrow> fetch_blocks n b (next_seq seq) k st';
          Some (drop 2 (take len resp) @ rest, st'') }
      | _ \<Rightarrow> None)"

lemma send_blocks_ok:
  assumes "flash_inv f" "xfer_inv f x" "xf_mode x = UDS_XFER_DOWNLOAD" "[] \<notin> set ds"
    "length (concat ds) \<le> xfer_left x" "flash_programmable f a tot" "a \<le> xfer_pos x"
    "xfer_pos x + length (concat ds) \<le> a + tot" "2 \<le> n" "n \<le> length b"
  shows "\<exists>x'. send_blocks n b (block_seq x) ds (Some x, Some f) =
      Some (Some x', Some (f\<lparr>fl_data := patch (xfer_pos x) (concat ds) (fl_data f)\<rparr>)) \<and>
    xf_mode x' = UDS_XFER_DOWNLOAD"
  using assms(1-8)
proof (induction ds arbitrary: x f)
  case Nil
  then show ?case by simp
next
  case (Cons d ds)
  from Cons.prems(3) have mode: "xf_mode x \<noteq> UDS_XFER_IDLE" by simp
  from Cons.prems have d: "d \<noteq> []" "length d \<le> xfer_left x" by auto
  with xfer_arith(6) [OF Cons.prems(1,2) mode] have "length d < 2 ^ 32" by simp
  have prog: "flash_programmable f (xfer_pos x) (length d)"
    using flash.sub_write [OF Cons.prems(6,7)] Cons.prems(8) d(1) by simp
  note adv = advance_inv [OF Cons.prems(1,2) mode d(2)]
  from Cons.prems(1-3) d(1) \<open>length d < 2 ^ 32\<close> assms(10)
  show ?case
  proof (cases rule: download_block [where l = 0 and c = 0])
    case stored
    let ?f = "f\<lparr>fl_data := patch (xfer_pos x) d (fl_data f)\<rparr>" and ?x = "step_seq (advance (length d) x)"
    have "\<exists>x'. send_blocks n b (block_seq ?x) ds (Some ?x, Some ?f) =
        Some (Some x', Some (?f\<lparr>fl_data := patch (xfer_pos ?x) (concat ds) (fl_data ?f)\<rparr>)) \<and>
        xf_mode x' = UDS_XFER_DOWNLOAD"
      by (rule Cons.IH) (use Cons.prems adv in auto)
    with stored assms(9) adv(2,5) show ?thesis by (simp add: Let_def patch_append)
  qed (use d prog in auto)
qed

lemma min_split: "min (l :: nat) (d + e) = min l d + min (l - min l d) e"
  by (cases "l \<le> d"; cases "l \<le> d + e") auto

lemma upt_adjacent: "[a..<a + m] @ [a + m..<a + m + r] = [a..<a + (m + r)]"
  using upt_add_eq_append [of a "a + m" r] by (simp add: add.assoc)

lemma fetch_blocks_ok:
  assumes "flash_inv f" "xfer_inv f x" "xf_mode x = UDS_XFER_UPLOAD" "17 \<le> n" "n \<le> length b"
    "k = 0 \<or> FLASH_MAX_BLOCK_DATA * (k - 1) < xfer_left x"
  shows "\<exists>x'. fetch_blocks n b (block_seq x) k (Some x, Some f) =
    Some (map (fl_data f) [xfer_pos x..<xfer_pos x + min (xfer_left x) (FLASH_MAX_BLOCK_DATA * k)], (Some x', Some f))"
  using assms(2,3,6)
proof (induction k arbitrary: x)
  case 0
  then show ?case by simp
next
  case (Suc k)
  let ?m = "min (xfer_left x) FLASH_MAX_BLOCK_DATA"
  let ?x = "step_seq (advance ?m x)"
  from Suc.prems(2) have mode: "xf_mode x \<noteq> UDS_XFER_IDLE" by simp
  from Suc.prems(3) have m: "0 < ?m" "?m \<le> 15" "2 + ?m \<le> length b"
    using assms(4,5) by (auto simp: FLASH_MAX_BLOCK_DATA_def)
  note adv = advance_inv [OF assms(1) Suc.prems(1) mode, of ?m, simplified]
  have ans: "uds_svc_transfer_data (block_seq x) (Some []) 0 (Some x, Some f) n (mk_out b 0 0) =
      Some (UDS_CORE_OK, (Some ?x, Some f),
        mk_out (splice 0 ([0x76, block_seq x] @ map (fl_data f) [xfer_pos x..<xfer_pos x + ?m]) b) (2 + ?m) 0)"
    using upload_block [OF assms(1) Suc.prems(1,2) assms(5), of "Some []" 0 0 0] m assms(4) by simp
  have "k = 0 \<or> FLASH_MAX_BLOCK_DATA * (k - 1) < xfer_left ?x"
    using Suc.prems(3) adv by (cases k) (auto simp: FLASH_MAX_BLOCK_DATA_def)
  from Suc.IH [OF _ _ this] adv Suc.prems(2) obtain x' where
    rest: "fetch_blocks n b (block_seq ?x) k (Some ?x, Some f) =
      Some (map (fl_data f) [xfer_pos ?x..<xfer_pos ?x + min (xfer_left ?x) (FLASH_MAX_BLOCK_DATA * k)], (Some x', Some f))"
    by auto
  have bytes: "drop 2 (take (2 + ?m) (splice 0 ([0x76, block_seq x] @ map (fl_data f) [xfer_pos x..<xfer_pos x + ?m]) b)) =
      map (fl_data f) [xfer_pos x..<xfer_pos x + ?m]" by simp
  have "[xfer_pos x..<xfer_pos x + ?m] @ [xfer_pos ?x..<xfer_pos ?x + min (xfer_left ?x) (FLASH_MAX_BLOCK_DATA * k)] =
      [xfer_pos x..<xfer_pos x + min (xfer_left x) (FLASH_MAX_BLOCK_DATA * Suc k)]"
  proof -
    have "min (xfer_left x) (FLASH_MAX_BLOCK_DATA * Suc k) = ?m + min (xfer_left ?x) (FLASH_MAX_BLOCK_DATA * k)"
      using adv(3) min_split [of "xfer_left x" FLASH_MAX_BLOCK_DATA "FLASH_MAX_BLOCK_DATA * k"] by simp
    then show ?thesis using adv(2) by (simp add: upt_adjacent)
  qed
  then have "map (fl_data f) [xfer_pos x..<xfer_pos x + ?m] @
      map (fl_data f) [xfer_pos ?x..<xfer_pos ?x + min (xfer_left ?x) (FLASH_MAX_BLOCK_DATA * k)] =
      map (fl_data f) [xfer_pos x..<xfer_pos x + min (xfer_left x) (FLASH_MAX_BLOCK_DATA * Suc k)]"
    by (simp only: map_append [symmetric])
  with rest ans bytes adv(5) show ?case by simp
qed

section \<open>Runs of transfer requests\<close>

text \<open>
  Any client: the four services in any order, with any arguments, each with its own response buffer and
  size. \<open>serve_all\<close> runs them one after the other, whatever each of them answers; its result is \<open>None\<close> as
  soon as one of them makes a faulty access.
\<close>

datatype xfer_req = Download u8 "u8 list" | Upload u8 "u8 list" | Block u8 "u8 list" | Exit

fun serve_xfer :: "xfer_req \<Rightarrow> xfer_state \<Rightarrow> nat \<Rightarrow> outp \<Rightarrow> xfer_state result" where
  "serve_xfer (Download fmt d) st n out = uds_svc_request_download fmt (Some d) (length d) st n out"
| "serve_xfer (Upload fmt d) st n out = uds_svc_request_upload fmt (Some d) (length d) st n out"
| "serve_xfer (Block seq d) st n out = uds_svc_transfer_data seq (Some d) (length d) st n out"
| "serve_xfer Exit (px, pf) n out = do { (rc, px, out) \<leftarrow> uds_svc_transfer_exit px n out; Some (rc, (px, pf), out) }"

fun serve_all :: "(xfer_req \<times> nat \<times> u8 list) list \<Rightarrow> xfer_state \<Rightarrow> (UdsCoreError list \<times> xfer_state) option" where
  "serve_all [] st = Some ([], st)"
| "serve_all ((req, n, b) # reqs) st = do {
     (rc, st, out) \<leftarrow> serve_xfer req st n (mk_out b 0 0);
     (rcs, st) \<leftarrow> serve_all reqs st;
     Some (rc # rcs, st) }"

text \<open>Valid buffers, and the data of a block below 4 GB (a request is at most 4095 bytes).\<close>

fun served_well :: "xfer_req \<times> nat \<times> u8 list \<Rightarrow> bool" where
  "served_well (Block seq d, n, b) \<longleftrightarrow> length d < 2 ^ 32 \<and> n \<le> length b"
| "served_well (req, n, b) \<longleftrightarrow> n \<le> length b"

lemma serve_xfer_total:
  assumes "served_well (req, n, b)" "flash_inv f" "xfer_inv f x"
  shows "\<exists>rc x' f' out'. serve_xfer req (Some x, Some f) n (mk_out b 0 0) = Some (rc, (Some x', Some f'), out') \<and>
    flash_inv f' \<and> xfer_inv f' x' \<and> flash_frame f f'"
proof (cases req)
  case (Download fmt d)
  with request_download_safe_keeps [OF assms(2,3), of n b fmt d 0 0] assms(1) show ?thesis by auto
next
  case (Upload fmt d)
  with request_upload_safe_keeps [OF assms(2,3), of n b fmt d 0 0] assms(1) show ?thesis by auto
next
  case (Block seq d)
  with transfer_data_safe_keeps [of d f x n b seq 0 0] assms show ?thesis by auto
next
  case Exit
  with transfer_exit_safe_keeps [OF assms(3), of n b 0 0] assms(1,2) show ?thesis by auto
qed

lemma flash_frame_trans: "flash_frame f g \<Longrightarrow> flash_frame g h \<Longrightarrow> flash_frame f h"
  by (auto simp: flash_frame_def protected_byte_def)

lemma serve_all_total:
  assumes "\<forall>r \<in> set reqs. served_well r" "flash_inv f" "xfer_inv f x"
  shows "\<exists>rcs x' f'. serve_all reqs (Some x, Some f) = Some (rcs, (Some x', Some f')) \<and> length rcs = length reqs \<and>
    flash_inv f' \<and> xfer_inv f' x' \<and> flash_frame f f'"
  using assms
proof (induction reqs arbitrary: x f)
  case (Cons r reqs)
  obtain req n b where r: "r = (req, n, b)" by (cases r)
  with Cons.prems serve_xfer_total [of req n b f x] obtain rc x1 f1 out1 where
    1: "serve_xfer req (Some x, Some f) n (mk_out b 0 0) = Some (rc, (Some x1, Some f1), out1)"
    "flash_inv f1" "xfer_inv f1 x1" "flash_frame f f1" by auto
  with Cons.IH [OF _ 1(2,3)] Cons.prems(1) obtain rcs x' f' where
    "serve_all reqs (Some x1, Some f1) = Some (rcs, (Some x', Some f'))" "length rcs = length reqs"
    "flash_inv f'" "xfer_inv f' x'" "flash_frame f1 f'" by auto
  with 1 r show ?case by (auto intro: flash_frame_trans)
qed simp

section \<open>Properties\<close>

text \<open>
  C17. Whatever sequence of transfer requests a client sends, from an idle session on a flash whose
  regions fit the array: every request returns without a faulty access; the region table stays, and
  bytes that only belong to protected regions keep their value; and while a transfer is open the
  block counter is never 0, no more than the announced length has been transferred, and the whole
  range lies in the 256 KB array.
\<close>

theorem transfer_run_safe:
  assumes "flash_inv f" "\<forall>r \<in> set reqs. served_well r"
  shows "\<exists>rcs x f'. serve_all reqs (Some zero_xfer, Some f) = Some (rcs, (Some x, Some f')) \<and> length rcs = length reqs \<and>
    regions_of f' = regions_of f \<and> (\<forall>i. protected_byte f i \<longrightarrow> fl_data f' i = fl_data f i) \<and>
    (xf_mode x \<noteq> UDS_XFER_IDLE \<longrightarrow> block_seq x \<noteq> 0 \<and>
       transferred x \<le> total_length x \<and> unat (xf_address x) + unat (total_length x) \<le> UDS_FLASH_MAX_SIZE)"
proof -
  from serve_all_total [OF assms(2,1) xfer_inv_zero] obtain rcs x f' where
    r: "serve_all reqs (Some zero_xfer, Some f) = Some (rcs, (Some x, Some f'))" "length rcs = length reqs"
    and inv: "flash_inv f'" "xfer_inv f' x" and fr: "flash_frame f f'" by blast
  from inv have "xf_mode x \<noteq> UDS_XFER_IDLE \<longrightarrow> block_seq x \<noteq> 0 \<and>
      transferred x \<le> total_length x \<and> unat (xf_address x) + unat (total_length x) \<le> UDS_FLASH_MAX_SIZE"
    using flash_readable_bound [of f'] by (auto simp: xfer_inv_def)
  with r fr show ?thesis by (auto simp: flash_frame_def)
qed

text \<open>A download is opened, fed a block with a wrong counter and the right one; the protected region stays.\<close>

theorem transfer_run_safe_witness:
  "\<exists>x f'. serve_all [(Download 0x11 [0x10, 4], 4, replicate 4 0), (Block 9 [1], 4, replicate 4 0), (Block 1 [1, 2], 4, replicate 4 0)]
      (Some zero_xfer, Some demo_flash) = Some ([UDS_CORE_OK, UDS_CORE_ERR_NRC, UDS_CORE_OK], (Some x, Some f')) \<and>
    transferred x = 2 \<and> block_seq x = 2 \<and> fl_data f' 0x1800 = fl_data demo_flash 0x1800"
proof -
  let ?reqs = "[(Download 0x11 [0x10, 4], 4, replicate 4 0), (Block 9 [1], 4, replicate 4 0), (Block 1 [1, 2], 4, replicate 4 0)]"
  have "case serve_all ?reqs (Some zero_xfer, Some demo_flash) of
      Some (rcs, (Some x, Some f)) \<Rightarrow> rcs = [UDS_CORE_OK, UDS_CORE_ERR_NRC, UDS_CORE_OK] \<and> transferred x = 2 \<and> block_seq x = 2
    | _ \<Rightarrow> False" by code_simp
  moreover have "protected_byte demo_flash 0x1800"
    by (auto simp: protected_byte_def regions_of_def demo_flash_def in_region_def)
  ultimately show ?thesis
    using transfer_run_safe [OF demo_flash_inv, of ?reqs] by auto
qed

text \<open>
  The address and size field round-trips: for every width of 1 to 4 bytes, packing an address
  and a size that fit their widths and announcing the widths in the format byte (size in the high
  nibble, address in the low one) is parsed back to the same values, whatever follows.
\<close>

lemma parse_format_roundtrip:
  assumes "1 \<le> na" "na \<le> 4" "1 \<le> ns" "ns \<le> 4"
    "unat (addr :: u32) < 2 ^ (8 * na)" "unat sz < 2 ^ (8 * ns)"
  shows "parse_addr_len_fmt (of_nat (16 * ns + na)) (Some (be_bytes na addr @ be_bytes ns sz @ rest))
    (na + ns + length rest) = Some (Some (addr, sz))"
proof -
  let ?d = "be_bytes na addr @ be_bytes ns sz @ rest"
  have fit: "take_bit (8 * k) v = v" if "unat v < 2 ^ (8 * k)" for k and v :: u32
    using that by (simp add: word_unat_eq_iff unat_take_bit)
  have nib: "(of_nat (16 * ns + na) :: u8) AND 0x0F = of_nat na" "drop_bit 4 (of_nat (16 * ns + na) :: u8) AND 0x0F = of_nat ns"
  proof -
    from assms have "na = 1 \<or> na = 2 \<or> na = 3 \<or> na = 4" "ns = 1 \<or> ns = 2 \<or> ns = 3 \<or> ns = 4" by auto
    then show "(of_nat (16 * ns + na) :: u8) AND 0x0F = of_nat na"
      "drop_bit 4 (of_nat (16 * ns + na) :: u8) AND 0x0F = of_nat ns"
      by (elim disjE; simp)+
  qed
  have nat: "unat (of_nat k :: u8) = k" if "k \<le> 4" for k using that by (simp add: unat_of_nat)
  have rng: "(of_nat k :: u8) \<noteq> 0" "\<not> (of_nat k :: u8) < 1" "\<not> (of_nat k :: u8) > 4" if "1 \<le> k" "k \<le> 4" for k
    using that nat [of k] by (auto simp: word_less_nat_alt)
  have "be_loop (Some ?d) 0 0 na 0 = Some addr" "be_loop (Some ?d) na 0 ns 0 = Some sz"
    using assms(5,6) by (simp_all add: be_loop_eq foldl_be_bytes fit)
  with assms have "parse_addr_len_fmt fmt (Some ?d) (na + ns + length rest) = Some (Some (addr, sz))"
    if "fmt AND 0x0F = of_nat na" "drop_bit 4 fmt AND 0x0F = of_nat ns" for fmt
    using that by (simp add: parse_addr_len_fmt_def nat rng Let_def)
  from this [OF nib] show ?thesis .
qed

lemma requests_from_idle:
  assumes "flash_inv f" "parse_addr_len_fmt fmt (Some d) (length d) = Some (Some (addr, sz))" "sz \<noteq> 0"
    "flash_programmable f (unat addr) (unat sz)" "4 \<le> n" "n \<le> length b" and idle: "xf_mode x = UDS_XFER_IDLE"
  shows "uds_svc_request_download fmt (Some d) (length d) (Some x, Some f) n (mk_out b l c) =
      Some (UDS_CORE_OK, (Some (begin_xfer UDS_XFER_DOWNLOAD addr sz),
        Some (f\<lparr>fl_data := patch (unat addr) (replicate (unat sz) 0xFF) (fl_data f)\<rparr>)),
        mk_out (splice 0 [0x74, 0x20, 0x00, 0x0F] b) 4 c)"
    "uds_svc_request_upload fmt (Some d) (length d) (Some x, Some f) n (mk_out b l c) =
      Some (UDS_CORE_OK, (Some (begin_xfer UDS_XFER_UPLOAD addr sz), Some f),
        mk_out (splice 0 [0x75, 0x20, 0x00, 0x0F] b) 4 c)"
proof -
  have rd: "flash_readable f (unat addr) (unat sz)" using assms(4) by (rule flash.readable)
  have "0 < unat sz" using assms(3) by (simp add: unat_gt_0)
  from assms(1,3) show "uds_svc_request_download fmt (Some d) (length d) (Some x, Some f) n (mk_out b l c) =
      Some (UDS_CORE_OK, (Some (begin_xfer UDS_XFER_DOWNLOAD addr sz),
        Some (f\<lparr>fl_data := patch (unat addr) (replicate (unat sz) 0xFF) (fl_data f)\<rparr>)),
        mk_out (splice 0 [0x74, 0x20, 0x00, 0x0F] b) 4 c)"
  proof (cases rule: flash_erase_cases [where a = addr])
    case refused
    with programmable_accepts [OF assms(4) \<open>0 < unat sz\<close>] show ?thesis by blast
  next
    case (erased r)
    with assms idle rd show ?thesis
      by (simp add: uds_svc_request_download_def address_valid_eq mem_simps FLASH_MAX_BLOCK_DATA_def)
  qed
  from assms idle rd show "uds_svc_request_upload fmt (Some d) (length d) (Some x, Some f) n
      (mk_out b l c) = Some (UDS_CORE_OK, (Some (begin_xfer UDS_XFER_UPLOAD addr sz), Some f),
        mk_out (splice 0 [0x75, 0x20, 0x00, 0x0F] b) 4 c)"
    by (simp add: uds_svc_request_upload_def address_valid_eq mem_simps FLASH_MAX_BLOCK_DATA_def)
qed

lemma begin_xfer_simps [simp]:
  "xfer_pos (begin_xfer m a k) = unat a" "xfer_left (begin_xfer m a k) = unat k"
  "xf_mode (begin_xfer m a k) = m" "block_seq (begin_xfer m a k) = 1"
  by (simp_all add: begin_xfer_def xfer_pos_def xfer_left_def)

text \<open>
  C15. Reprogramming works end to end. On a programmable range, RequestDownload, the blocks of an
  image of the announced size in any non-empty cut, and RequestTransferExit are all answered
  positively; afterwards the range holds the image and all other bytes are unchanged; and
  RequestUpload followed by as many block requests as the size needs returns the image.
\<close>

theorem download_upload_roundtrip:
  assumes "flash_inv f" "parse_addr_len_fmt fmt (Some d) (length d) = Some (Some (addr, sz))" "sz \<noteq> 0"
    "flash_programmable f (unat addr) (unat sz)" "[] \<notin> set ds" "length (concat ds) = unat sz"
    "17 \<le> n" "n \<le> length b"
  shows "\<exists>st1 out1 x2 f2 out3 st4 out4 st5.
    uds_svc_request_download fmt (Some d) (length d) (Some zero_xfer, Some f) n (mk_out b 0 0) =
      Some (UDS_CORE_OK, st1, out1) \<and>
    send_blocks n b 1 ds st1 = Some (Some x2, Some f2) \<and>
    uds_svc_transfer_exit (Some x2) n (mk_out b 0 0) = Some (UDS_CORE_OK, Some zero_xfer, out3) \<and>
    (\<forall>i. fl_data f2 i = (if unat addr \<le> i \<and> i < unat addr + unat sz then concat ds ! (i - unat addr) else fl_data f i)) \<and>
    uds_svc_request_upload fmt (Some d) (length d) (Some zero_xfer, Some f2) n (mk_out b 0 0) =
      Some (UDS_CORE_OK, st4, out4) \<and>
    fetch_blocks n b 1 ((unat sz + 14) div 15) st4 = Some (concat ds, st5)"
proof -
  let ?f1 = "f\<lparr>fl_data := patch (unat addr) (replicate (unat sz) 0xFF) (fl_data f)\<rparr>"
  let ?f2 = "?f1\<lparr>fl_data := patch (unat addr) (concat ds) (fl_data ?f1)\<rparr>"
  have n: "2 \<le> n" "4 \<le> n" "1 \<le> n" using assms(7) by simp_all
  have zero_idle: "xf_mode zero_xfer = UDS_XFER_IDLE" by (simp add: zero_xfer_def)
  have rd: "flash_readable f (unat addr) (unat sz)" using assms(4) by (rule flash.readable)
  have f: "flash_inv ?f1" "flash_inv ?f2" "flash_programmable ?f1 (unat addr) (unat sz)"
    "flash_programmable ?f2 (unat addr) (unat sz)" using assms(1,4) by simp_all
  obtain out1 where dl: "uds_svc_request_download fmt (Some d) (length d) (Some zero_xfer, Some f) n (mk_out b 0 0) =
      Some (UDS_CORE_OK, (Some (begin_xfer UDS_XFER_DOWNLOAD addr sz), Some ?f1), out1)"
    using requests_from_idle(1) [OF assms(1-4) n(2) assms(8) zero_idle, of 0 0] by blast
  have inv: "xfer_inv ?f1 (begin_xfer UDS_XFER_DOWNLOAD addr sz)" "xfer_inv ?f2 (begin_xfer UDS_XFER_UPLOAD addr sz)"
    using rd assms(3) by (simp_all add: xfer_inv_begin)
  obtain x2 where send: "send_blocks n b 1 ds (Some (begin_xfer UDS_XFER_DOWNLOAD addr sz), Some ?f1) =
      Some (Some x2, Some ?f2)" "xf_mode x2 = UDS_XFER_DOWNLOAD"
    using send_blocks_ok [OF f(1) inv(1) _ assms(5) _ f(3) _ _ n(1) assms(8)] assms(6) by auto
  have exit: "\<exists>out. uds_svc_transfer_exit (Some x2) n (mk_out b 0 0) = Some (UDS_CORE_OK, Some zero_xfer, out)"
    using send(2) n(3) assms(8) by (simp add: uds_svc_transfer_exit_def mem_simps)
  obtain out4 where up: "uds_svc_request_upload fmt (Some d) (length d) (Some zero_xfer, Some ?f2) n (mk_out b 0 0) =
      Some (UDS_CORE_OK, (Some (begin_xfer UDS_XFER_UPLOAD addr sz), Some ?f2), out4)"
    using requests_from_idle(2) [OF f(2) assms(2,3) f(4) n(2) assms(8) zero_idle, of 0 0] by blast
  let ?k = "(unat sz + 14) div 15"
  have k: "?k = 0 \<or> FLASH_MAX_BLOCK_DATA * (?k - 1) < unat sz" "min (unat sz) (FLASH_MAX_BLOCK_DATA * ?k) = unat sz"
    by (simp_all add: FLASH_MAX_BLOCK_DATA_def min_def) presburger+
  obtain x5 where fetch: "fetch_blocks n b 1 ?k (Some (begin_xfer UDS_XFER_UPLOAD addr sz), Some ?f2) =
      Some (map (fl_data ?f2) [unat addr..<unat addr + unat sz], (Some x5, Some ?f2))"
    using fetch_blocks_ok [OF f(2) inv(2) _ assms(7,8), of ?k] k by auto
  have img: "map (fl_data ?f2) [unat addr..<unat addr + unat sz] = concat ds"
    using map_patch [of "unat addr" "concat ds"] assms(6) by simp
  have cells: "\<forall>i. fl_data ?f2 i = (if unat addr \<le> i \<and> i < unat addr + unat sz then concat ds ! (i - unat addr) else fl_data f i)"
    using assms(6) by (auto simp: patch_def)
  from exit obtain out3 where "uds_svc_transfer_exit (Some x2) n (mk_out b 0 0) =
      Some (UDS_CORE_OK, Some zero_xfer, out3)" by blast
  with dl send(1) up fetch [unfolded img] cells show ?thesis
    by (intro exI conjI) assumption+
qed

theorem download_upload_roundtrip_witness:
  "\<exists>st1 out1 x2 f2. uds_svc_request_download 0x11 (Some [0x20, 3]) 2 (Some zero_xfer, Some demo_flash) 17
      (mk_out (replicate 17 0) 0 0) = Some (UDS_CORE_OK, st1, out1) \<and>
    send_blocks 17 (replicate 17 0) 1 [[7], [8, 9]] st1 = Some (Some x2, Some f2) \<and>
    fl_data f2 0x21 = 8"
proof -
  have p: "parse_addr_len_fmt 0x11 (Some [0x20, 3]) (length [0x20, 3 :: u8]) = Some (Some (0x20, 3))" by code_simp
  have w: "flash_programmable demo_flash (unat (0x20 :: u32)) (unat (3 :: u32))"
    by (simp add: flash_programmable_def regions_of_def demo_flash_def in_region_def)
  from download_upload_roundtrip [OF demo_flash_inv p _ w, where ds = "[[7], [8, 9]]" and n = 17 and b = "replicate 17 0"]
  obtain st1 out1 x2 f2 where
    "uds_svc_request_download 0x11 (Some [0x20, 3]) (length [0x20, 3 :: u8]) (Some zero_xfer, Some demo_flash) 17
      (mk_out (replicate 17 0) 0 0) = Some (UDS_CORE_OK, st1, out1)"
    "send_blocks 17 (replicate 17 0) 1 [[7], [8, 9]] st1 = Some (Some x2, Some f2)"
    "\<forall>i. fl_data f2 i = (if unat (0x20 :: u32) \<le> i \<and> i < unat (0x20 :: u32) + unat (3 :: u32)
       then concat [[7], [8, 9]] ! (i - unat (0x20 :: u32)) else fl_data demo_flash i)"
    by auto
  moreover from this(3) have "fl_data f2 0x21 = 8" by simp
  ultimately show ?thesis by (simp add: numeral_2_eq_2)
qed

end
