(* ===== verification/CanSocket.thy ===== *)
theory CanSocket
  imports Service
begin

text \<open>
  The SocketCAN wrapper, \<open>src/can/can_socket.c\<close>: opening, closing and filtering a socket, frame
  input and output (classic and FD), and the CAN identifiers of the diagnostic protocol. The system
  calls are the kernel's and not part of the program: a record of functions over a kernel state
  \<open>'k\<close>, generic in the frame type \<open>'f\<close> so that both frame layouts use the same model. The end of
  the theory gives the interface the transport layer relies on as the locale \<open>can_link\<close>.
\<close>

section \<open>Types\<close>

datatype UdsCanError =
    UDS_CAN_OK
  | UDS_CAN_ERR_PARAM
  | UDS_CAN_ERR_SOCKET
  | UDS_CAN_ERR_BIND
  | UDS_CAN_ERR_IFINDEX
  | UDS_CAN_ERR_FILTER
  | UDS_CAN_ERR_SEND
  | UDS_CAN_ERR_RECV
  | UDS_CAN_ERR_TIMEOUT
  | UDS_CAN_ERR_TRUNC

fun can_err_code :: "UdsCanError \<Rightarrow> int" where
  "can_err_code UDS_CAN_OK = 0"
| "can_err_code UDS_CAN_ERR_PARAM = - 1"
| "can_err_code UDS_CAN_ERR_SOCKET = - 2"
| "can_err_code UDS_CAN_ERR_BIND = - 3"
| "can_err_code UDS_CAN_ERR_IFINDEX = - 4"
| "can_err_code UDS_CAN_ERR_FILTER = - 5"
| "can_err_code UDS_CAN_ERR_SEND = - 6"
| "can_err_code UDS_CAN_ERR_RECV = - 7"
| "can_err_code UDS_CAN_ERR_TIMEOUT = - 8"
| "can_err_code UDS_CAN_ERR_TRUNC = - 9"

text \<open>The two frame layouts of \<open>linux/can.h\<close>: 8 and 64 data bytes.\<close>

record can_frame =
  can_id :: u32
  can_dlc :: u8
  can_data :: "u8 list"

record canfd_frame =
  fd_can_id :: u32
  fd_len :: u8
  fd_data :: "u8 list"

record UdsCanSocket =
  fd :: int

record UdsCanFilter =
  flt_can_id :: u32
  flt_can_mask :: u32

text \<open>
  The system calls, each with the descriptor it is applied to. \<open>k_read\<close> takes the old content of
  the caller's frame and returns the number of bytes with the new content; \<open>k_select\<close> gets the
  seconds and microseconds of its timeout.
\<close>

record ('f, 'k) can_kernel =
  k_socket :: "'k \<Rightarrow> int \<times> 'k"
  k_if_nametoindex :: "string \<Rightarrow> 'k \<Rightarrow> u32 \<times> 'k"
  k_bind :: "int \<Rightarrow> u32 \<Rightarrow> 'k \<Rightarrow> int \<times> 'k"
  k_close :: "int \<Rightarrow> 'k \<Rightarrow> 'k"
  k_set_filter :: "int \<Rightarrow> UdsCanFilter list \<Rightarrow> 'k \<Rightarrow> int \<times> 'k"
  k_set_fd_frames :: "int \<Rightarrow> 'k \<Rightarrow> int \<times> 'k"
  k_write :: "int \<Rightarrow> 'f \<Rightarrow> 'k \<Rightarrow> int \<times> 'k"
  k_select :: "int \<Rightarrow> nat \<Rightarrow> nat \<Rightarrow> 'k \<Rightarrow> int \<times> 'k"
  k_read :: "int \<Rightarrow> 'f \<Rightarrow> 'k \<Rightarrow> int \<times> 'f \<times> 'k"
  k_frame_size :: nat

section \<open>Socket lifecycle\<close>

definition uds_can_open ::
  "('f, 'k) can_kernel \<Rightarrow> UdsCanSocket ptr \<Rightarrow> string ptr \<Rightarrow> 'k \<Rightarrow> UdsCanError \<times> UdsCanSocket ptr \<times> 'k" where
  "uds_can_open K sock ifname k =
     (if sock = None \<or> ifname = None \<or> ifname = Some [] then (UDS_CAN_ERR_PARAM, sock, k)
      else
        let sock = Some \<lparr>fd = -1\<rparr>; (s, k) = k_socket K k in
        if s < 0 then (UDS_CAN_ERR_SOCKET, sock, k)
        else
          let (ifindex, k) = k_if_nametoindex K (the ifname) k in
          if ifindex = 0 then (UDS_CAN_ERR_IFINDEX, sock, k_close K s k)
          else
            let (r, k) = k_bind K s ifindex k in
            if r < 0 then (UDS_CAN_ERR_BIND, sock, k_close K s k)
            else (UDS_CAN_OK, Some \<lparr>fd = s\<rparr>, k))"

definition uds_can_close ::
  "('f, 'k) can_kernel \<Rightarrow> UdsCanSocket ptr \<Rightarrow> 'k \<Rightarrow> UdsCanSocket ptr \<times> 'k" where
  "uds_can_close K sock k =
     (case sock of None \<Rightarrow> (None, k)
      | Some s \<Rightarrow> if fd s \<ge> 0 then (Some \<lparr>fd = -1\<rparr>, k_close K (fd s) k) else (sock, k))"

definition UDS_CAN_MAX_FILTERS :: nat where
  "UDS_CAN_MAX_FILTERS = 32"

text \<open>The filter array is read by the kernel: a fault when it is shorter than \<open>count\<close>.\<close>

definition uds_can_set_filter ::
  "('f, 'k) can_kernel \<Rightarrow> UdsCanSocket ptr \<Rightarrow> UdsCanFilter list ptr \<Rightarrow> nat \<Rightarrow> 'k \<Rightarrow> (UdsCanError \<times> 'k) option" where
  "uds_can_set_filter K sock filters count k =
     (case sock of None \<Rightarrow> Some (UDS_CAN_ERR_PARAM, k)
      | Some s \<Rightarrow>
          if fd s < 0 then Some (UDS_CAN_ERR_PARAM, k)
          else if count > UDS_CAN_MAX_FILTERS then Some (UDS_CAN_ERR_PARAM, k)
          else if count > 0 \<and> filters = None then Some (UDS_CAN_ERR_PARAM, k)
          else if count = 0 then
            (let (r, k) = k_set_filter K (fd s) [] k in
             Some (if r < 0 then UDS_CAN_ERR_FILTER else UDS_CAN_OK, k))
          else do {
            fs \<leftarrow> mem_read filters 0 count;
            let (r, k) = k_set_filter K (fd s) fs k;
            Some (if r < 0 then UDS_CAN_ERR_FILTER else UDS_CAN_OK, k) })"

section \<open>Frame input and output\<close>

definition uds_can_send ::
  "('f, 'k) can_kernel \<Rightarrow> UdsCanSocket ptr \<Rightarrow> 'f ptr \<Rightarrow> 'k \<Rightarrow> UdsCanError \<times> 'k" where
  "uds_can_send K sock frame k =
     (case sock of None \<Rightarrow> (UDS_CAN_ERR_PARAM, k)
      | Some s \<Rightarrow>
          (case frame of None \<Rightarrow> (UDS_CAN_ERR_PARAM, k)
           | Some f \<Rightarrow>
               if fd s < 0 then (UDS_CAN_ERR_PARAM, k)
               else
                 let (written, k) = k_write K (fd s) f k in
                 if written < 0 then (UDS_CAN_ERR_SEND, k)
                 else if written \<noteq> int (k_frame_size K) then (UDS_CAN_ERR_SEND, k)
                 else (UDS_CAN_OK, k)))"

definition uds_can_recv ::
  "('f, 'k) can_kernel \<Rightarrow> UdsCanSocket ptr \<Rightarrow> 'f ptr \<Rightarrow> nat \<Rightarrow> 'k \<Rightarrow> UdsCanError \<times> 'f ptr \<times> 'k" where
  "uds_can_recv K sock frame timeout_ms k =
     (case sock of None \<Rightarrow> (UDS_CAN_ERR_PARAM, frame, k)
      | Some s \<Rightarrow>
          (case frame of None \<Rightarrow> (UDS_CAN_ERR_PARAM, frame, k)
           | Some f \<Rightarrow>
               if fd s < 0 then (UDS_CAN_ERR_PARAM, frame, k)
               else
                 let (ready, k) = (if timeout_ms > 0
                   then k_select K (fd s) (timeout_ms div 1000) ((timeout_ms mod 1000) * 1000) k
                   else (1, k)) in
                 if ready < 0 then (UDS_CAN_ERR_RECV, frame, k)
                 else if ready = 0 then (UDS_CAN_ERR_TIMEOUT, frame, k)
                 else
                   let (nbytes, f, k) = k_read K (fd s) f k in
                   if nbytes < 0 then (UDS_CAN_ERR_RECV, Some f, k)
                   else if nat nbytes < k_frame_size K then (UDS_CAN_ERR_TRUNC, Some f, k)
                   else (UDS_CAN_OK, Some f, k)))"

definition uds_can_enable_fd ::
  "('f, 'k) can_kernel \<Rightarrow> UdsCanSocket ptr \<Rightarrow> 'k \<Rightarrow> UdsCanError \<times> 'k" where
  "uds_can_enable_fd K sock k =
     (case sock of None \<Rightarrow> (UDS_CAN_ERR_PARAM, k)
      | Some s \<Rightarrow>
          if fd s < 0 then (UDS_CAN_ERR_PARAM, k)
          else
            let (r, k) = k_set_fd_frames K (fd s) k in
            (if r < 0 then UDS_CAN_ERR_FILTER else UDS_CAN_OK, k))"

text \<open>The FD versions have the same bodies over the larger frame.\<close>

definition uds_can_send_fd ::
  "(canfd_frame, 'k) can_kernel \<Rightarrow> UdsCanSocket ptr \<Rightarrow> canfd_frame ptr \<Rightarrow> 'k \<Rightarrow> UdsCanError \<times> 'k" where
  "uds_can_send_fd = uds_can_send"

definition uds_can_recv_fd ::
  "(canfd_frame, 'k) can_kernel \<Rightarrow> UdsCanSocket ptr \<Rightarrow> canfd_frame ptr \<Rightarrow> nat \<Rightarrow> 'k \<Rightarrow>
   UdsCanError \<times> canfd_frame ptr \<times> 'k" where
  "uds_can_recv_fd = uds_can_recv"

section \<open>Diagnostic identifiers\<close>

definition UDS_CAN_REQ_BASE :: u32 where "UDS_CAN_REQ_BASE = 0x600"
definition UDS_CAN_RESP_BASE :: u32 where "UDS_CAN_RESP_BASE = 0x680"
definition UDS_CAN_FUNCTIONAL_ID :: u32 where "UDS_CAN_FUNCTIONAL_ID = 0x7DF"

definition uds_can_req_id :: "u8 \<Rightarrow> u32" where
  "uds_can_req_id e = (if e < 0x01 \<or> e > 0x7F then 0 else UDS_CAN_REQ_BASE + ucast e)"

definition uds_can_resp_id :: "u8 \<Rightarrow> u32" where
  "uds_can_resp_id e = (if e < 0x01 \<or> e > 0x7F then 0 else UDS_CAN_RESP_BASE + ucast e)"

definition uds_can_ecu_id_from_resp :: "u32 \<Rightarrow> u8" where
  "uds_can_ecu_id_from_resp resp_id =
     (if resp_id \<le> UDS_CAN_RESP_BASE then 0
      else
        let offset = resp_id - UDS_CAN_RESP_BASE in
        if offset < 0x01 \<or> offset > 0x7F then 0 else ucast offset)"

text \<open>The number of entries written and the array.\<close>

definition uds_can_ecu_filters :: "UdsCanFilter list ptr \<Rightarrow> u8 \<Rightarrow> (nat \<times> UdsCanFilter list ptr) option" where
  "uds_can_ecu_filters filters e =
     (if filters = None then Some (0, filters)
      else if e < 0x01 \<or> e > 0x7F then Some (0, filters)
      else do {
        fs \<leftarrow> mem_put filters 0
          [\<lparr>flt_can_id = UDS_CAN_REQ_BASE + ucast e, flt_can_mask = 0x7FF\<rparr>,
           \<lparr>flt_can_id = UDS_CAN_FUNCTIONAL_ID, flt_can_mask = 0x7FF\<rparr>,
           \<lparr>flt_can_id = UDS_CAN_RESP_BASE + ucast e, flt_can_mask = 0x7FF\<rparr>];
        Some (3, Some fs) })"

definition uds_can_strerror :: "int \<Rightarrow> string" where
  "uds_can_strerror err =
     (if err = can_err_code UDS_CAN_OK then ''Success''
      else if err = can_err_code UDS_CAN_ERR_PARAM then ''Invalid parameter''
      else if err = can_err_code UDS_CAN_ERR_SOCKET then ''socket() failed''
      else if err = can_err_code UDS_CAN_ERR_BIND then ''bind() failed''
      else if err = can_err_code UDS_CAN_ERR_IFINDEX then ''Interface not found''
      else if err = can_err_code UDS_CAN_ERR_FILTER then ''setsockopt(CAN_RAW_FILTER) failed''
      else if err = can_err_code UDS_CAN_ERR_SEND then ''write() failed''
      else if err = can_err_code UDS_CAN_ERR_RECV then ''read() failed''
      else if err = can_err_code UDS_CAN_ERR_TIMEOUT then ''Receive timed out''
      else if err = can_err_code UDS_CAN_ERR_TRUNC then ''Received frame was truncated''
      else ''Unknown error'')"

section \<open>Descriptors are not leaked\<close>

text \<open>A kernel observed through the number of descriptors it has open.\<close>

definition fd_accounting :: "('f, 'k) can_kernel \<Rightarrow> ('k \<Rightarrow> int) \<Rightarrow> bool" where
  "fd_accounting K nopen \<longleftrightarrow>
     (\<forall>k. fst (k_socket K k) \<ge> 0 \<longrightarrow> nopen (snd (k_socket K k)) = nopen k + 1) \<and>
     (\<forall>k. fst (k_socket K k) < 0 \<longrightarrow> nopen (snd (k_socket K k)) = nopen k) \<and>
     (\<forall>name k. nopen (snd (k_if_nametoindex K name k)) = nopen k) \<and>
     (\<forall>s i k. nopen (snd (k_bind K s i k)) = nopen k) \<and>
     (\<forall>s k. nopen (k_close K s k) = nopen k - 1)"

lemma open_accounting:
  assumes "fd_accounting K nopen" "uds_can_open K sock ifname k = (rc, sock', k')"
  shows "(rc = UDS_CAN_OK \<longrightarrow> (\<exists>s. sock' = Some \<lparr>fd = s\<rparr> \<and> s \<ge> 0) \<and> nopen k' = nopen k + 1) \<and>
    (rc \<noteq> UDS_CAN_OK \<longrightarrow> nopen k' = nopen k \<and> (rc = UDS_CAN_ERR_PARAM \<or> sock' = Some \<lparr>fd = -1\<rparr>))"
proof (cases "sock = None \<or> ifname = None \<or> ifname = Some []")
  case True
  with assms(2) show ?thesis by (auto simp: uds_can_open_def)
next
  case False
  then obtain s0 nm where ptrs: "sock = Some s0" "ifname = Some nm" "nm \<noteq> []" by auto
  obtain s k1 where s: "k_socket K k = (s, k1)" by force
  obtain i k2 where i: "k_if_nametoindex K nm k1 = (i, k2)" by force
  obtain r k3 where r: "k_bind K s i k2 = (r, k3)" by force
  have n: "s \<ge> 0 \<Longrightarrow> nopen k1 = nopen k + 1" "s < 0 \<Longrightarrow> nopen k1 = nopen k" "nopen k2 = nopen k1" "nopen k3 = nopen k2"
    "nopen (k_close K s q) = nopen q - 1" for q
    using assms(1) s i r unfolding fd_accounting_def by (metis fst_conv snd_conv)+
  show ?thesis
    using assms(2) n by (auto simp: uds_can_open_def ptrs s i r Let_def not_less split: if_splits)
qed

section \<open>The link interface\<close>

text \<open>
  What the transport layer relies on: frames are sent and received in order. \<open>inbox\<close> holds the
  frames that wait for this node, \<open>outbox\<close> the ones it has sent.
\<close>

locale can_link =
  fixes snd_frame :: "'f \<Rightarrow> 'k \<Rightarrow> UdsCanError \<times> 'k"
    and rcv_frame :: "'f \<Rightarrow> 'k \<Rightarrow> UdsCanError \<times> 'f ptr \<times> 'k"
    and inbox :: "'k \<Rightarrow> 'f list"
    and outbox :: "'k \<Rightarrow> 'f list"
  assumes send_law: "\<exists>k'. snd_frame f k = (UDS_CAN_OK, k') \<and> outbox k' = outbox k @ [f] \<and> inbox k' = inbox k"
    and recv_law: "inbox k = f # fs \<Longrightarrow>
      \<exists>k'. rcv_frame g k = (UDS_CAN_OK, Some f, k') \<and> inbox k' = fs \<and> outbox k' = outbox k"
    and empty_law: "inbox k = [] \<Longrightarrow>
      \<exists>g' k'. rcv_frame g k = (UDS_CAN_ERR_TIMEOUT, g', k') \<and> inbox k' = [] \<and> outbox k' = outbox k"
begin

lemma recv_cases:
  obtains (frame) f fs k' where "inbox k = f # fs" "rcv_frame g k = (UDS_CAN_OK, Some f, k')" "inbox k' = fs"
      "outbox k' = outbox k"
  | (none) g' k' where "inbox k = []" "rcv_frame g k = (UDS_CAN_ERR_TIMEOUT, g', k')" "outbox k' = outbox k"
proof (cases "inbox k")
  case Nil
  with empty_law [OF Nil, of g] none show thesis by blast
next
  case (Cons f fs)
  with recv_law [OF Cons, of g] frame show thesis by blast
qed

end

text \<open>
  A virtual CAN interface with one open socket per \<open>k_socket\<close>: reads take from one queue, writes
  append to another, \<open>select\<close> reports whether a frame waits.
\<close>

record 'f vcan =
  vc_in :: "'f list"
  vc_out :: "'f list"
  vc_open :: int
  vc_filters :: "UdsCanFilter list"
  vc_slept :: int

definition vcan_kernel :: "nat \<Rightarrow> ('f, 'f vcan) can_kernel" where
  "vcan_kernel sz = \<lparr>
     k_socket = (\<lambda>k. (3, k\<lparr>vc_open := vc_open k + 1\<rparr>)),
     k_if_nametoindex = (\<lambda>name k. (if name = ''vcan0'' then 1 else 0, k)),
     k_bind = (\<lambda>s i k. (0, k)),
     k_close = (\<lambda>s k. k\<lparr>vc_open := vc_open k - 1\<rparr>),
     k_set_filter = (\<lambda>s fs k. (0, k\<lparr>vc_filters := fs\<rparr>)),
     k_set_fd_frames = (\<lambda>s k. (0, k)),
     k_write = (\<lambda>s f k. (int sz, k\<lparr>vc_out := vc_out k @ [f]\<rparr>)),
     k_select = (\<lambda>s sec usec k. (if vc_in k = [] then 0 else 1, k)),
     k_read = (\<lambda>s f k. (case vc_in k of [] \<Rightarrow> (-1, f, k) | x # xs \<Rightarrow> (int sz, x, k\<lparr>vc_in := xs\<rparr>))),
     k_frame_size = sz\<rparr>"

interpretation vcan: can_link
  "\<lambda>f. uds_can_send (vcan_kernel sz) (Some \<lparr>fd = int s\<rparr>) (Some f)"
  "\<lambda>g. uds_can_recv (vcan_kernel sz) (Some \<lparr>fd = int s\<rparr>) (Some g) (Suc t)"
  vc_in vc_out
  by unfold_locales (auto simp: uds_can_send_def uds_can_recv_def vcan_kernel_def)

section \<open>Properties\<close>

text \<open>
  Opening and closing never leak a descriptor: on a kernel whose calls account for descriptors
  as \<open>socket\<close> and \<open>close\<close> document it, a failed \<open>uds_can_open\<close> leaves as many descriptors open as
  before (and the handle invalid), a successful one exactly one more, and \<open>uds_can_close\<close> gives it
  back and leaves a handle on which a second close does nothing.
\<close>

lemma can_open_close_accounting:
  assumes "fd_accounting K nopen" "uds_can_open K (Some s0) ifname k = (rc, sock, k')"
  shows "(rc \<noteq> UDS_CAN_OK \<longrightarrow> nopen k' = nopen k \<and> (rc = UDS_CAN_ERR_PARAM \<or> sock = Some \<lparr>fd = -1\<rparr>)) \<and>
    (rc = UDS_CAN_OK \<longrightarrow> nopen k' = nopen k + 1 \<and>
      (\<exists>k''. uds_can_close K sock k' = (Some \<lparr>fd = -1\<rparr>, k'') \<and> nopen k'' = nopen k \<and>
         uds_can_close K (Some \<lparr>fd = -1\<rparr>) k'' = (Some \<lparr>fd = -1\<rparr>, k'')))"
proof -
  have "nopen (k_close K s q) = nopen q - 1" for s q using assms(1) by (simp add: fd_accounting_def)
  with open_accounting [OF assms] show ?thesis by (auto simp: uds_can_close_def)
qed

text \<open>The virtual interface accounts for its descriptors.\<close>

lemma vcan_accounting: "fd_accounting (vcan_kernel sz) vc_open"
  by (simp add: fd_accounting_def vcan_kernel_def)

text \<open>
  The CAN identifiers of different ECUs never collide. For every byte, deriving the ECU from
  its response identifier gives the ECU back (0 outside of 1..127); two valid ECUs share a request
  or response identifier only if they are the same, no request identifier is a response identifier,
  none of them is the functional address, and all are 11-bit identifiers the filters compare in full.
\<close>

lemma can_ids_separate:
  "uds_can_ecu_id_from_resp (uds_can_resp_id e) = (if 1 \<le> e \<and> e \<le> 127 then e else 0) \<and>
    (1 \<le> e \<and> e \<le> 127 \<and> 1 \<le> e' \<and> e' \<le> 127 \<longrightarrow>
      (uds_can_req_id e = uds_can_req_id e' \<longleftrightarrow> e = e') \<and>
      (uds_can_resp_id e = uds_can_resp_id e' \<longleftrightarrow> e = e') \<and>
      uds_can_req_id e \<noteq> uds_can_resp_id e' \<and>
      UDS_CAN_FUNCTIONAL_ID \<notin> {uds_can_req_id e, uds_can_resp_id e} \<and>
      uds_can_req_id e AND 0x7FF = uds_can_req_id e \<and> uds_can_resp_id e AND 0x7FF = uds_can_resp_id e)"
proof -
  have u: "unat (ucast x :: u32) = unat x" for x :: u8
    using unat_u8_less [of x] by (simp add: unsigned_ucast_eq take_bit_nat_eq_self)
  have num: "unat (uds_can_req_id x) = 0x600 + unat x" "unat (uds_can_resp_id x) = 0x680 + unat x"
    "unat x \<noteq> 0" "unat x \<le> 127" if "1 \<le> x" "x \<le> 127" for x
  proof -
    from that show x: "unat x \<noteq> 0" "unat x \<le> 127" by (simp_all add: word_le_nat_alt)
    from that have "\<not> x < 1" "\<not> x > 127" by (auto simp: word_le_nat_alt word_less_nat_alt)
    with x show "unat (uds_can_req_id x) = 0x600 + unat x" "unat (uds_can_resp_id x) = 0x680 + unat x"
      by (simp_all add: uds_can_req_id_def uds_can_resp_id_def UDS_CAN_REQ_BASE_def UDS_CAN_RESP_BASE_def
          unat_word_ariths(1) u)
  qed
  have low: "w AND 0x7FF = w" if "unat w < 2048" for w :: u32
  proof -
    have "w AND 0x7FF = take_bit 11 w" by (simp add: take_bit_eq_mask mask_eq_exp_minus_1)
    then show ?thesis using that by (simp add: word_unat_eq_iff unat_take_bit)
  qed
  have valid: "uds_can_ecu_id_from_resp (uds_can_resp_id e) = e" if "1 \<le> e" "e \<le> 127"
  proof -
    from that have "\<not> e < 1" "\<not> e > 127" by (auto simp: word_le_nat_alt word_less_nat_alt)
    then have r: "uds_can_resp_id e = 0x680 + ucast e" by (simp add: uds_can_resp_id_def UDS_CAN_RESP_BASE_def)
    have "uds_can_resp_id e > 0x680" using num [OF that] by (simp add: word_less_nat_alt)
    moreover have "\<not> (ucast e :: u32) < 1" "\<not> (ucast e :: u32) > 0x7F"
      using num(3,4) [OF that] by (simp_all add: word_less_nat_alt u)
    moreover have "ucast (ucast e :: u32) = e" by (rule bit_word_eqI) (simp add: bit_simps)
    ultimately show ?thesis by (simp add: uds_can_ecu_id_from_resp_def UDS_CAN_RESP_BASE_def r not_le [symmetric])
  qed
  have none: "uds_can_ecu_id_from_resp (uds_can_resp_id e) = 0" if "\<not> (1 \<le> e \<and> e \<le> 127)"
    using that by (auto simp: uds_can_resp_id_def uds_can_ecu_id_from_resp_def not_le)
  show ?thesis
  proof (intro conjI impI)
    show "uds_can_ecu_id_from_resp (uds_can_resp_id e) = (if 1 \<le> e \<and> e \<le> 127 then e else 0)"
      using valid none by auto
    assume "1 \<le> e \<and> e \<le> 127 \<and> 1 \<le> e' \<and> e' \<le> 127"
    then have v: "1 \<le> e" "e \<le> 127" "1 \<le> e'" "e' \<le> 127" by simp_all
    note n = num [OF v(1,2)] num [OF v(3,4)]
    show "uds_can_req_id e = uds_can_req_id e' \<longleftrightarrow> e = e'" "uds_can_resp_id e = uds_can_resp_id e' \<longleftrightarrow> e = e'"
      "uds_can_req_id e \<noteq> uds_can_resp_id e'"
      "UDS_CAN_FUNCTIONAL_ID \<notin> {uds_can_req_id e, uds_can_resp_id e}"
      using n by (auto simp: word_unat_eq_iff UDS_CAN_FUNCTIONAL_ID_def)
    show "uds_can_req_id e AND 0x7FF = uds_can_req_id e" "uds_can_resp_id e AND 0x7FF = uds_can_resp_id e"
      using n by (auto intro: low)
  qed
qed

end
