(* ===== verification/IsoTpFrame.thy ===== *)
theory IsoTpFrame
  imports CanSocket
begin

text \<open>
  The ISO-TP frame codecs of \<open>src/tp/iso_tp.c\<close>: classification, encoding and decoding of Single,
  First, Consecutive and Flow Control frames, for classic CAN and for CAN FD. Every encoder is shown
  to be inverted by its decoder; the laws are collected in the locale \<open>tp_codec\<close>, on which the
  segmentation loops of the transport layer rest, and the locale is interpreted on both codecs.
\<close>

section \<open>Types\<close>

datatype UdsTpFrameType =
    UDS_TP_FRAME_SF
  | UDS_TP_FRAME_FF
  | UDS_TP_FRAME_CF
  | UDS_TP_FRAME_FC
  | UDS_TP_FRAME_UNKNOWN

datatype UdsTpFlowStatus = UDS_TP_FC_CTS | UDS_TP_FC_WAIT | UDS_TP_FC_OVERFLOW

datatype UdsTpError =
    UDS_TP_OK
  | UDS_TP_ERR_PARAM
  | UDS_TP_ERR_TIMEOUT
  | UDS_TP_ERR_OVERFLOW
  | UDS_TP_ERR_SEQUENCE
  | UDS_TP_ERR_FRAME_TYPE
  | UDS_TP_ERR_BUF_FULL
  | UDS_TP_ERR_SEND
  | UDS_TP_ERR_INPROGRESS
  | UDS_TP_ERR_RECV
  | UDS_TP_ERR_PDU_LEN
  | UDS_TP_ERR_WAIT_LIMIT

fun flow_code :: "UdsTpFlowStatus \<Rightarrow> u32" where
  "flow_code UDS_TP_FC_CTS = 0"
| "flow_code UDS_TP_FC_WAIT = 1"
| "flow_code UDS_TP_FC_OVERFLOW = 2"

definition flow_of_byte :: "u8 \<Rightarrow> UdsTpFlowStatus" where
  "flow_of_byte b = (if b = 0 then UDS_TP_FC_CTS else if b = 1 then UDS_TP_FC_WAIT else UDS_TP_FC_OVERFLOW)"

definition UDS_TP_MAX_PDU_LEN :: nat where "UDS_TP_MAX_PDU_LEN = 4095"
definition UDS_TP_SF_MAX_DATA :: nat where "UDS_TP_SF_MAX_DATA = 7"
definition UDS_TP_FF_DATA_BYTES :: nat where "UDS_TP_FF_DATA_BYTES = 6"
definition UDS_TP_CF_DATA_BYTES :: nat where "UDS_TP_CF_DATA_BYTES = 7"

lemmas tp_consts = UDS_TP_MAX_PDU_LEN_def UDS_TP_SF_MAX_DATA_def UDS_TP_FF_DATA_BYTES_def UDS_TP_CF_DATA_BYTES_def

section \<open>Classification\<close>

text \<open>The type nibble of the first byte.\<close>

definition frame_type_of_byte :: "u8 \<Rightarrow> UdsTpFrameType" where
  "frame_type_of_byte b =
     (let nibble = drop_bit 4 b AND 0x0F
      in if nibble > 3 then UDS_TP_FRAME_UNKNOWN
         else if nibble = 0 then UDS_TP_FRAME_SF
         else if nibble = 1 then UDS_TP_FRAME_FF
         else if nibble = 2 then UDS_TP_FRAME_CF
         else UDS_TP_FRAME_FC)"

definition uds_tp_frame_type :: "can_frame ptr \<Rightarrow> UdsTpFrameType option" where
  "uds_tp_frame_type frame =
     (case frame of None \<Rightarrow> Some UDS_TP_FRAME_UNKNOWN
      | Some f \<Rightarrow>
          if can_dlc f = 0 then Some UDS_TP_FRAME_UNKNOWN
          else do { b \<leftarrow> mem_get (Some (can_data f)) 0; Some (frame_type_of_byte b) })"

definition uds_tp_frame_type_fd :: "canfd_frame ptr \<Rightarrow> UdsTpFrameType option" where
  "uds_tp_frame_type_fd frame =
     (case frame of None \<Rightarrow> Some UDS_TP_FRAME_UNKNOWN
      | Some f \<Rightarrow>
          if fd_len f = 0 then Some UDS_TP_FRAME_UNKNOWN
          else do { b \<leftarrow> mem_get (Some (fd_data f)) 0; Some (frame_type_of_byte b) })"

section \<open>Classic encoders\<close>

text \<open>\<open>memset(out, 0, sizeof *out)\<close> clears every field; the rest of a frame is what follows it.\<close>

definition uds_tp_encode_sf ::
  "can_frame ptr \<Rightarrow> u32 \<Rightarrow> u8 list ptr \<Rightarrow> nat \<Rightarrow> (UdsTpError \<times> can_frame ptr) option" where
  "uds_tp_encode_sf out cid data len =
     (if out = None \<or> data = None \<or> len = 0 \<or> len > UDS_TP_SF_MAX_DATA
      then Some (UDS_TP_ERR_PARAM, out)
      else do {
        d \<leftarrow> mem_set (Some (replicate 8 0)) 0 (of_nat len);
        d \<leftarrow> mem_cpy (Some d) 1 data 0 len;
        Some (UDS_TP_OK, Some \<lparr>can_id = cid, can_dlc = of_nat (1 + len), can_data = d\<rparr>) })"

definition uds_tp_encode_ff ::
  "can_frame ptr \<Rightarrow> u32 \<Rightarrow> u8 list ptr \<Rightarrow> u32 \<Rightarrow> (UdsTpError \<times> can_frame ptr) option" where
  "uds_tp_encode_ff out cid data total_len =
     (if out = None \<or> data = None then Some (UDS_TP_ERR_PARAM, out)
      else if total_len < 8 \<or> total_len > of_nat UDS_TP_MAX_PDU_LEN then Some (UDS_TP_ERR_PDU_LEN, out)
      else do {
        d \<leftarrow> mem_put (Some (replicate 8 0)) 0
               [ucast (0x10 OR (drop_bit 8 total_len AND 0x0F)), ucast (total_len AND 0xFF)];
        d \<leftarrow> mem_cpy (Some d) 2 data 0 UDS_TP_FF_DATA_BYTES;
        Some (UDS_TP_OK, Some \<lparr>can_id = cid, can_dlc = 8, can_data = d\<rparr>) })"

definition uds_tp_encode_cf ::
  "can_frame ptr \<Rightarrow> u32 \<Rightarrow> u8 list ptr \<Rightarrow> nat \<Rightarrow> u8 \<Rightarrow> (UdsTpError \<times> can_frame ptr) option" where
  "uds_tp_encode_cf out cid data len sn =
     (if out = None \<or> data = None \<or> len = 0 \<or> len > UDS_TP_CF_DATA_BYTES
      then Some (UDS_TP_ERR_PARAM, out)
      else do {
        d \<leftarrow> mem_set (Some (replicate 8 0)) 0 (0x20 OR (sn AND 0x0F));
        d \<leftarrow> mem_cpy (Some d) 1 data 0 len;
        Some (UDS_TP_OK, Some \<lparr>can_id = cid, can_dlc = 8, can_data = d\<rparr>) })"

text \<open>The flow status arrives as the integer of its enum.\<close>

definition uds_tp_encode_fc ::
  "can_frame ptr \<Rightarrow> u32 \<Rightarrow> u32 \<Rightarrow> u8 \<Rightarrow> u8 \<Rightarrow> (UdsTpError \<times> can_frame ptr) option" where
  "uds_tp_encode_fc out cid fs bs stmin =
     (if out = None then Some (UDS_TP_ERR_PARAM, out)
      else if fs > flow_code UDS_TP_FC_OVERFLOW then Some (UDS_TP_ERR_PARAM, out)
      else do {
        d \<leftarrow> mem_put (Some (replicate 8 0)) 0 [0x30 OR ucast fs, bs, stmin];
        Some (UDS_TP_OK, Some \<lparr>can_id = cid, can_dlc = 3, can_data = d\<rparr>) })"

section \<open>Classic decoders\<close>

text \<open>A buffer pointer \<open>buf + off\<close> is the buffer with the offset.\<close>

definition uds_tp_decode_sf ::
  "can_frame ptr \<Rightarrow> u8 list ptr \<Rightarrow> nat \<Rightarrow> nat ptr \<Rightarrow> (UdsTpError \<times> u8 list ptr \<times> nat ptr) option" where
  "uds_tp_decode_sf frame buf buf_size out_len =
     (case frame of None \<Rightarrow> Some (UDS_TP_ERR_PARAM, buf, out_len)
      | Some f \<Rightarrow>
          if buf = None \<or> out_len = None \<or> buf_size = 0 then Some (UDS_TP_ERR_PARAM, buf, out_len)
          else do {
            ty \<leftarrow> uds_tp_frame_type frame;
            if ty \<noteq> UDS_TP_FRAME_SF then Some (UDS_TP_ERR_FRAME_TYPE, buf, out_len)
            else do {
              b0 \<leftarrow> mem_get (Some (can_data f)) 0;
              let len = unat (b0 AND 0x0F);
              if len = 0 \<or> len > UDS_TP_SF_MAX_DATA then Some (UDS_TP_ERR_PARAM, buf, out_len)
              else if unat (can_dlc f) < 1 + len then Some (UDS_TP_ERR_PARAM, buf, out_len)
              else if len > buf_size then Some (UDS_TP_ERR_BUF_FULL, buf, out_len)
              else do {
                b \<leftarrow> mem_cpy buf 0 (Some (can_data f)) 1 len;
                Some (UDS_TP_OK, Some b, Some len) } } })"

definition uds_tp_decode_ff ::
  "can_frame ptr \<Rightarrow> u8 list ptr \<Rightarrow> nat \<Rightarrow> u32 ptr \<Rightarrow> (UdsTpError \<times> u8 list ptr \<times> u32 ptr) option" where
  "uds_tp_decode_ff frame buf buf_size total_len =
     (case frame of None \<Rightarrow> Some (UDS_TP_ERR_PARAM, buf, total_len)
      | Some f \<Rightarrow>
          if buf = None \<or> total_len = None \<or> buf_size < UDS_TP_FF_DATA_BYTES
          then Some (UDS_TP_ERR_PARAM, buf, total_len)
          else do {
            ty \<leftarrow> uds_tp_frame_type frame;
            if ty \<noteq> UDS_TP_FRAME_FF then Some (UDS_TP_ERR_FRAME_TYPE, buf, total_len)
            else if can_dlc f < 8 then Some (UDS_TP_ERR_PARAM, buf, total_len)
            else do {
              b0 \<leftarrow> mem_get (Some (can_data f)) 0;
              b1 \<leftarrow> mem_get (Some (can_data f)) 1;
              let len = push_bit 8 (ucast (b0 AND 0x0F)) OR ucast b1;
              if len < 8 \<or> len > of_nat UDS_TP_MAX_PDU_LEN then Some (UDS_TP_ERR_PDU_LEN, buf, total_len)
              else do {
                b \<leftarrow> mem_cpy buf 0 (Some (can_data f)) 2 UDS_TP_FF_DATA_BYTES;
                Some (UDS_TP_OK, Some b, Some len) } } })"

definition uds_tp_decode_cf ::
  "can_frame ptr \<Rightarrow> u8 ptr \<Rightarrow> u8 list ptr \<Rightarrow> nat \<Rightarrow> nat \<Rightarrow> nat \<Rightarrow> (UdsTpError \<times> u8 ptr \<times> u8 list ptr) option" where
  "uds_tp_decode_cf frame sn_out buf off buf_size max_data =
     (case frame of None \<Rightarrow> Some (UDS_TP_ERR_PARAM, sn_out, buf)
      | Some f \<Rightarrow>
          if sn_out = None \<or> buf = None \<or> buf_size = 0 then Some (UDS_TP_ERR_PARAM, sn_out, buf)
          else if max_data = 0 \<or> max_data > UDS_TP_CF_DATA_BYTES then Some (UDS_TP_ERR_PARAM, sn_out, buf)
          else do {
            ty \<leftarrow> uds_tp_frame_type frame;
            if ty \<noteq> UDS_TP_FRAME_CF then Some (UDS_TP_ERR_FRAME_TYPE, sn_out, buf)
            else if can_dlc f < 2 then Some (UDS_TP_ERR_PARAM, sn_out, buf)
            else if max_data > buf_size then Some (UDS_TP_ERR_BUF_FULL, sn_out, buf)
            else do {
              b0 \<leftarrow> mem_get (Some (can_data f)) 0;
              b \<leftarrow> mem_cpy buf off (Some (can_data f)) 1 max_data;
              Some (UDS_TP_OK, Some (b0 AND 0x0F), Some b) } })"

definition uds_tp_decode_fc ::
  "can_frame ptr \<Rightarrow> UdsTpFlowStatus ptr \<Rightarrow> u8 ptr \<Rightarrow> u8 ptr \<Rightarrow>
   (UdsTpError \<times> UdsTpFlowStatus ptr \<times> u8 ptr \<times> u8 ptr) option" where
  "uds_tp_decode_fc frame fs bs stmin =
     (case frame of None \<Rightarrow> Some (UDS_TP_ERR_PARAM, fs, bs, stmin)
      | Some f \<Rightarrow>
          if fs = None \<or> bs = None \<or> stmin = None then Some (UDS_TP_ERR_PARAM, fs, bs, stmin)
          else do {
            ty \<leftarrow> uds_tp_frame_type frame;
            if ty \<noteq> UDS_TP_FRAME_FC then Some (UDS_TP_ERR_FRAME_TYPE, fs, bs, stmin)
            else if can_dlc f < 3 then Some (UDS_TP_ERR_PARAM, fs, bs, stmin)
            else do {
              b0 \<leftarrow> mem_get (Some (can_data f)) 0;
              let fs_raw = b0 AND 0x0F;
              if fs_raw > 2 then Some (UDS_TP_ERR_PARAM, fs, bs, stmin)
              else do {
                b1 \<leftarrow> mem_get (Some (can_data f)) 1;
                b2 \<leftarrow> mem_get (Some (can_data f)) 2;
                Some (UDS_TP_OK, Some (flow_of_byte fs_raw), Some b1, Some b2) } } })"

section \<open>CAN FD encoders\<close>

definition UDS_TP_CANFD_SF_MAX_DATA :: nat where "UDS_TP_CANFD_SF_MAX_DATA = 62"
definition UDS_TP_CANFD_FF_DATA_BYTES :: nat where "UDS_TP_CANFD_FF_DATA_BYTES = 62"
definition UDS_TP_CANFD_FF_EXT_DATA_BYTES :: nat where "UDS_TP_CANFD_FF_EXT_DATA_BYTES = 58"
definition UDS_TP_CANFD_CF_DATA_BYTES :: nat where "UDS_TP_CANFD_CF_DATA_BYTES = 63"
definition UDS_TP_CANFD_FF_EXT_THRESHOLD :: nat where "UDS_TP_CANFD_FF_EXT_THRESHOLD = 4095"

lemmas fd_consts = UDS_TP_CANFD_SF_MAX_DATA_def UDS_TP_CANFD_FF_DATA_BYTES_def
  UDS_TP_CANFD_FF_EXT_DATA_BYTES_def UDS_TP_CANFD_CF_DATA_BYTES_def UDS_TP_CANFD_FF_EXT_THRESHOLD_def

definition uds_tp_encode_sf_fd ::
  "canfd_frame ptr \<Rightarrow> u32 \<Rightarrow> u8 list ptr \<Rightarrow> nat \<Rightarrow> (UdsTpError \<times> canfd_frame ptr) option" where
  "uds_tp_encode_sf_fd out cid data len =
     (if out = None \<or> data = None \<or> len = 0 \<or> len > UDS_TP_CANFD_SF_MAX_DATA
      then Some (UDS_TP_ERR_PARAM, out)
      else if len \<le> UDS_TP_SF_MAX_DATA then do {
        d \<leftarrow> mem_set (Some (replicate 64 0)) 0 (of_nat len);
        d \<leftarrow> mem_cpy (Some d) 1 data 0 len;
        Some (UDS_TP_OK, Some \<lparr>fd_can_id = cid, fd_len = of_nat (1 + len), fd_data = d\<rparr>) }
      else do {
        d \<leftarrow> mem_put (Some (replicate 64 0)) 0 [0x00, of_nat len];
        d \<leftarrow> mem_cpy (Some d) 2 data 0 len;
        Some (UDS_TP_OK, Some \<lparr>fd_can_id = cid, fd_len = of_nat (2 + len), fd_data = d\<rparr>) })"

definition uds_tp_encode_ff_fd ::
  "canfd_frame ptr \<Rightarrow> u32 \<Rightarrow> u8 list ptr \<Rightarrow> u32 \<Rightarrow> (UdsTpError \<times> canfd_frame ptr) option" where
  "uds_tp_encode_ff_fd out cid data total_len =
     (if out = None \<or> data = None then Some (UDS_TP_ERR_PARAM, out)
      else if total_len = 0 then Some (UDS_TP_ERR_PDU_LEN, out)
      else if total_len \<le> of_nat UDS_TP_CANFD_FF_EXT_THRESHOLD then
        (if total_len \<le> of_nat UDS_TP_CANFD_SF_MAX_DATA
         then Some (UDS_TP_ERR_PDU_LEN, Some \<lparr>fd_can_id = cid, fd_len = 0, fd_data = replicate 64 0\<rparr>)
         else do {
           let embed = (if total_len > of_nat UDS_TP_CANFD_FF_DATA_BYTES
                        then UDS_TP_CANFD_FF_DATA_BYTES else unat total_len);
           d \<leftarrow> mem_put (Some (replicate 64 0)) 0
                  [ucast (0x10 OR (drop_bit 8 total_len AND 0x0F)), ucast (total_len AND 0xFF)];
           d \<leftarrow> mem_cpy (Some d) 2 data 0 embed;
           Some (UDS_TP_OK, Some \<lparr>fd_can_id = cid, fd_len = of_nat (2 + embed), fd_data = d\<rparr>) })
      else do {
        let embed = (if total_len > of_nat UDS_TP_CANFD_FF_EXT_DATA_BYTES
                     then UDS_TP_CANFD_FF_EXT_DATA_BYTES else unat total_len);
        d \<leftarrow> mem_put (Some (replicate 64 0)) 0
               [0x10, 0x00, byte_of 3 total_len, byte_of 2 total_len, byte_of 1 total_len, byte_of 0 total_len];
        d \<leftarrow> mem_cpy (Some d) 6 data 0 embed;
        Some (UDS_TP_OK, Some \<lparr>fd_can_id = cid, fd_len = of_nat (6 + embed), fd_data = d\<rparr>) })"

definition uds_tp_encode_cf_fd ::
  "canfd_frame ptr \<Rightarrow> u32 \<Rightarrow> u8 list ptr \<Rightarrow> nat \<Rightarrow> u8 \<Rightarrow> (UdsTpError \<times> canfd_frame ptr) option" where
  "uds_tp_encode_cf_fd out cid data len sn =
     (if out = None \<or> data = None \<or> len = 0 \<or> len > UDS_TP_CANFD_CF_DATA_BYTES
      then Some (UDS_TP_ERR_PARAM, out)
      else do {
        d \<leftarrow> mem_set (Some (replicate 64 0)) 0 (0x20 OR (sn AND 0x0F));
        d \<leftarrow> mem_cpy (Some d) 1 data 0 len;
        Some (UDS_TP_OK, Some \<lparr>fd_can_id = cid, fd_len = of_nat (1 + len), fd_data = d\<rparr>) })"

definition uds_tp_encode_fc_fd ::
  "canfd_frame ptr \<Rightarrow> u32 \<Rightarrow> u32 \<Rightarrow> u8 \<Rightarrow> u8 \<Rightarrow> (UdsTpError \<times> canfd_frame ptr) option" where
  "uds_tp_encode_fc_fd out cid fs bs stmin =
     (if out = None then Some (UDS_TP_ERR_PARAM, out)
      else if fs > flow_code UDS_TP_FC_OVERFLOW then Some (UDS_TP_ERR_PARAM, out)
      else do {
        d \<leftarrow> mem_put (Some (replicate 64 0)) 0 [0x30 OR ucast fs, bs, stmin];
        Some (UDS_TP_OK, Some \<lparr>fd_can_id = cid, fd_len = 3, fd_data = d\<rparr>) })"

section \<open>CAN FD decoders\<close>

definition uds_tp_decode_sf_fd ::
  "canfd_frame ptr \<Rightarrow> u8 list ptr \<Rightarrow> nat \<Rightarrow> nat ptr \<Rightarrow> (UdsTpError \<times> u8 list ptr \<times> nat ptr) option" where
  "uds_tp_decode_sf_fd frame buf buf_size out_len =
     (case frame of None \<Rightarrow> Some (UDS_TP_ERR_PARAM, buf, out_len)
      | Some f \<Rightarrow>
          if buf = None \<or> out_len = None \<or> buf_size = 0 then Some (UDS_TP_ERR_PARAM, buf, out_len)
          else do {
            ty \<leftarrow> uds_tp_frame_type_fd frame;
            if ty \<noteq> UDS_TP_FRAME_SF then Some (UDS_TP_ERR_FRAME_TYPE, buf, out_len)
            else do {
              b0 \<leftarrow> mem_get (Some (fd_data f)) 0;
              b1 \<leftarrow> mem_get (Some (fd_data f)) 1;
              let (bad, len, data_offset) =
                (if b0 AND 0x0F = 0
                 then (fd_len f < 2 \<or> unat b1 < UDS_TP_SF_MAX_DATA + 1 \<or> unat b1 > UDS_TP_CANFD_SF_MAX_DATA,
                       unat b1, 2)
                 else (unat (b0 AND 0x0F) > UDS_TP_SF_MAX_DATA, unat (b0 AND 0x0F), 1));
              if bad then Some (UDS_TP_ERR_PARAM, buf, out_len)
              else if unat (fd_len f) < data_offset + len then Some (UDS_TP_ERR_PARAM, buf, out_len)
              else if len > buf_size then Some (UDS_TP_ERR_BUF_FULL, buf, out_len)
              else do {
                b \<leftarrow> mem_cpy buf 0 (Some (fd_data f)) data_offset len;
                Some (UDS_TP_OK, Some b, Some len) } } })"

text \<open>The bytes that follow a header of \<open>off\<close> bytes in a frame of length \<open>len\<close>, at most \<open>cap\<close>.\<close>

definition embedded :: "nat \<Rightarrow> nat \<Rightarrow> nat \<Rightarrow> nat" where
  "embedded len off cap =
     (let embed = (if len > off then len - off else 0) in if embed > cap then cap else embed)"

definition uds_tp_decode_ff_fd ::
  "canfd_frame ptr \<Rightarrow> u8 list ptr \<Rightarrow> nat \<Rightarrow> u32 ptr \<Rightarrow> nat ptr \<Rightarrow>
   (UdsTpError \<times> u8 list ptr \<times> u32 ptr \<times> nat ptr) option" where
  "uds_tp_decode_ff_fd frame buf buf_size total_len ff_data_bytes =
     (case frame of None \<Rightarrow> Some (UDS_TP_ERR_PARAM, buf, total_len, ff_data_bytes)
      | Some f \<Rightarrow>
          if buf = None \<or> total_len = None \<or> ff_data_bytes = None
          then Some (UDS_TP_ERR_PARAM, buf, total_len, ff_data_bytes)
          else do {
            ty \<leftarrow> uds_tp_frame_type_fd frame;
            if ty \<noteq> UDS_TP_FRAME_FF then Some (UDS_TP_ERR_FRAME_TYPE, buf, total_len, ff_data_bytes)
            else do {
              b0 \<leftarrow> mem_get (Some (fd_data f)) 0;
              b1 \<leftarrow> mem_get (Some (fd_data f)) 1;
              (rc, len, data_offset, embed) \<leftarrow>
                (if b1 = 0 \<and> b0 AND 0x0F = 0 then
                   (if fd_len f < 6 then Some (UDS_TP_ERR_PARAM, 0, 0, 0)
                    else do {
                      hd \<leftarrow> mem_read (Some (fd_data f)) 2 4;
                      let len = be32 (hd ! 0) (hd ! 1) (hd ! 2) (hd ! 3);
                      if len = 0 then Some (UDS_TP_ERR_PDU_LEN, 0, 0, 0)
                      else Some (UDS_TP_OK, len, 6, embedded (unat (fd_len f)) 6 UDS_TP_CANFD_FF_EXT_DATA_BYTES) })
                 else
                   (let len = push_bit 8 (ucast (b0 AND 0x0F)) OR ucast b1
                    in if len \<le> of_nat UDS_TP_CANFD_SF_MAX_DATA \<or> len > of_nat UDS_TP_CANFD_FF_EXT_THRESHOLD
                       then Some (UDS_TP_ERR_PDU_LEN, 0, 0, 0)
                       else Some (UDS_TP_OK, len, 2, embedded (unat (fd_len f)) 2 UDS_TP_CANFD_FF_DATA_BYTES)));
              if rc \<noteq> UDS_TP_OK then Some (rc, buf, total_len, ff_data_bytes)
              else if embed > buf_size then Some (UDS_TP_ERR_BUF_FULL, buf, total_len, ff_data_bytes)
              else do {
                b \<leftarrow> mem_cpy buf 0 (Some (fd_data f)) data_offset embed;
                Some (UDS_TP_OK, Some b, Some len, Some embed) } } })"

definition uds_tp_decode_cf_fd ::
  "canfd_frame ptr \<Rightarrow> u8 ptr \<Rightarrow> u8 list ptr \<Rightarrow> nat \<Rightarrow> nat \<Rightarrow> nat \<Rightarrow> (UdsTpError \<times> u8 ptr \<times> u8 list ptr) option" where
  "uds_tp_decode_cf_fd frame sn_out buf off buf_size max_data =
     (case frame of None \<Rightarrow> Some (UDS_TP_ERR_PARAM, sn_out, buf)
      | Some f \<Rightarrow>
          if sn_out = None \<or> buf = None \<or> buf_size = 0 then Some (UDS_TP_ERR_PARAM, sn_out, buf)
          else if max_data = 0 \<or> max_data > UDS_TP_CANFD_CF_DATA_BYTES then Some (UDS_TP_ERR_PARAM, sn_out, buf)
          else do {
            ty \<leftarrow> uds_tp_frame_type_fd frame;
            if ty \<noteq> UDS_TP_FRAME_CF then Some (UDS_TP_ERR_FRAME_TYPE, sn_out, buf)
            else if fd_len f < 2 then Some (UDS_TP_ERR_PARAM, sn_out, buf)
            else if max_data > buf_size then Some (UDS_TP_ERR_BUF_FULL, sn_out, buf)
            else do {
              b0 \<leftarrow> mem_get (Some (fd_data f)) 0;
              b \<leftarrow> mem_cpy buf off (Some (fd_data f)) 1 max_data;
              Some (UDS_TP_OK, Some (b0 AND 0x0F), Some b) } })"

definition uds_tp_decode_fc_fd ::
  "canfd_frame ptr \<Rightarrow> UdsTpFlowStatus ptr \<Rightarrow> u8 ptr \<Rightarrow> u8 ptr \<Rightarrow>
   (UdsTpError \<times> UdsTpFlowStatus ptr \<times> u8 ptr \<times> u8 ptr) option" where
  "uds_tp_decode_fc_fd frame fs bs stmin =
     (case frame of None \<Rightarrow> Some (UDS_TP_ERR_PARAM, fs, bs, stmin)
      | Some f \<Rightarrow>
          if fs = None \<or> bs = None \<or> stmin = None then Some (UDS_TP_ERR_PARAM, fs, bs, stmin)
          else do {
            ty \<leftarrow> uds_tp_frame_type_fd frame;
            if ty \<noteq> UDS_TP_FRAME_FC then Some (UDS_TP_ERR_FRAME_TYPE, fs, bs, stmin)
            else if fd_len f < 3 then Some (UDS_TP_ERR_PARAM, fs, bs, stmin)
            else do {
              b0 \<leftarrow> mem_get (Some (fd_data f)) 0;
              let fs_raw = b0 AND 0x0F;
              if fs_raw > 2 then Some (UDS_TP_ERR_PARAM, fs, bs, stmin)
              else do {
                b1 \<leftarrow> mem_get (Some (fd_data f)) 1;
                b2 \<leftarrow> mem_get (Some (fd_data f)) 2;
                Some (UDS_TP_OK, Some (flow_of_byte fs_raw), Some b1, Some b2) } } })"

section \<open>PCI bytes\<close>

text \<open>The high nibble of a first byte is the frame type, the low one its argument.\<close>

lemma pci_nibbles_mask:
  "drop_bit 4 (push_bit 4 t OR (x AND mask 4)) AND mask 4 = (t AND mask 4 :: u8)"
  "(push_bit 4 t OR (x AND mask 4)) AND mask 4 = (x AND mask 4 :: u8)"
  by (rule bit_word_eqI, auto simp: bit_simps)+

lemma mask4: "(0x0F :: u8) = mask 4" "(0x0F :: u32) = mask 4" "(0xFF :: u32) = mask 8"
  by (simp_all add: mask_eq_exp_minus_1)

lemma pci_nibbles:
  "drop_bit 4 (0x10 OR (x AND 0x0F)) AND 0x0F = (1 :: u8)" "(0x10 OR (x AND 0x0F)) AND 0x0F = (x AND 0x0F :: u8)"
  "drop_bit 4 (0x20 OR (x AND 0x0F)) AND 0x0F = (2 :: u8)" "(0x20 OR (x AND 0x0F)) AND 0x0F = (x AND 0x0F :: u8)"
  "drop_bit 4 (0x30 OR (x AND 0x0F)) AND 0x0F = (3 :: u8)" "(0x30 OR (x AND 0x0F)) AND 0x0F = (x AND 0x0F :: u8)"
  using pci_nibbles_mask [of 1 x] pci_nibbles_mask [of 2 x] pci_nibbles_mask [of 3 x]
  by (simp_all flip: mask4)

section \<open>The codec interface\<close>

text \<open>
  The functions of one frame layout, as the segmentation loops use them, with the sizes of the
  layout: the largest Single Frame payload and PDU, the payload of a Consecutive Frame, the bytes a
  First Frame carries for a PDU of a given length, and the content of an uninitialised frame.
\<close>

record 'f tp_codec =
  cd_sf_max :: nat
  cd_max :: nat
  cd_cf_max :: nat
  cd_ff_embed :: "nat \<Rightarrow> nat"
  cd_blank :: 'f
  cd_type :: "'f ptr \<Rightarrow> UdsTpFrameType option"
  cd_enc_sf :: "'f ptr \<Rightarrow> u32 \<Rightarrow> u8 list ptr \<Rightarrow> nat \<Rightarrow> (UdsTpError \<times> 'f ptr) option"
  cd_enc_ff :: "'f ptr \<Rightarrow> u32 \<Rightarrow> u8 list ptr \<Rightarrow> u32 \<Rightarrow> (UdsTpError \<times> 'f ptr) option"
  cd_enc_cf :: "'f ptr \<Rightarrow> u32 \<Rightarrow> u8 list ptr \<Rightarrow> nat \<Rightarrow> u8 \<Rightarrow> (UdsTpError \<times> 'f ptr) option"
  cd_enc_fc :: "'f ptr \<Rightarrow> u32 \<Rightarrow> u32 \<Rightarrow> u8 \<Rightarrow> u8 \<Rightarrow> (UdsTpError \<times> 'f ptr) option"
  cd_dec_sf :: "'f ptr \<Rightarrow> u8 list ptr \<Rightarrow> nat \<Rightarrow> nat ptr \<Rightarrow> (UdsTpError \<times> u8 list ptr \<times> nat ptr) option"
  cd_dec_ff :: "'f ptr \<Rightarrow> u8 list ptr \<Rightarrow> nat \<Rightarrow> u32 ptr \<Rightarrow> nat ptr \<Rightarrow>
    (UdsTpError \<times> u8 list ptr \<times> u32 ptr \<times> nat ptr) option"
  cd_dec_cf :: "'f ptr \<Rightarrow> u8 ptr \<Rightarrow> u8 list ptr \<Rightarrow> nat \<Rightarrow> nat \<Rightarrow> nat \<Rightarrow> (UdsTpError \<times> u8 ptr \<times> u8 list ptr) option"
  cd_dec_fc :: "'f ptr \<Rightarrow> UdsTpFlowStatus ptr \<Rightarrow> u8 ptr \<Rightarrow> u8 ptr \<Rightarrow>
    (UdsTpError \<times> UdsTpFlowStatus ptr \<times> u8 ptr \<times> u8 ptr) option"

definition classic_codec :: "can_frame \<Rightarrow> can_frame tp_codec" where
  "classic_codec blank = \<lparr>cd_sf_max = UDS_TP_SF_MAX_DATA, cd_max = UDS_TP_MAX_PDU_LEN,
     cd_cf_max = UDS_TP_CF_DATA_BYTES, cd_ff_embed = (\<lambda>_. UDS_TP_FF_DATA_BYTES), cd_blank = blank,
     cd_type = uds_tp_frame_type, cd_enc_sf = uds_tp_encode_sf, cd_enc_ff = uds_tp_encode_ff,
     cd_enc_cf = uds_tp_encode_cf, cd_enc_fc = uds_tp_encode_fc, cd_dec_sf = uds_tp_decode_sf,
     cd_dec_ff = (\<lambda>f b n t e. do {
       (rc, b, t) \<leftarrow> uds_tp_decode_ff f b n t;
       Some (rc, b, t, Some UDS_TP_FF_DATA_BYTES) }),
     cd_dec_cf = uds_tp_decode_cf, cd_dec_fc = uds_tp_decode_fc\<rparr>"

definition fd_ff_embed :: "nat \<Rightarrow> nat" where
  "fd_ff_embed len =
     (let ff_embed = (if len \<le> UDS_TP_CANFD_FF_EXT_THRESHOLD then UDS_TP_CANFD_FF_DATA_BYTES
                      else UDS_TP_CANFD_FF_EXT_DATA_BYTES)
      in if ff_embed > len then len else ff_embed)"

definition fd_codec :: "canfd_frame \<Rightarrow> canfd_frame tp_codec" where
  "fd_codec blank = \<lparr>cd_sf_max = UDS_TP_CANFD_SF_MAX_DATA, cd_max = 2 ^ 32 - 1,
     cd_cf_max = UDS_TP_CANFD_CF_DATA_BYTES, cd_ff_embed = fd_ff_embed, cd_blank = blank,
     cd_type = uds_tp_frame_type_fd, cd_enc_sf = uds_tp_encode_sf_fd, cd_enc_ff = uds_tp_encode_ff_fd,
     cd_enc_cf = uds_tp_encode_cf_fd, cd_enc_fc = uds_tp_encode_fc_fd, cd_dec_sf = uds_tp_decode_sf_fd,
     cd_dec_ff = uds_tp_decode_ff_fd, cd_dec_cf = uds_tp_decode_cf_fd, cd_dec_fc = uds_tp_decode_fc_fd\<rparr>"

text \<open>
  The laws: every encoder accepts what the segmentation gives it, whatever the frame held before,
  and the decoders get back exactly what was encoded, at the place they are asked to put it.
\<close>

locale tp_codec =
  fixes cd :: "'f tp_codec"
  assumes cf_pos: "0 < cd_cf_max cd"
    and max_small: "cd_max cd < 2 ^ 32"
    and embed: "cd_sf_max cd < m \<Longrightarrow> 0 < cd_ff_embed cd m \<and> cd_ff_embed cd m < m"
    and sf_law: "d \<noteq> [] \<Longrightarrow> length d \<le> cd_sf_max cd \<Longrightarrow>
      \<exists>f. (\<forall>g. cd_enc_sf cd (Some g) cid (Some d) (length d) = Some (UDS_TP_OK, Some f)) \<and>
        cd_type cd (Some f) = Some UDS_TP_FRAME_SF \<and>
        (\<forall>buf n l. length d \<le> n \<and> n \<le> length buf \<longrightarrow>
          cd_dec_sf cd (Some f) (Some buf) n (Some l) = Some (UDS_TP_OK, Some (splice 0 d buf), Some (length d)))"
    and ff_law: "cd_sf_max cd < length d \<Longrightarrow> length d \<le> cd_max cd \<Longrightarrow>
      \<exists>f. (\<forall>g. cd_enc_ff cd (Some g) cid (Some d) (of_nat (length d)) = Some (UDS_TP_OK, Some f)) \<and>
        cd_type cd (Some f) = Some UDS_TP_FRAME_FF \<and>
        (\<forall>buf n t e. length d \<le> n \<and> n \<le> length buf \<longrightarrow>
          cd_dec_ff cd (Some f) (Some buf) n (Some t) (Some e) =
            Some (UDS_TP_OK, Some (splice 0 (take (cd_ff_embed cd (length d)) d) buf),
              Some (of_nat (length d)), Some (cd_ff_embed cd (length d))))"
    and cf_law: "0 < m \<Longrightarrow> m \<le> cd_cf_max cd \<Longrightarrow> m \<le> length d \<Longrightarrow>
      \<exists>f. (\<forall>g. cd_enc_cf cd (Some g) cid (Some d) m sn = Some (UDS_TP_OK, Some f)) \<and>
        cd_type cd (Some f) = Some UDS_TP_FRAME_CF \<and>
        (\<forall>buf off n s. m \<le> n \<and> off + m \<le> length buf \<longrightarrow>
          cd_dec_cf cd (Some f) (Some s) (Some buf) off n m =
            Some (UDS_TP_OK, Some (sn AND 0x0F), Some (splice off (take m d) buf)))"
    and fc_law: "\<exists>f. (\<forall>g. cd_enc_fc cd (Some g) cid (flow_code fs) bs st = Some (UDS_TP_OK, Some f)) \<and>
        (\<forall>fs0 bs0 st0. cd_dec_fc cd (Some f) (Some fs0) (Some bs0) (Some st0) =
          Some (UDS_TP_OK, Some fs, Some bs, Some st))"
begin

text \<open>The frames themselves.\<close>

definition sf_frame :: "u32 \<Rightarrow> u8 list \<Rightarrow> 'f" where
  "sf_frame cid d = the (snd (the (cd_enc_sf cd (Some (cd_blank cd)) cid (Some d) (length d))))"

definition ff_frame :: "u32 \<Rightarrow> u8 list \<Rightarrow> 'f" where
  "ff_frame cid d = the (snd (the (cd_enc_ff cd (Some (cd_blank cd)) cid (Some d) (of_nat (length d)))))"

definition cf_frame :: "u32 \<Rightarrow> u8 list \<Rightarrow> nat \<Rightarrow> u8 \<Rightarrow> 'f" where
  "cf_frame cid d m sn = the (snd (the (cd_enc_cf cd (Some (cd_blank cd)) cid (Some d) m sn)))"

definition fc_frame :: "u32 \<Rightarrow> UdsTpFlowStatus \<Rightarrow> u8 \<Rightarrow> u8 \<Rightarrow> 'f" where
  "fc_frame cid fs bs st = the (snd (the (cd_enc_fc cd (Some (cd_blank cd)) cid (flow_code fs) bs st)))"

lemma sf:
  assumes "d \<noteq> []" "length d \<le> cd_sf_max cd"
  shows "cd_enc_sf cd (Some g) cid (Some d) (length d) = Some (UDS_TP_OK, Some (sf_frame cid d))"
    "cd_type cd (Some (sf_frame cid d)) = Some UDS_TP_FRAME_SF"
    "length d \<le> n \<Longrightarrow> n \<le> length buf \<Longrightarrow>
      cd_dec_sf cd (Some (sf_frame cid d)) (Some buf) n (Some l) = Some (UDS_TP_OK, Some (splice 0 d buf), Some (length d))"
  using sf_law [OF assms, of cid] by (auto simp: sf_frame_def)

lemma ff:
  assumes "cd_sf_max cd < length d" "length d \<le> cd_max cd"
  shows "cd_enc_ff cd (Some g) cid (Some d) (of_nat (length d)) = Some (UDS_TP_OK, Some (ff_frame cid d))"
    "cd_type cd (Some (ff_frame cid d)) = Some UDS_TP_FRAME_FF"
    "length d \<le> n \<Longrightarrow> n \<le> length buf \<Longrightarrow>
      cd_dec_ff cd (Some (ff_frame cid d)) (Some buf) n (Some t) (Some e) =
        Some (UDS_TP_OK, Some (splice 0 (take (cd_ff_embed cd (length d)) d) buf),
          Some (of_nat (length d)), Some (cd_ff_embed cd (length d)))"
  using ff_law [OF assms, of cid] by (auto simp: ff_frame_def)

lemma cf:
  assumes "0 < m" "m \<le> cd_cf_max cd" "m \<le> length d"
  shows "cd_enc_cf cd (Some g) cid (Some d) m sn = Some (UDS_TP_OK, Some (cf_frame cid d m sn))"
    "cd_type cd (Some (cf_frame cid d m sn)) = Some UDS_TP_FRAME_CF"
    "m \<le> n \<Longrightarrow> off + m \<le> length buf \<Longrightarrow>
      cd_dec_cf cd (Some (cf_frame cid d m sn)) (Some s) (Some buf) off n m =
        Some (UDS_TP_OK, Some (sn AND 0x0F), Some (splice off (take m d) buf))"
  using cf_law [OF assms, of cid sn] by (auto simp: cf_frame_def)

lemma fc:
  shows "cd_enc_fc cd (Some g) cid (flow_code fs) bs st = Some (UDS_TP_OK, Some (fc_frame cid fs bs st))"
    "cd_dec_fc cd (Some (fc_frame cid fs bs st)) (Some fs0) (Some bs0) (Some st0) =
      Some (UDS_TP_OK, Some fs, Some bs, Some st)"
  using fc_law [of cid fs bs st] by (auto simp: fc_frame_def)

end

section \<open>The classic codec satisfies the laws\<close>

lemma frame_type_codes:
  "drop_bit 4 b AND 0x0F = 0 \<Longrightarrow> frame_type_of_byte b = UDS_TP_FRAME_SF"
  "drop_bit 4 b AND 0x0F = 1 \<Longrightarrow> frame_type_of_byte b = UDS_TP_FRAME_FF"
  "drop_bit 4 b AND 0x0F = 2 \<Longrightarrow> frame_type_of_byte b = UDS_TP_FRAME_CF"
  "drop_bit 4 b AND 0x0F = 3 \<Longrightarrow> frame_type_of_byte b = UDS_TP_FRAME_FC"
  by (simp_all add: frame_type_of_byte_def)

lemma pci_types [simp]:
  "frame_type_of_byte (0x10 OR (x AND 0x0F)) = UDS_TP_FRAME_FF"
  "frame_type_of_byte (0x20 OR (x AND 0x0F)) = UDS_TP_FRAME_CF"
  "frame_type_of_byte (0x30 OR (x AND 0x0F)) = UDS_TP_FRAME_FC"
  by (simp_all add: frame_type_codes pci_nibbles)

text \<open>A Single Frame length as its own PCI byte.\<close>

lemma sf_pci:
  assumes "m \<le> 7"
  shows "frame_type_of_byte (of_nat m) = UDS_TP_FRAME_SF" "of_nat m AND 0x0F = (of_nat m :: u8)"
    "unat (of_nat m :: u8) = m"
proof -
  from assms consider "m = 0" | "m = 1" | "m = 2" | "m = 3" | "m = 4" | "m = 5" | "m = 6" | "m = 7" by linarith
  then show "of_nat m AND 0x0F = (of_nat m :: u8)" "frame_type_of_byte (of_nat m) = UDS_TP_FRAME_SF"
    by (cases; simp add: frame_type_of_byte_def)+
  show "unat (of_nat m :: u8) = m" using assms by (simp add: unat_of_nat)
qed

lemma unat_small: "m < 256 \<Longrightarrow> unat (of_nat m :: u8) = m"
  by (simp add: unat_of_nat)

text \<open>Reading back what was put after a header of \<open>k\<close> bytes.\<close>

lemma take_drop_splice:
  "off + length src \<le> length dst \<Longrightarrow> take (length src) (drop off (splice off src dst)) = src"
  by (simp add: splice_def)

lemma nth_splice_before: "i < off \<Longrightarrow> off \<le> length dst \<Longrightarrow> splice off src dst ! i = dst ! i"
  by (simp add: splice_def nth_append)

lemma mem_cpy_valid [mem_simps]:
  "soff + n \<le> length src \<Longrightarrow> doff + n \<le> length dst \<Longrightarrow>
   mem_cpy (Some dst) doff (Some src) soff n = Some (splice doff (take n (drop soff src)) dst)"
  by (simp add: mem_cpy_def mem_simps)

lemma classic_sf:
  fixes cid :: u32
  assumes "d \<noteq> []" "length d \<le> 7"
  defines "f \<equiv> \<lparr>can_id = cid, can_dlc = of_nat (1 + length d),
    can_data = splice 1 d ((replicate 8 0)[0 := of_nat (length d)])\<rparr>"
  shows "uds_tp_encode_sf (Some g) cid (Some d) (length d) = Some (UDS_TP_OK, Some f)"
    "uds_tp_frame_type (Some f) = Some UDS_TP_FRAME_SF"
    "length d \<le> n \<Longrightarrow> n \<le> length buf \<Longrightarrow>
      uds_tp_decode_sf (Some f) (Some buf) n (Some l) = Some (UDS_TP_OK, Some (splice 0 d buf), Some (length d))"
proof -
  have "unat (of_nat (1 + length d) :: u8) = Suc (length d)"
    using assms(2) unat_small [of "1 + length d"] by simp
  then have dlc: "unat (can_dlc f) = Suc (length d)" "can_dlc f \<noteq> 0" by (auto simp: f_def)
  have b0: "can_data f ! 0 = of_nat (length d)" "length (can_data f) = 8"
    using assms(2) by (simp_all add: f_def nth_splice_before)
  have body: "take (length d) (drop (Suc 0) (can_data f)) = d"
    using assms(2) take_drop_splice [of 1 d "(replicate 8 0)[0 := of_nat (length d)]"] by (simp add: f_def)
  show "uds_tp_encode_sf (Some g) cid (Some d) (length d) = Some (UDS_TP_OK, Some f)"
    using assms by (simp add: uds_tp_encode_sf_def tp_consts mem_simps f_def)
  show ty: "uds_tp_frame_type (Some f) = Some UDS_TP_FRAME_SF"
    using dlc(2) b0 assms(2) by (simp add: uds_tp_frame_type_def mem_simps sf_pci)
  show "uds_tp_decode_sf (Some f) (Some buf) n (Some l) = Some (UDS_TP_OK, Some (splice 0 d buf), Some (length d))"
    if "length d \<le> n" "n \<le> length buf"
  proof -
    from that(1) assms(1) have "n \<noteq> 0" by (cases d) auto
    with that assms(1,2) b0 body dlc(1) ty show ?thesis
      by (simp add: uds_tp_decode_sf_def mem_simps sf_pci tp_consts Let_def)
  qed
qed

text \<open>The 12-bit length of a First Frame.\<close>

lemma len12:
  fixes v :: u32
  shows "push_bit 8 (ucast (ucast (0x10 OR (drop_bit 8 v AND 0x0F)) AND 0x0F :: u8)) OR ucast (ucast (v AND 0xFF) :: u8) =
    take_bit 12 v" (is "?lhs = _")
  and "frame_type_of_byte (ucast (0x10 OR (drop_bit 8 v AND 0x0F))) = UDS_TP_FRAME_FF"
  and "ucast (0x10 OR (drop_bit 8 v AND 0x0F)) AND 0x0F = (ucast (drop_bit 8 v) AND 0x0F :: u8)"
proof -
  have c: "ucast (0x10 OR (drop_bit 8 v AND 0x0F)) = (0x10 OR (ucast (drop_bit 8 v) AND 0x0F) :: u8)"
  proof -
    have "ucast (push_bit 4 1 OR (drop_bit 8 v AND mask 4)) = (push_bit 4 1 OR (ucast (drop_bit 8 v) AND mask 4) :: u8)"
      by (rule bit_word_eqI) (auto simp: bit_simps)
    then show ?thesis by (simp flip: mask4)
  qed
  then show "frame_type_of_byte (ucast (0x10 OR (drop_bit 8 v AND 0x0F))) = UDS_TP_FRAME_FF"
    "ucast (0x10 OR (drop_bit 8 v AND 0x0F)) AND 0x0F = (ucast (drop_bit 8 v) AND 0x0F :: u8)"
    by (simp_all add: pci_nibbles)
  have "?lhs = push_bit 8 (ucast (ucast (drop_bit 8 v) AND mask 4 :: u8)) OR ucast (ucast (v AND mask 8) :: u8)"
    by (simp add: c pci_nibbles flip: mask4)
  also have "\<dots> = take_bit 12 v"
    by (rule bit_word_eqI) (auto simp: bit_simps)
  finally show "?lhs = take_bit 12 v" .
qed

lemma classic_ff:
  fixes cid :: u32
  assumes "7 < length d" "length d \<le> 4095"
  defines "v \<equiv> of_nat (length d) :: u32"
  defines "f \<equiv> \<lparr>can_id = cid, can_dlc = 8, can_data = splice 2 (take 6 d) (splice 0
    [ucast (0x10 OR (drop_bit 8 v AND 0x0F)), ucast (v AND 0xFF)] (replicate 8 0))\<rparr>"
  shows "uds_tp_encode_ff (Some g) cid (Some d) (of_nat (length d)) = Some (UDS_TP_OK, Some f)"
    "uds_tp_frame_type (Some f) = Some UDS_TP_FRAME_FF"
    "length d \<le> n \<Longrightarrow> n \<le> length buf \<Longrightarrow>
      uds_tp_decode_ff (Some f) (Some buf) n (Some t) = Some (UDS_TP_OK, Some (splice 0 (take 6 d) buf), Some v)"
proof -
  have u: "unat v = length d" using assms(2) by (simp add: v_def unat_of_nat)
  have rng: "\<not> (v < 8 \<or> v > 4095)" using u assms(1,2) by (simp add: word_less_nat_alt)
  have t12: "take_bit 12 v = v" using u assms(2) by (simp add: word_unat_eq_iff unat_take_bit)
  have b: "can_data f ! 0 = ucast (0x10 OR (drop_bit 8 v AND 0x0F))" "can_data f ! Suc 0 = ucast (v AND 0xFF)"
    "length (can_data f) = 8" "can_dlc f = 8"
    using assms(1) by (simp_all add: f_def splice_def)
  have body: "take 6 (drop 2 (can_data f)) = take 6 d"
    using assms(1) take_drop_splice [of 2 "take 6 d" "splice 0 [ucast (0x10 OR (drop_bit 8 v AND 0x0F)), ucast (v AND 0xFF)]
      (replicate 8 0)"] by (simp add: f_def)
  show "uds_tp_encode_ff (Some g) cid (Some d) (of_nat (length d)) = Some (UDS_TP_OK, Some f)"
    using rng assms(1) unfolding v_def [symmetric]
    by (simp add: uds_tp_encode_ff_def tp_consts mem_simps f_def)
  show ty: "uds_tp_frame_type (Some f) = Some UDS_TP_FRAME_FF"
    using b by (simp add: uds_tp_frame_type_def mem_simps len12(2))
  show "uds_tp_decode_ff (Some f) (Some buf) n (Some t) = Some (UDS_TP_OK, Some (splice 0 (take 6 d) buf), Some v)"
    if "length d \<le> n" "n \<le> length buf"
    using that assms(1) b body ty rng t12 len12(1) [of v]
    by (simp add: uds_tp_decode_ff_def mem_simps tp_consts Let_def)
qed

lemma classic_cf:
  fixes cid :: u32 and sn :: u8
  assumes "0 < m" "m \<le> 7" "m \<le> length d"
  defines "f \<equiv> \<lparr>can_id = cid, can_dlc = 8,
    can_data = splice 1 (take m d) ((replicate 8 0)[0 := 0x20 OR (sn AND 0x0F)])\<rparr>"
  shows "uds_tp_encode_cf (Some g) cid (Some d) m sn = Some (UDS_TP_OK, Some f)"
    "uds_tp_frame_type (Some f) = Some UDS_TP_FRAME_CF"
    "m \<le> n \<Longrightarrow> off + m \<le> length buf \<Longrightarrow>
      uds_tp_decode_cf (Some f) (Some s) (Some buf) off n m =
        Some (UDS_TP_OK, Some (sn AND 0x0F), Some (splice off (take m d) buf))"
proof -
  have b: "can_data f ! 0 = 0x20 OR (sn AND 0x0F)" "length (can_data f) = 8" "can_dlc f = 8"
    using assms(2,3) by (simp_all add: f_def nth_splice_before)
  have body: "take m (drop (Suc 0) (can_data f)) = take m d"
    using assms(2,3) take_drop_splice [of 1 "take m d" "(replicate 8 0)[0 := 0x20 OR (sn AND 0x0F)]"] by (simp add: f_def)
  show "uds_tp_encode_cf (Some g) cid (Some d) m sn = Some (UDS_TP_OK, Some f)"
    using assms(1-3) by (simp add: uds_tp_encode_cf_def tp_consts mem_simps f_def)
  show ty: "uds_tp_frame_type (Some f) = Some UDS_TP_FRAME_CF"
    using b by (simp add: uds_tp_frame_type_def mem_simps)
  show "uds_tp_decode_cf (Some f) (Some s) (Some buf) off n m =
      Some (UDS_TP_OK, Some (sn AND 0x0F), Some (splice off (take m d) buf))" if "m \<le> n" "off + m \<le> length buf"
    using that assms(1,2) b body ty
    by (simp add: uds_tp_decode_cf_def mem_simps tp_consts Let_def pci_nibbles)
qed

lemma flow_pci:
  "frame_type_of_byte (0x30 OR ucast (flow_code fs)) = UDS_TP_FRAME_FC"
  "(0x30 OR ucast (flow_code fs)) AND 0x0F \<le> (2 :: u8)"
  "flow_of_byte ((0x30 OR ucast (flow_code fs)) AND 0x0F) = fs" "flow_code fs \<le> 2"
  by (cases fs; simp add: frame_type_of_byte_def flow_of_byte_def)+

lemma classic_fc:
  fixes cid :: u32 and fs :: UdsTpFlowStatus and bs st :: u8
  defines "f \<equiv> \<lparr>can_id = cid, can_dlc = 3, can_data = splice 0 [0x30 OR ucast (flow_code fs), bs, st] (replicate 8 0)\<rparr>"
  shows "uds_tp_encode_fc (Some g) cid (flow_code fs) bs st = Some (UDS_TP_OK, Some f)"
    "uds_tp_decode_fc (Some f) (Some fs0) (Some bs0) (Some st0) = Some (UDS_TP_OK, Some fs, Some bs, Some st)"
proof -
  have b: "can_data f ! 0 = 0x30 OR ucast (flow_code fs)" "can_data f ! Suc 0 = bs" "can_data f ! 2 = st"
    "length (can_data f) = 8" "can_dlc f = 3"
    by (simp_all add: f_def splice_def)
  show "uds_tp_encode_fc (Some g) cid (flow_code fs) bs st = Some (UDS_TP_OK, Some f)"
    using flow_pci(4) [of fs] by (simp add: uds_tp_encode_fc_def mem_simps f_def not_less)
  have ty: "uds_tp_frame_type (Some f) = Some UDS_TP_FRAME_FC"
    using b by (simp add: uds_tp_frame_type_def mem_simps flow_pci)
  then show "uds_tp_decode_fc (Some f) (Some fs0) (Some bs0) (Some st0) = Some (UDS_TP_OK, Some fs, Some bs, Some st)"
    using b flow_pci(2) [of fs] by (simp add: uds_tp_decode_fc_def mem_simps Let_def flow_pci(3) not_less)
qed

interpretation classic: tp_codec "classic_codec blank"
proof
  show "0 < cd_cf_max (classic_codec blank)" "cd_max (classic_codec blank) < 2 ^ 32"
    by (simp_all add: classic_codec_def tp_consts)
  show "cd_sf_max (classic_codec blank) < m \<Longrightarrow>
      0 < cd_ff_embed (classic_codec blank) m \<and> cd_ff_embed (classic_codec blank) m < m" for m
    by (simp add: classic_codec_def tp_consts)
next
  fix d :: "u8 list" and cid :: u32
  assume d: "d \<noteq> []" "length d \<le> cd_sf_max (classic_codec blank)"
  then have "length d \<le> 7" by (simp add: classic_codec_def tp_consts)
  from classic_sf [OF d(1) this, where cid = cid]
  show "\<exists>f. (\<forall>g. cd_enc_sf (classic_codec blank) (Some g) cid (Some d) (length d) = Some (UDS_TP_OK, Some f)) \<and>
      cd_type (classic_codec blank) (Some f) = Some UDS_TP_FRAME_SF \<and>
      (\<forall>buf n l. length d \<le> n \<and> n \<le> length buf \<longrightarrow> cd_dec_sf (classic_codec blank) (Some f) (Some buf) n (Some l) =
        Some (UDS_TP_OK, Some (splice 0 d buf), Some (length d)))"
    by (auto simp: classic_codec_def)
next
  fix d :: "u8 list" and cid :: u32
  assume "cd_sf_max (classic_codec blank) < length d" "length d \<le> cd_max (classic_codec blank)"
  then have "7 < length d" "length d \<le> 4095" by (simp_all add: classic_codec_def tp_consts)
  from classic_ff [OF this, where cid = cid]
  show "\<exists>f. (\<forall>g. cd_enc_ff (classic_codec blank) (Some g) cid (Some d) (of_nat (length d)) = Some (UDS_TP_OK, Some f)) \<and>
      cd_type (classic_codec blank) (Some f) = Some UDS_TP_FRAME_FF \<and>
      (\<forall>buf n t e. length d \<le> n \<and> n \<le> length buf \<longrightarrow>
        cd_dec_ff (classic_codec blank) (Some f) (Some buf) n (Some t) (Some e) =
          Some (UDS_TP_OK, Some (splice 0 (take (cd_ff_embed (classic_codec blank) (length d)) d) buf),
            Some (of_nat (length d)), Some (cd_ff_embed (classic_codec blank) (length d))))"
    by (auto simp: classic_codec_def tp_consts)
next
  fix d :: "u8 list" and cid :: u32 and m :: nat and sn :: u8
  assume "0 < m" "m \<le> cd_cf_max (classic_codec blank)" "m \<le> length d"
  then have "0 < m" "m \<le> 7" "m \<le> length d" by (simp_all add: classic_codec_def tp_consts)
  from classic_cf [OF this, where cid = cid and sn = sn]
  show "\<exists>f. (\<forall>g. cd_enc_cf (classic_codec blank) (Some g) cid (Some d) m sn = Some (UDS_TP_OK, Some f)) \<and>
      cd_type (classic_codec blank) (Some f) = Some UDS_TP_FRAME_CF \<and>
      (\<forall>buf off n s. m \<le> n \<and> off + m \<le> length buf \<longrightarrow>
        cd_dec_cf (classic_codec blank) (Some f) (Some s) (Some buf) off n m =
          Some (UDS_TP_OK, Some (sn AND 0x0F), Some (splice off (take m d) buf)))"
    by (auto simp: classic_codec_def)
next
  fix cid :: u32 and fs bs st
  show "\<exists>f. (\<forall>g. cd_enc_fc (classic_codec blank) (Some g) cid (flow_code fs) bs st = Some (UDS_TP_OK, Some f)) \<and>
      (\<forall>fs0 bs0 st0. cd_dec_fc (classic_codec blank) (Some f) (Some fs0) (Some bs0) (Some st0) =
        Some (UDS_TP_OK, Some fs, Some bs, Some st))"
    using classic_fc [where cid = cid and fs = fs and bs = bs and st = st] by (auto simp: classic_codec_def)
qed

section \<open>The CAN FD codec satisfies the laws\<close>

lemma fd_sf:
  fixes cid :: u32
  assumes "d \<noteq> []" "length d \<le> 62"
  defines "f \<equiv> (if length d \<le> 7
    then \<lparr>fd_can_id = cid, fd_len = of_nat (1 + length d),
           fd_data = splice 1 d ((replicate 64 0)[0 := of_nat (length d)])\<rparr>
    else \<lparr>fd_can_id = cid, fd_len = of_nat (2 + length d),
           fd_data = splice 2 d (splice 0 [0, of_nat (length d)] (replicate 64 0))\<rparr>)"
  shows "uds_tp_encode_sf_fd (Some g) cid (Some d) (length d) = Some (UDS_TP_OK, Some f)"
    "uds_tp_frame_type_fd (Some f) = Some UDS_TP_FRAME_SF"
    "length d \<le> n \<Longrightarrow> n \<le> length buf \<Longrightarrow>
      uds_tp_decode_sf_fd (Some f) (Some buf) n (Some l) = Some (UDS_TP_OK, Some (splice 0 d buf), Some (length d))"
proof -
  show "uds_tp_encode_sf_fd (Some g) cid (Some d) (length d) = Some (UDS_TP_OK, Some f)"
    using assms by (simp add: uds_tp_encode_sf_fd_def tp_consts fd_consts mem_simps f_def)
  have "unat (of_nat (1 + length d) :: u8) = Suc (length d)" "unat (of_nat (2 + length d) :: u8) = Suc (Suc (length d))"
    "unat (of_nat (length d) :: u8) = length d"
    using assms(2) unat_small [of "1 + length d"] unat_small [of "2 + length d"] by (simp_all add: unat_of_nat)
  then have len: "unat (fd_len f) = (if length d \<le> 7 then Suc (length d) else Suc (Suc (length d)))"
    "unat (of_nat (length d) :: u8) = length d" by (auto simp: f_def)
  then have "fd_len f \<noteq> 0" "\<not> fd_len f < 2" using assms(1)
    by (cases d; auto simp: word_less_nat_alt split: if_splits)+
  have b: "fd_data f ! 0 = (if length d \<le> 7 then of_nat (length d) else 0)"
    "length d > 7 \<Longrightarrow> fd_data f ! Suc 0 = of_nat (length d)" "length (fd_data f) = 64"
    using assms(2) by (auto simp: f_def nth_splice_before) (simp_all add: splice_def)
  have body: "length d \<le> 7 \<Longrightarrow> take (length d) (drop (Suc 0) (fd_data f)) = d"
    "length d > 7 \<Longrightarrow> take (length d) (drop 2 (fd_data f)) = d"
    using assms(2) take_drop_splice [of 1 d "(replicate 64 0)[0 := of_nat (length d)]"]
      take_drop_splice [of 2 d "splice 0 [0, of_nat (length d)] (replicate 64 0)"] by (simp_all add: f_def)
  show ty: "uds_tp_frame_type_fd (Some f) = Some UDS_TP_FRAME_SF"
    using b \<open>fd_len f \<noteq> 0\<close> sf_pci(1) [of "length d"] sf_pci(1) [of 0]
    by (simp add: uds_tp_frame_type_fd_def mem_simps)
  show "uds_tp_decode_sf_fd (Some f) (Some buf) n (Some l) = Some (UDS_TP_OK, Some (splice 0 d buf), Some (length d))"
    if "length d \<le> n" "n \<le> length buf"
  proof -
    from that(1) assms(1) have "n \<noteq> 0" by (cases d) auto
    show ?thesis
    proof (cases "length d \<le> 7")
      case True
      have "(of_nat (length d) :: u8) \<noteq> 0" using len(2) assms(1) by (metis length_0_conv unat_0)
      with True that assms(1,2) b body len ty \<open>n \<noteq> 0\<close> show ?thesis
        by (simp add: uds_tp_decode_sf_fd_def mem_simps sf_pci tp_consts fd_consts Let_def)
    next
      case False
      with that assms(1,2) b body len ty \<open>n \<noteq> 0\<close> \<open>\<not> fd_len f < 2\<close> show ?thesis
        by (simp add: uds_tp_decode_sf_fd_def mem_simps tp_consts fd_consts Let_def)
    qed
  qed
qed

lemma fd_cf:
  fixes cid :: u32 and sn :: u8
  assumes "0 < m" "m \<le> 63" "m \<le> length d"
  defines "f \<equiv> \<lparr>fd_can_id = cid, fd_len = of_nat (1 + m),
    fd_data = splice 1 (take m d) ((replicate 64 0)[0 := 0x20 OR (sn AND 0x0F)])\<rparr>"
  shows "uds_tp_encode_cf_fd (Some g) cid (Some d) m sn = Some (UDS_TP_OK, Some f)"
    "uds_tp_frame_type_fd (Some f) = Some UDS_TP_FRAME_CF"
    "m \<le> n \<Longrightarrow> off + m \<le> length buf \<Longrightarrow>
      uds_tp_decode_cf_fd (Some f) (Some s) (Some buf) off n m =
        Some (UDS_TP_OK, Some (sn AND 0x0F), Some (splice off (take m d) buf))"
proof -
  have "unat (of_nat (1 + m) :: u8) = Suc m" using assms(2) unat_small [of "1 + m"] by simp
  then have "unat (fd_len f) = Suc m" by (simp add: f_def)
  then have len: "fd_len f \<noteq> 0" "\<not> fd_len f < 2" using assms(1) by (auto simp: word_less_nat_alt)
  have b: "fd_data f ! 0 = 0x20 OR (sn AND 0x0F)" "length (fd_data f) = 64"
    using assms(2,3) by (simp_all add: f_def nth_splice_before)
  have body: "take m (drop (Suc 0) (fd_data f)) = take m d"
    using assms(2,3) take_drop_splice [of 1 "take m d" "(replicate 64 0)[0 := 0x20 OR (sn AND 0x0F)]"] by (simp add: f_def)
  show "uds_tp_encode_cf_fd (Some g) cid (Some d) m sn = Some (UDS_TP_OK, Some f)"
    using assms(1-3) by (simp add: uds_tp_encode_cf_fd_def fd_consts mem_simps f_def)
  show ty: "uds_tp_frame_type_fd (Some f) = Some UDS_TP_FRAME_CF"
    using b len by (simp add: uds_tp_frame_type_fd_def mem_simps)
  show "uds_tp_decode_cf_fd (Some f) (Some s) (Some buf) off n m =
      Some (UDS_TP_OK, Some (sn AND 0x0F), Some (splice off (take m d) buf))" if "m \<le> n" "off + m \<le> length buf"
    using that assms(1,2) b body ty len
    by (simp add: uds_tp_decode_cf_fd_def mem_simps fd_consts Let_def pci_nibbles)
qed

lemma fd_fc:
  fixes cid :: u32 and fs :: UdsTpFlowStatus and bs st :: u8
  defines "f \<equiv> \<lparr>fd_can_id = cid, fd_len = 3, fd_data = splice 0 [0x30 OR ucast (flow_code fs), bs, st] (replicate 64 0)\<rparr>"
  shows "uds_tp_encode_fc_fd (Some g) cid (flow_code fs) bs st = Some (UDS_TP_OK, Some f)"
    "uds_tp_decode_fc_fd (Some f) (Some fs0) (Some bs0) (Some st0) = Some (UDS_TP_OK, Some fs, Some bs, Some st)"
proof -
  have b: "fd_data f ! 0 = 0x30 OR ucast (flow_code fs)" "fd_data f ! Suc 0 = bs" "fd_data f ! 2 = st"
    "length (fd_data f) = 64" "fd_len f = 3"
    by (simp_all add: f_def splice_def)
  show "uds_tp_encode_fc_fd (Some g) cid (flow_code fs) bs st = Some (UDS_TP_OK, Some f)"
    using flow_pci(4) [of fs] by (simp add: uds_tp_encode_fc_fd_def mem_simps f_def not_less)
  have ty: "uds_tp_frame_type_fd (Some f) = Some UDS_TP_FRAME_FC"
    using b by (simp add: uds_tp_frame_type_fd_def mem_simps flow_pci)
  then show "uds_tp_decode_fc_fd (Some f) (Some fs0) (Some bs0) (Some st0) = Some (UDS_TP_OK, Some fs, Some bs, Some st)"
    using b flow_pci(2) [of fs] by (simp add: uds_tp_decode_fc_fd_def mem_simps Let_def flow_pci(3) not_less)
qed

text \<open>A First Frame in its short form (12-bit length) and in its escape form (32-bit length).\<close>

lemma embedded_full: "embedded (off + k) off k = k"
  by (simp add: embedded_def)

lemma fd_ff_short:
  fixes cid :: u32
  assumes "62 < length d" "length d \<le> 4095"
  defines "v \<equiv> of_nat (length d) :: u32"
  defines "f \<equiv> \<lparr>fd_can_id = cid, fd_len = 64, fd_data = splice 2 (take 62 d) (splice 0
    [ucast (0x10 OR (drop_bit 8 v AND 0x0F)), ucast (v AND 0xFF)] (replicate 64 0))\<rparr>"
  shows "uds_tp_encode_ff_fd (Some g) cid (Some d) (of_nat (length d)) = Some (UDS_TP_OK, Some f)"
    "uds_tp_frame_type_fd (Some f) = Some UDS_TP_FRAME_FF"
    "length d \<le> n \<Longrightarrow> n \<le> length buf \<Longrightarrow>
      uds_tp_decode_ff_fd (Some f) (Some buf) n (Some t) (Some e) =
        Some (UDS_TP_OK, Some (splice 0 (take 62 d) buf), Some v, Some 62)"
proof -
  have u: "unat v = length d" using assms(2) by (simp add: v_def unat_of_nat)
  have rng: "\<not> v \<le> 62" "v \<le> 4095" "\<not> v > 4095" "v > 62" "v \<noteq> 0"
    using u assms(1,2) by (auto simp: word_less_nat_alt word_le_nat_alt)
  have t12: "take_bit 12 v = v" using u assms(2) by (simp add: word_unat_eq_iff unat_take_bit)
  have b: "fd_data f ! 0 = ucast (0x10 OR (drop_bit 8 v AND 0x0F))" "fd_data f ! Suc 0 = ucast (v AND 0xFF)"
    "length (fd_data f) = 64" "fd_len f = 64"
    using assms(1) by (simp_all add: f_def splice_def)
  have body: "take 62 (drop 2 (fd_data f)) = take 62 d"
    using assms(1) take_drop_splice [of 2 "take 62 d" "splice 0 [ucast (0x10 OR (drop_bit 8 v AND 0x0F)), ucast (v AND 0xFF)]
      (replicate 64 0)"] by (simp add: f_def)
  have nz: "\<not> (fd_data f ! Suc 0 = 0 \<and> fd_data f ! 0 AND 0x0F = 0)"
  proof
    assume "fd_data f ! Suc 0 = 0 \<and> fd_data f ! 0 AND 0x0F = 0"
    then have "take_bit 12 v = 0" using len12(1) [of v] b by simp
    with t12 rng show False by simp
  qed
  show "uds_tp_encode_ff_fd (Some g) cid (Some d) (of_nat (length d)) = Some (UDS_TP_OK, Some f)"
    using rng assms(1) unfolding v_def [symmetric]
    by (simp add: uds_tp_encode_ff_fd_def fd_consts mem_simps f_def Let_def)
  show ty: "uds_tp_frame_type_fd (Some f) = Some UDS_TP_FRAME_FF"
    using b by (simp add: uds_tp_frame_type_fd_def mem_simps len12(2))
  have emb: "embedded (unat (64 :: u8)) 2 62 = 62" using embedded_full [of 2 62] by simp
  show "uds_tp_decode_ff_fd (Some f) (Some buf) n (Some t) (Some e) =
      Some (UDS_TP_OK, Some (splice 0 (take 62 d) buf), Some v, Some 62)" if "length d \<le> n" "n \<le> length buf"
  proof -
    have len: "push_bit 8 (ucast (fd_data f ! 0 AND 0x0F)) OR ucast (fd_data f ! Suc 0) = v"
      using t12 len12(1) [of v] unfolding b by simp
    show ?thesis
      using that assms(1) b(3,4) body ty rng len emb
      by (simp add: uds_tp_decode_ff_fd_def mem_simps fd_consts Let_def if_not_P [OF nz])
  qed
qed

lemma fd_ff_long:
  fixes cid :: u32
  assumes "4095 < length d" "length d < 2 ^ 32"
  defines "v \<equiv> of_nat (length d) :: u32"
  defines "f \<equiv> \<lparr>fd_can_id = cid, fd_len = 64, fd_data = splice 6 (take 58 d) (splice 0
    [0x10, 0, byte_of 3 v, byte_of 2 v, byte_of 1 v, byte_of 0 v] (replicate 64 0))\<rparr>"
  shows "uds_tp_encode_ff_fd (Some g) cid (Some d) (of_nat (length d)) = Some (UDS_TP_OK, Some f)"
    "uds_tp_frame_type_fd (Some f) = Some UDS_TP_FRAME_FF"
    "length d \<le> n \<Longrightarrow> n \<le> length buf \<Longrightarrow>
      uds_tp_decode_ff_fd (Some f) (Some buf) n (Some t) (Some e) =
        Some (UDS_TP_OK, Some (splice 0 (take 58 d) buf), Some v, Some 58)"
proof -
  have u: "unat v = length d" using assms(2) by (simp add: v_def unat_of_nat)
  have rng: "\<not> v \<le> 4095" "v > 58" "v \<noteq> 0"
    using u assms(1) by (auto simp: word_less_nat_alt word_le_nat_alt)
  have b: "fd_data f ! 0 = 0x10" "fd_data f ! Suc 0 = 0" "length (fd_data f) = 64" "fd_len f = 64"
    "take 4 (drop 2 (fd_data f)) = [byte_of 3 v, byte_of 2 v, byte_of 1 v, byte_of 0 v]"
    using assms(1) by (simp_all add: f_def splice_def)
  have body: "take 58 (drop 6 (fd_data f)) = take 58 d"
    using assms(1) take_drop_splice [of 6 "take 58 d" "splice 0 [0x10, 0, byte_of 3 v, byte_of 2 v, byte_of 1 v, byte_of 0 v]
      (replicate 64 0)"] by (simp add: f_def)
  show "uds_tp_encode_ff_fd (Some g) cid (Some d) (of_nat (length d)) = Some (UDS_TP_OK, Some f)"
    using rng assms(1) unfolding v_def [symmetric]
    by (simp add: uds_tp_encode_ff_fd_def fd_consts mem_simps f_def Let_def)
  show ty: "uds_tp_frame_type_fd (Some f) = Some UDS_TP_FRAME_FF"
    using b by (simp add: uds_tp_frame_type_fd_def mem_simps frame_type_of_byte_def)
  have emb: "embedded (unat (64 :: u8)) 6 58 = 58" using embedded_full [of 6 58] by simp
  show "uds_tp_decode_ff_fd (Some f) (Some buf) n (Some t) (Some e) =
      Some (UDS_TP_OK, Some (splice 0 (take 58 d) buf), Some v, Some 58)" if "length d \<le> n" "n \<le> length buf"
    using that assms(1) b body ty rng emb
    by (simp add: uds_tp_decode_ff_fd_def mem_simps fd_consts Let_def)
qed

interpretation fd: tp_codec "fd_codec blank"
proof
  show "0 < cd_cf_max (fd_codec blank)" "cd_max (fd_codec blank) < 2 ^ 32"
    by (simp_all add: fd_codec_def fd_consts)
  show "cd_sf_max (fd_codec blank) < m \<Longrightarrow>
      0 < cd_ff_embed (fd_codec blank) m \<and> cd_ff_embed (fd_codec blank) m < m" for m
    by (auto simp: fd_codec_def fd_consts fd_ff_embed_def Let_def)
next
  fix d :: "u8 list" and cid :: u32
  assume d: "d \<noteq> []" "length d \<le> cd_sf_max (fd_codec blank)"
  then have "length d \<le> 62" by (simp add: fd_codec_def fd_consts)
  from fd_sf [OF d(1) this, where cid = cid]
  show "\<exists>f. (\<forall>g. cd_enc_sf (fd_codec blank) (Some g) cid (Some d) (length d) = Some (UDS_TP_OK, Some f)) \<and>
      cd_type (fd_codec blank) (Some f) = Some UDS_TP_FRAME_SF \<and>
      (\<forall>buf n l. length d \<le> n \<and> n \<le> length buf \<longrightarrow> cd_dec_sf (fd_codec blank) (Some f) (Some buf) n (Some l) =
        Some (UDS_TP_OK, Some (splice 0 d buf), Some (length d)))"
    by (auto simp: fd_codec_def)
next
  fix d :: "u8 list" and cid :: u32
  assume "cd_sf_max (fd_codec blank) < length d" "length d \<le> cd_max (fd_codec blank)"
  then have len: "62 < length d" "length d < 2 ^ 32" by (simp_all add: fd_codec_def fd_consts)
  show "\<exists>f. (\<forall>g. cd_enc_ff (fd_codec blank) (Some g) cid (Some d) (of_nat (length d)) = Some (UDS_TP_OK, Some f)) \<and>
      cd_type (fd_codec blank) (Some f) = Some UDS_TP_FRAME_FF \<and>
      (\<forall>buf n t e. length d \<le> n \<and> n \<le> length buf \<longrightarrow>
        cd_dec_ff (fd_codec blank) (Some f) (Some buf) n (Some t) (Some e) =
          Some (UDS_TP_OK, Some (splice 0 (take (cd_ff_embed (fd_codec blank) (length d)) d) buf),
            Some (of_nat (length d)), Some (cd_ff_embed (fd_codec blank) (length d))))"
  proof (cases "length d \<le> 4095")
    case True
    then have "fd_ff_embed (length d) = 62" using len by (simp add: fd_ff_embed_def fd_consts)
    with fd_ff_short [OF len(1) True, where cid = cid] show ?thesis by (auto simp: fd_codec_def)
  next
    case False
    then have "4095 < length d" by simp
    then have "fd_ff_embed (length d) = 58" by (simp add: fd_ff_embed_def fd_consts)
    with fd_ff_long [OF \<open>4095 < length d\<close> len(2), where cid = cid] show ?thesis by (auto simp: fd_codec_def)
  qed
next
  fix d :: "u8 list" and cid :: u32 and m :: nat and sn :: u8
  assume "0 < m" "m \<le> cd_cf_max (fd_codec blank)" "m \<le> length d"
  then have "0 < m" "m \<le> 63" "m \<le> length d" by (simp_all add: fd_codec_def fd_consts)
  from fd_cf [OF this, where cid = cid and sn = sn]
  show "\<exists>f. (\<forall>g. cd_enc_cf (fd_codec blank) (Some g) cid (Some d) m sn = Some (UDS_TP_OK, Some f)) \<and>
      cd_type (fd_codec blank) (Some f) = Some UDS_TP_FRAME_CF \<and>
      (\<forall>buf off n s. m \<le> n \<and> off + m \<le> length buf \<longrightarrow>
        cd_dec_cf (fd_codec blank) (Some f) (Some s) (Some buf) off n m =
          Some (UDS_TP_OK, Some (sn AND 0x0F), Some (splice off (take m d) buf)))"
    by (auto simp: fd_codec_def)
next
  fix cid :: u32 and fs bs st
  show "\<exists>f. (\<forall>g. cd_enc_fc (fd_codec blank) (Some g) cid (flow_code fs) bs st = Some (UDS_TP_OK, Some f)) \<and>
      (\<forall>fs0 bs0 st0. cd_dec_fc (fd_codec blank) (Some f) (Some fs0) (Some bs0) (Some st0) =
        Some (UDS_TP_OK, Some fs, Some bs, Some st))"
    using fd_fc [where cid = cid and fs = fs and bs = bs and st = st] by (auto simp: fd_codec_def)
qed

end
