(* ===== verification/IsoTp.thy ===== *)
theory IsoTp
  imports IsoTpFrame
begin

text \<open>
  The segmentation loops of \<open>src/tp/iso_tp.c\<close>: \<open>uds_tp_send\<close>, \<open>uds_tp_recv\<close> and their CAN FD
  versions. The two versions have the same loops over different codecs and frame sizes, so the loops
  are written once, over a \<open>tp_codec\<close> and the functions that send a frame, receive a frame and sleep;
  each entry point has its own guards and passes its own codec.

  The loops are partial functions into \<open>option\<close>: \<open>None\<close> is a faulty memory access or a loop that
  never ends. \<open>IsoTpLink\<close> proves what a transfer does on a link that delivers frames in order,
  \<open>IsoTpSafe\<close> that the functions return, without a fault, on any link at all.
\<close>

section \<open>Types\<close>

record UdsTpConfig =
  timeout_ms :: u32
  block_size :: u8
  st_min :: u8

record UdsTpRxChannel =
  ch_buf :: "u8 list ptr"
  ch_buf_size :: nat
  ch_msg_len :: u32
  ch_received :: u32
  ch_next_sn :: u8
  ch_in_progress :: bool

definition UDS_TP_MAX_WAIT_FRAMES :: nat where "UDS_TP_MAX_WAIT_FRAMES = 10"
definition UDS_TP_CANFD_MAX_PDU_LEN :: nat where "UDS_TP_CANFD_MAX_PDU_LEN = 0xFFFFFFFF"

definition uds_tp_rx_init ::
  "UdsTpRxChannel ptr \<Rightarrow> u8 list ptr \<Rightarrow> nat \<Rightarrow> UdsTpError \<times> UdsTpRxChannel ptr" where
  "uds_tp_rx_init ch buf buf_size =
     (if ch = None \<or> buf = None \<or> buf_size = 0 then (UDS_TP_ERR_PARAM, ch)
      else (UDS_TP_OK, Some \<lparr>ch_buf = buf, ch_buf_size = buf_size, ch_msg_len = 0, ch_received = 0,
              ch_next_sn = 1, ch_in_progress = False\<rparr>))"

fun tp_err_code :: "UdsTpError \<Rightarrow> int" where
  "tp_err_code UDS_TP_OK = 0"
| "tp_err_code UDS_TP_ERR_PARAM = - 1"
| "tp_err_code UDS_TP_ERR_TIMEOUT = - 2"
| "tp_err_code UDS_TP_ERR_OVERFLOW = - 3"
| "tp_err_code UDS_TP_ERR_SEQUENCE = - 4"
| "tp_err_code UDS_TP_ERR_FRAME_TYPE = - 5"
| "tp_err_code UDS_TP_ERR_BUF_FULL = - 6"
| "tp_err_code UDS_TP_ERR_SEND = - 7"
| "tp_err_code UDS_TP_ERR_INPROGRESS = - 8"
| "tp_err_code UDS_TP_ERR_RECV = - 9"
| "tp_err_code UDS_TP_ERR_PDU_LEN = - 10"
| "tp_err_code UDS_TP_ERR_WAIT_LIMIT = - 11"

definition uds_tp_strerror :: "int \<Rightarrow> string" where
  "uds_tp_strerror err =
     (if err = tp_err_code UDS_TP_OK then ''Success''
      else if err = tp_err_code UDS_TP_ERR_PARAM then ''Invalid parameter''
      else if err = tp_err_code UDS_TP_ERR_TIMEOUT then ''Receive timed out''
      else if err = tp_err_code UDS_TP_ERR_OVERFLOW then ''Overflow (FC overflow or buffer too small)''
      else if err = tp_err_code UDS_TP_ERR_SEQUENCE then ''Consecutive frame sequence number error''
      else if err = tp_err_code UDS_TP_ERR_FRAME_TYPE then ''Unexpected or invalid frame type''
      else if err = tp_err_code UDS_TP_ERR_BUF_FULL then ''Caller buffer too small for PDU''
      else if err = tp_err_code UDS_TP_ERR_SEND then ''CAN send failure''
      else if err = tp_err_code UDS_TP_ERR_INPROGRESS then ''Transfer already in progress''
      else if err = tp_err_code UDS_TP_ERR_RECV then ''CAN receive failure''
      else if err = tp_err_code UDS_TP_ERR_PDU_LEN then ''PDU length out of range''
      else if err = tp_err_code UDS_TP_ERR_WAIT_LIMIT then ''Too many FC WAIT frames received''
      else ''Unknown error'')"

section \<open>Separation time\<close>

text \<open>\<open>nanosleep\<close> is the environment's: a function \<open>slp\<close> on the kernel state.\<close>

definition apply_stmin :: "(timespec \<Rightarrow> 'k \<Rightarrow> 'k) \<Rightarrow> u8 \<Rightarrow> 'k \<Rightarrow> 'k" where
  "apply_stmin slp stmin k =
     (if stmin = 0 then k
      else if stmin \<le> 0x7F then slp \<lparr>tv_sec = 0, tv_nsec = int (unat stmin) * 1000000\<rparr> k
      else if 0xF1 \<le> stmin \<and> stmin \<le> 0xF9 then
        slp \<lparr>tv_sec = 0, tv_nsec = int (unat (stmin - 0xF0)) * 100000\<rparr> k
      else k)"

section \<open>Sending\<close>

text \<open>
  The variables a Flow Control frame is read into: the frame, \<open>fs\<close>, \<open>bs\<close> and \<open>stmin\<close>. They are
  uninitialised locals that are never read before they are written.
\<close>

type_synonym 'f fc_vars = "'f ptr \<times> UdsTpFlowStatus ptr \<times> u8 ptr \<times> u8 ptr"

definition fc_locals :: "'f tp_codec \<Rightarrow> 'f fc_vars" where
  "fc_locals cd = (Some (cd_blank cd), Some UDS_TP_FC_CTS, Some 0, Some 0)"

definition tp_recv_fc :: "'f tp_codec \<Rightarrow> ('f ptr \<Rightarrow> 'k \<Rightarrow> UdsCanError \<times> 'f ptr \<times> 'k) \<Rightarrow>
  'f fc_vars \<Rightarrow> 'k \<Rightarrow> (UdsTpError \<times> 'f fc_vars \<times> 'k) option" where
  "tp_recv_fc cd rcv v k =
     (let (fc, fs, bs, stmin) = v; (recv_rc, fc, k) = rcv fc k in
      if recv_rc = UDS_CAN_ERR_TIMEOUT then Some (UDS_TP_ERR_TIMEOUT, (fc, fs, bs, stmin), k)
      else if recv_rc \<noteq> UDS_CAN_OK then Some (UDS_TP_ERR_RECV, (fc, fs, bs, stmin), k)
      else do {
        (rc, fs, bs, stmin) \<leftarrow> cd_dec_fc cd fc fs bs stmin;
        if rc \<noteq> UDS_TP_OK then Some (rc, (fc, fs, bs, stmin), k)
        else if fs = Some UDS_TP_FC_OVERFLOW then Some (UDS_TP_ERR_OVERFLOW, (fc, fs, bs, stmin), k)
        else Some (UDS_TP_OK, (fc, fs, bs, stmin), k) })"

function tp_wait_loop :: "'f tp_codec \<Rightarrow> ('f ptr \<Rightarrow> 'k \<Rightarrow> UdsCanError \<times> 'f ptr \<times> 'k) \<Rightarrow>
  nat \<Rightarrow> 'f fc_vars \<Rightarrow> 'k \<Rightarrow> (UdsTpError \<times> 'f fc_vars \<times> 'k) option" where
  "tp_wait_loop cd rcv wait_count v k =
     (if fst (snd v) = Some UDS_TP_FC_WAIT then
        (if Suc wait_count > UDS_TP_MAX_WAIT_FRAMES then Some (UDS_TP_ERR_WAIT_LIMIT, v, k)
         else case tp_recv_fc cd rcv v k of None \<Rightarrow> None
           | Some (rc, v, k) \<Rightarrow>
               if rc \<noteq> UDS_TP_OK then Some (rc, v, k) else tp_wait_loop cd rcv (Suc wait_count) v k)
      else Some (UDS_TP_OK, v, k))"
  by pat_completeness auto
termination
  by (relation "measure (\<lambda>(cd, rcv, wait_count, v, k). Suc UDS_TP_MAX_WAIT_FRAMES - wait_count)") auto

declare tp_wait_loop.simps [simp del]

text \<open>
  One block of Consecutive Frames: ends with \<open>UDS_TP_OK\<close> when the data or the block is exhausted.
  \<open>&data[offset]\<close> is the rest of the data.
\<close>

partial_function (option) tp_send_block :: "'f tp_codec \<Rightarrow> ('f ptr \<Rightarrow> 'k \<Rightarrow> UdsCanError \<times> 'k) \<Rightarrow>
  (timespec \<Rightarrow> 'k \<Rightarrow> 'k) \<Rightarrow> u32 \<Rightarrow> u8 list ptr \<Rightarrow> nat \<Rightarrow> u8 \<Rightarrow> u8 \<Rightarrow> nat \<Rightarrow> u8 \<Rightarrow> u8 \<Rightarrow> 'f ptr \<Rightarrow> 'k \<Rightarrow>
  (UdsTpError \<times> nat \<times> u8 \<times> 'f ptr \<times> 'k) option" where
  "tp_send_block cd snd_f slp tx_id data len bs stmin offset sn bs_sent frame k =
     (if offset < len then
        (let k = apply_stmin slp stmin k;
             remaining = len - offset;
             chunk = (if remaining > cd_cf_max cd then cd_cf_max cd else remaining)
         in do {
           (rc, frame) \<leftarrow> cd_enc_cf cd frame tx_id (map_option (drop offset) data) chunk sn;
           if rc \<noteq> UDS_TP_OK then Some (rc, offset, sn, frame, k)
           else
             let (send_rc, k) = snd_f frame k in
             if send_rc \<noteq> UDS_CAN_OK then Some (UDS_TP_ERR_SEND, offset, sn, frame, k)
             else
               let sn = (sn + 1) AND 0x0F; offset = offset + chunk; bs_sent = bs_sent + 1 in
               if bs > 0 \<and> bs_sent \<ge> bs then Some (UDS_TP_OK, offset, sn, frame, k)
               else tp_send_block cd snd_f slp tx_id data len bs stmin offset sn bs_sent frame k })
      else Some (UDS_TP_OK, offset, sn, frame, k))"

partial_function (option) tp_send_loop :: "'f tp_codec \<Rightarrow> ('f ptr \<Rightarrow> 'k \<Rightarrow> UdsCanError \<times> 'k) \<Rightarrow>
  ('f ptr \<Rightarrow> 'k \<Rightarrow> UdsCanError \<times> 'f ptr \<times> 'k) \<Rightarrow> (timespec \<Rightarrow> 'k \<Rightarrow> 'k) \<Rightarrow>
  u32 \<Rightarrow> u8 list ptr \<Rightarrow> nat \<Rightarrow> nat \<Rightarrow> u8 \<Rightarrow> 'f ptr \<Rightarrow> 'k \<Rightarrow> (UdsTpError \<times> 'k) option" where
  "tp_send_loop cd snd_f rcv_f slp tx_id data len offset sn frame k =
     (if offset < len then do {
        (rc, v, k) \<leftarrow> tp_recv_fc cd rcv_f (fc_locals cd) k;
        if rc \<noteq> UDS_TP_OK then Some (rc, k)
        else do {
          (rc, v, k) \<leftarrow> tp_wait_loop cd rcv_f 0 v k;
          if rc \<noteq> UDS_TP_OK then Some (rc, k)
          else do {
            bs \<leftarrow> fst (snd (snd v));
            stmin \<leftarrow> snd (snd (snd v));
            (rc, offset, sn, frame, k) \<leftarrow>
              tp_send_block cd snd_f slp tx_id data len bs stmin offset sn 0 frame k;
            if rc \<noteq> UDS_TP_OK then Some (rc, k)
            else tp_send_loop cd snd_f rcv_f slp tx_id data len offset sn frame k } } }
      else Some (UDS_TP_OK, k))"

text \<open>The body of the two send functions, after the checks of their arguments.\<close>

definition tp_send_pdu :: "'f tp_codec \<Rightarrow> ('f ptr \<Rightarrow> 'k \<Rightarrow> UdsCanError \<times> 'k) \<Rightarrow>
  ('f ptr \<Rightarrow> 'k \<Rightarrow> UdsCanError \<times> 'f ptr \<times> 'k) \<Rightarrow> (timespec \<Rightarrow> 'k \<Rightarrow> 'k) \<Rightarrow>
  u32 \<Rightarrow> u8 list ptr \<Rightarrow> nat \<Rightarrow> 'k \<Rightarrow> (UdsTpError \<times> 'k) option" where
  "tp_send_pdu cd snd_f rcv_f slp tx_id data len k =
     (if len \<le> cd_sf_max cd then do {
        (rc, frame) \<leftarrow> cd_enc_sf cd (Some (cd_blank cd)) tx_id data len;
        if rc \<noteq> UDS_TP_OK then Some (rc, k)
        else
          let (send_rc, k) = snd_f frame k in
          Some (if send_rc \<noteq> UDS_CAN_OK then UDS_TP_ERR_SEND else UDS_TP_OK, k) }
      else do {
        (rc, frame) \<leftarrow> cd_enc_ff cd (Some (cd_blank cd)) tx_id data (of_nat len);
        if rc \<noteq> UDS_TP_OK then Some (rc, k)
        else
          let (send_rc, k) = snd_f frame k in
          if send_rc \<noteq> UDS_CAN_OK then Some (UDS_TP_ERR_SEND, k)
          else tp_send_loop cd snd_f rcv_f slp tx_id data len (cd_ff_embed cd len) 1 frame k })"

definition uds_tp_send :: "(can_frame, 'k) can_kernel \<Rightarrow> (timespec \<Rightarrow> 'k \<Rightarrow> 'k) \<Rightarrow> can_frame \<Rightarrow>
  UdsCanSocket ptr \<Rightarrow> u32 \<Rightarrow> u8 list ptr \<Rightarrow> nat \<Rightarrow> UdsTpConfig ptr \<Rightarrow> 'k \<Rightarrow> (UdsTpError \<times> 'k) option" where
  "uds_tp_send K slp blank sock tx_id data len cfg k =
     (if sock = None \<or> data = None \<or> len = 0 \<or> len > UDS_TP_MAX_PDU_LEN \<or> cfg = None
      then Some (UDS_TP_ERR_PARAM, k)
      else if timeout_ms (the cfg) = 0 then Some (UDS_TP_ERR_PARAM, k)
      else tp_send_pdu (classic_codec blank) (uds_can_send K sock)
             (\<lambda>f. uds_can_recv K sock f (unat (timeout_ms (the cfg)))) slp tx_id data len k)"

definition uds_tp_send_fd :: "(canfd_frame, 'k) can_kernel \<Rightarrow> (timespec \<Rightarrow> 'k \<Rightarrow> 'k) \<Rightarrow> canfd_frame \<Rightarrow>
  UdsCanSocket ptr \<Rightarrow> u32 \<Rightarrow> u8 list ptr \<Rightarrow> nat \<Rightarrow> UdsTpConfig ptr \<Rightarrow> 'k \<Rightarrow> (UdsTpError \<times> 'k) option" where
  "uds_tp_send_fd K slp blank sock tx_id data len cfg k =
     (if sock = None \<or> data = None \<or> len = 0 \<or> cfg = None then Some (UDS_TP_ERR_PARAM, k)
      else if timeout_ms (the cfg) = 0 then Some (UDS_TP_ERR_PARAM, k)
      else if len > UDS_TP_CANFD_SF_MAX_DATA \<and> len > UDS_TP_CANFD_MAX_PDU_LEN
      then Some (UDS_TP_ERR_PDU_LEN, k)
      else tp_send_pdu (fd_codec blank) (uds_can_send_fd K sock)
             (\<lambda>f. uds_can_recv_fd K sock f (unat (timeout_ms (the cfg)))) slp tx_id data len k)"

section \<open>Receiving\<close>

text \<open>Encode and send a CTS with the receiver's parameters.\<close>

definition tp_send_cts :: "'f tp_codec \<Rightarrow> ('f ptr \<Rightarrow> 'k \<Rightarrow> UdsCanError \<times> 'k) \<Rightarrow> u32 \<Rightarrow> UdsTpConfig \<Rightarrow>
  'f ptr \<Rightarrow> 'k \<Rightarrow> (UdsTpError \<times> 'f ptr \<times> 'k) option" where
  "tp_send_cts cd snd_f tx_id cfg fc k = do {
     (rc, fc) \<leftarrow> cd_enc_fc cd fc tx_id (flow_code UDS_TP_FC_CTS) (block_size cfg) (st_min cfg);
     if rc \<noteq> UDS_TP_OK then Some (rc, fc, k)
     else
       let (send_rc, k) = snd_f fc k in
       Some (if send_rc \<noteq> UDS_CAN_OK then UDS_TP_ERR_SEND else UDS_TP_OK, fc, k) }"

partial_function (option) tp_recv_loop :: "'f tp_codec \<Rightarrow> ('f ptr \<Rightarrow> 'k \<Rightarrow> UdsCanError \<times> 'k) \<Rightarrow>
  ('f ptr \<Rightarrow> 'k \<Rightarrow> UdsCanError \<times> 'f ptr \<times> 'k) \<Rightarrow> u32 \<Rightarrow> UdsTpConfig \<Rightarrow> nat \<Rightarrow> u32 \<Rightarrow>
  u8 list ptr \<Rightarrow> 'f ptr \<Rightarrow> 'f ptr \<Rightarrow> u32 \<Rightarrow> u8 \<Rightarrow> u8 \<Rightarrow> 'k \<Rightarrow> (UdsTpError \<times> u8 list ptr \<times> 'k) option" where
  "tp_recv_loop cd snd_f rcv_f tx_id cfg buf_size total_len buf fc frame received expected_sn bs_count k =
     (if received < total_len then do {
        (rc, fc, bs_count, k) \<leftarrow>
          (if block_size cfg > 0 \<and> bs_count \<ge> block_size cfg then do {
             (rc, fc, k) \<leftarrow> tp_send_cts cd snd_f tx_id cfg fc k;
             Some (rc, fc, 0, k) }
           else Some (UDS_TP_OK, fc, bs_count, k));
        if rc \<noteq> UDS_TP_OK then Some (rc, buf, k)
        else
          let (recv_rc, frame, k) = rcv_f frame k in
          if recv_rc = UDS_CAN_ERR_TIMEOUT then Some (UDS_TP_ERR_TIMEOUT, buf, k)
          else if recv_rc \<noteq> UDS_CAN_OK then Some (UDS_TP_ERR_RECV, buf, k)
          else do {
            ft \<leftarrow> cd_type cd frame;
            if ft \<noteq> UDS_TP_FRAME_CF then Some (UDS_TP_ERR_FRAME_TYPE, buf, k)
            else
              let remaining = total_len - received;
                  chunk = (if unat remaining > cd_cf_max cd then cd_cf_max cd else unat remaining) in do {
                (rc, sn, buf) \<leftarrow>
                  cd_dec_cf cd frame (Some 0) buf (unat received) (buf_size - unat received) chunk;
                if rc \<noteq> UDS_TP_OK then Some (rc, buf, k)
                else do {
                  sn \<leftarrow> sn;
                  if sn \<noteq> expected_sn then Some (UDS_TP_ERR_SEQUENCE, buf, k)
                  else tp_recv_loop cd snd_f rcv_f tx_id cfg buf_size total_len buf fc frame
                         (received + of_nat chunk) ((expected_sn + 1) AND 0x0F) (bs_count + 1) k } } } }
      else Some (UDS_TP_OK, buf, k))"

text \<open>
  The body of the two receive functions after the checks of their arguments; \<open>too_long\<close> is the
  comparison of the announced length with \<open>buf_size\<close>, the one place where the two differ.
\<close>

definition tp_recv_pdu :: "'f tp_codec \<Rightarrow> (u32 \<Rightarrow> nat \<Rightarrow> bool) \<Rightarrow> ('f ptr \<Rightarrow> 'k \<Rightarrow> UdsCanError \<times> 'k) \<Rightarrow>
  ('f ptr \<Rightarrow> 'k \<Rightarrow> UdsCanError \<times> 'f ptr \<times> 'k) \<Rightarrow> u32 \<Rightarrow> u8 list ptr \<Rightarrow> nat \<Rightarrow> nat ptr \<Rightarrow> UdsTpConfig \<Rightarrow> 'k \<Rightarrow>
  (UdsTpError \<times> u8 list ptr \<times> nat ptr \<times> 'k) option" where
  "tp_recv_pdu cd too_long snd_f rcv_f tx_id buf buf_size out_len cfg k =
     (let (recv_rc, frame, k) = rcv_f (Some (cd_blank cd)) k in
      if recv_rc = UDS_CAN_ERR_TIMEOUT then Some (UDS_TP_ERR_TIMEOUT, buf, out_len, k)
      else if recv_rc \<noteq> UDS_CAN_OK then Some (UDS_TP_ERR_RECV, buf, out_len, k)
      else do {
        ft \<leftarrow> cd_type cd frame;
        if ft = UDS_TP_FRAME_SF then do {
          (rc, buf, out_len) \<leftarrow> cd_dec_sf cd frame buf buf_size out_len;
          Some (rc, buf, out_len, k) }
        else if ft \<noteq> UDS_TP_FRAME_FF then Some (UDS_TP_ERR_FRAME_TYPE, buf, out_len, k)
        else do {
          (rc, buf, total_len, ff_data_bytes) \<leftarrow> cd_dec_ff cd frame buf buf_size (Some 0) (Some 0);
          if rc \<noteq> UDS_TP_OK then Some (rc, buf, out_len, k)
          else do {
            total_len \<leftarrow> total_len;
            ff_data_bytes \<leftarrow> ff_data_bytes;
            if too_long total_len buf_size then Some (UDS_TP_ERR_BUF_FULL, buf, out_len, k)
            else do {
              (rc, fc, k) \<leftarrow> tp_send_cts cd snd_f tx_id cfg (Some (cd_blank cd)) k;
              if rc \<noteq> UDS_TP_OK then Some (rc, buf, out_len, k)
              else do {
                (rc, buf, k) \<leftarrow> tp_recv_loop cd snd_f rcv_f tx_id cfg buf_size total_len buf fc frame
                  (of_nat ff_data_bytes) 1 0 k;
                if rc \<noteq> UDS_TP_OK then Some (rc, buf, out_len, k)
                else Some (UDS_TP_OK, buf, Some (unat total_len), k) } } } } })"

definition uds_tp_recv :: "(can_frame, 'k) can_kernel \<Rightarrow> can_frame \<Rightarrow> UdsCanSocket ptr \<Rightarrow> u32 \<Rightarrow>
  u8 list ptr \<Rightarrow> nat \<Rightarrow> nat ptr \<Rightarrow> UdsTpConfig ptr \<Rightarrow> 'k \<Rightarrow>
  (UdsTpError \<times> u8 list ptr \<times> nat ptr \<times> 'k) option" where
  "uds_tp_recv K blank sock tx_id buf buf_size out_len cfg k =
     (if sock = None \<or> buf = None \<or> out_len = None \<or> buf_size = 0 \<or> cfg = None
      then Some (UDS_TP_ERR_PARAM, buf, out_len, k)
      else if timeout_ms (the cfg) = 0 then Some (UDS_TP_ERR_PARAM, buf, out_len, k)
      else tp_recv_pdu (classic_codec blank) (\<lambda>total_len n. total_len > of_nat n) (uds_can_send K sock)
             (\<lambda>f. uds_can_recv K sock f (unat (timeout_ms (the cfg)))) tx_id buf buf_size out_len (the cfg) k)"

definition uds_tp_recv_fd :: "(canfd_frame, 'k) can_kernel \<Rightarrow> canfd_frame \<Rightarrow> UdsCanSocket ptr \<Rightarrow> u32 \<Rightarrow>
  u8 list ptr \<Rightarrow> nat \<Rightarrow> nat ptr \<Rightarrow> UdsTpConfig ptr \<Rightarrow> 'k \<Rightarrow>
  (UdsTpError \<times> u8 list ptr \<times> nat ptr \<times> 'k) option" where
  "uds_tp_recv_fd K blank sock tx_id buf buf_size out_len cfg k =
     (if sock = None \<or> buf = None \<or> out_len = None \<or> buf_size = 0 \<or> cfg = None
      then Some (UDS_TP_ERR_PARAM, buf, out_len, k)
      else if timeout_ms (the cfg) = 0 then Some (UDS_TP_ERR_PARAM, buf, out_len, k)
      else tp_recv_pdu (fd_codec blank) (\<lambda>total_len n. unat total_len > n) (uds_can_send_fd K sock)
             (\<lambda>f. uds_can_recv_fd K sock f (unat (timeout_ms (the cfg)))) tx_id buf buf_size out_len (the cfg) k)"

end
