(* ===== verification/IsoTpSegments.thy ===== *)
theory IsoTpSegments
  imports IsoTpFrame
begin

text \<open>
  The segmentation of a PDU by a codec: how many Consecutive Frames it has, where each one starts,
  and the frames in the order they are sent. This is the specification the sender and the receiver are
  measured against.
\<close>

section \<open>Counting frames\<close>

definition ceil_div :: "nat \<Rightarrow> nat \<Rightarrow> nat" where
  "ceil_div n c = (n + c - 1) div c"

lemma less_ceil_div: "0 < c \<Longrightarrow> i < ceil_div n c \<longleftrightarrow> i * c < n"
proof -
  assume c: "0 < c"
  have "i < ceil_div n c \<longleftrightarrow> Suc i \<le> (n + c - 1) div c" by (simp add: ceil_div_def Suc_le_eq)
  also have "\<dots> \<longleftrightarrow> Suc i * c \<le> n + c - 1" using c by (simp add: less_eq_div_iff_mult_less_eq)
  also have "\<dots> \<longleftrightarrow> i * c < n"
  proof -
    have "c + y \<le> n + c - 1 \<longleftrightarrow> y < n" for y using c by linarith
    then show ?thesis unfolding mult_Suc .
  qed
  finally show ?thesis .
qed

lemma ceil_div_sub:
  assumes "0 < c" "0 < n"
  shows "ceil_div n c = Suc (ceil_div (n - c) c)"
proof (cases "c \<le> n")
  case True
  then have n: "n + c - 1 = (n - c + c - 1) + c" using assms by linarith
  have "(n + c - 1) div c = (n - c + c - 1) div c + 1"
    unfolding n using assms(1) by (metis div_add_self2 not_gr_zero)
  then show ?thesis by (simp only: ceil_div_def Suc_eq_plus1)
next
  case False
  then have n: "n + c - 1 = n - 1 + c" "n - 1 < c" using assms by linarith+
  have "(n + c - 1) div c = (n - 1) div c + 1"
    unfolding n(1) using assms(1) by (metis div_add_self2 not_gr_zero)
  moreover have "(n - 1) div c = 0" using n(2) by simp
  moreover have "ceil_div (n - c) c = 0" using False assms(1) by (simp add: ceil_div_def)
  ultimately show ?thesis by (simp only: ceil_div_def Suc_eq_plus1)
qed

lemma ceil_div_0 [simp]: "ceil_div 0 c = 0"
  by (cases c) (simp_all add: ceil_div_def)

lemma ceil_div_eq_0: "0 < c \<Longrightarrow> ceil_div n c = 0 \<longleftrightarrow> n = 0"
  using less_ceil_div [of c 0 n] by auto

text \<open>The blocks that \<open>n\<close> Consecutive Frames make, with block size 0 for a single block.\<close>

definition blocks :: "nat \<Rightarrow> nat \<Rightarrow> nat" where
  "blocks n bs = (if bs = 0 then (if n = 0 then 0 else 1) else ceil_div n bs)"

lemma blocks_simps: "blocks 0 bs = 0" "0 < n \<Longrightarrow> blocks n bs = Suc (blocks (if bs = 0 then 0 else n - bs) bs)"
  by (auto simp: blocks_def ceil_div_sub)

text \<open>The sequence number of the \<open>i\<close>-th Consecutive Frame.\<close>

definition cf_sn :: "nat \<Rightarrow> u8" where
  "cf_sn i = of_nat (Suc i) AND 0x0F"

lemma cf_sn_simps: "cf_sn 0 = 1" "(cf_sn i + 1) AND 0x0F = cf_sn (Suc i)" "cf_sn i AND 0x0F = cf_sn i"
proof -
  have t: "x AND 0x0F = take_bit 4 x" for x :: u8 by (rule and_low_mask)
  show "cf_sn 0 = 1" by (simp add: cf_sn_def)
  show "cf_sn i AND 0x0F = cf_sn i" by (simp add: cf_sn_def t)
  have "take_bit 4 (take_bit 4 x + 1) = take_bit 4 (x + 1)" for x :: u8
  proof -
    have "((n mod 16 + 1) mod 256) mod 16 = ((n + 1) mod 256) mod (16 :: nat)" for n
      by (simp add: mod_mod_cancel mod_simps)
    then show ?thesis by (simp add: word_unat_eq_iff unat_take_bit unat_word_ariths(1))
  qed
  from this [of "of_nat (Suc i)"] show "(cf_sn i + 1) AND 0x0F = cf_sn (Suc i)"
    by (simp add: cf_sn_def t add.commute)
qed

section \<open>The frames of a PDU\<close>

context tp_codec
begin

text \<open>The segmentation of a PDU: where the \<open>i\<close>-th Consecutive Frame starts, and the frame.\<close>

definition ncf :: "u8 list \<Rightarrow> nat" where
  "ncf d = ceil_div (length d - cd_ff_embed cd (length d)) (cd_cf_max cd)"

definition off :: "u8 list \<Rightarrow> nat \<Rightarrow> nat" where
  "off d i = min (length d) (cd_ff_embed cd (length d) + i * cd_cf_max cd)"

definition cfm :: "u8 list \<Rightarrow> nat \<Rightarrow> nat" where
  "cfm d i = (if length d - off d i > cd_cf_max cd then cd_cf_max cd else length d - off d i)"

definition cf_nth :: "u32 \<Rightarrow> u8 list \<Rightarrow> nat \<Rightarrow> 'f" where
  "cf_nth cid d i = cf_frame cid (drop (off d i) d) (cfm d i) (cf_sn i)"

definition segments :: "u32 \<Rightarrow> u8 list \<Rightarrow> 'f list" where
  "segments cid d = (if length d \<le> cd_sf_max cd then [sf_frame cid d]
     else ff_frame cid d # map (cf_nth cid d) [0..<ncf d])"

lemma off_less:
  assumes "cd_sf_max cd < length d"
  shows "off d i < length d \<longleftrightarrow> i < ncf d"
proof -
  have "off d i < length d \<longleftrightarrow> i * cd_cf_max cd < length d - cd_ff_embed cd (length d)"
    using embed [OF assms] by (auto simp: off_def)
  then show ?thesis using less_ceil_div [OF cf_pos] by (simp add: ncf_def)
qed

lemma off_simps:
  assumes "cd_sf_max cd < length d"
  shows "off d i \<le> length d" "off d i + cfm d i = off d (Suc i)"
    "i < ncf d \<Longrightarrow> 0 < cfm d i" "cfm d i \<le> cd_cf_max cd" "cfm d i \<le> length d - off d i"
  using embed [OF assms] cf_pos off_less [OF assms, of i]
  by (auto simp: off_def cfm_def)

lemma off_0: "cd_sf_max cd < length d \<Longrightarrow> off d 0 = cd_ff_embed cd (length d)"
  using embed by (simp add: off_def)

lemma off_ncf: "cd_sf_max cd < length d \<Longrightarrow> off d (ncf d) = length d"
  using off_less [of d "ncf d"] off_simps(1) [of d "ncf d"] by simp

lemma ncf_pos: "cd_sf_max cd < length d \<Longrightarrow> 0 < ncf d"
  using off_less [of d 0] off_0 [of d] embed [of "length d"] by simp

end

text \<open>The sizes of the two layouts.\<close>

lemma codec_sizes:
  "cd_sf_max (classic_codec blank) = UDS_TP_SF_MAX_DATA" "cd_max (classic_codec blank) = UDS_TP_MAX_PDU_LEN"
  "cd_cf_max (classic_codec blank) = UDS_TP_CF_DATA_BYTES" "cd_ff_embed (classic_codec blank) m = UDS_TP_FF_DATA_BYTES"
  "cd_sf_max (fd_codec blank') = UDS_TP_CANFD_SF_MAX_DATA" "cd_max (fd_codec blank') = 2 ^ 32 - 1"
  "cd_cf_max (fd_codec blank') = UDS_TP_CANFD_CF_DATA_BYTES" "cd_ff_embed (fd_codec blank') = fd_ff_embed"
  by (simp_all add: classic_codec_def fd_codec_def)

end
