(* ===== verification/IsoTpLink.thy ===== *)
theory IsoTpLink
  imports IsoTp IsoTpSegments
begin

text \<open>
  ISO-TP over a link that delivers frames in order. The locale \<open>tp_link\<close> joins the codec interface
  and the link interface; in it the loops of the sender and the receiver are evaluated frame by frame,
  and the two sides are shown to fit together. It is interpreted on the two codecs and the virtual CAN
  interface, which gives the properties of \<open>uds_tp_send\<close> and \<open>uds_tp_recv\<close> and of their FD versions.
\<close>

section \<open>Transfers on a link\<close>

locale tp_link = tp_codec cd + can_link "\<lambda>f. snd_f (Some f)" "\<lambda>g. rcv_f (Some g)" inbox outbox
  for cd :: "'f tp_codec"
    and snd_f :: "'f ptr \<Rightarrow> 'k \<Rightarrow> UdsCanError \<times> 'k"
    and rcv_f :: "'f ptr \<Rightarrow> 'k \<Rightarrow> UdsCanError \<times> 'f ptr \<times> 'k"
    and inbox :: "'k \<Rightarrow> 'f list"
    and outbox :: "'k \<Rightarrow> 'f list" +
  fixes slp :: "timespec \<Rightarrow> 'k \<Rightarrow> 'k"
  assumes slp_in: "inbox (slp t k) = inbox k"
    and slp_out: "outbox (slp t k) = outbox k"
begin

lemma send_step:
  obtains k' where "snd_f (Some f) k = (UDS_CAN_OK, k')" "outbox k' = outbox k @ [f]" "inbox k' = inbox k"
  using send_law [of f k] that by blast

lemma recv_step:
  assumes "inbox k = f # fs"
  obtains k' where "rcv_f (Some g) k = (UDS_CAN_OK, Some f, k')" "outbox k' = outbox k" "inbox k' = fs"
  using recv_law [OF assms] that by blast

lemma stmin_step [simp]:
  "inbox (apply_stmin slp st k) = inbox k" "outbox (apply_stmin slp st k) = outbox k"
  by (simp_all add: apply_stmin_def slp_in slp_out)

text \<open>One block of Consecutive Frames from the \<open>i\<close>-th on, \<open>j\<close> frames of the block being sent.\<close>

definition block_end :: "u8 list \<Rightarrow> u8 \<Rightarrow> nat \<Rightarrow> nat \<Rightarrow> nat" where
  "block_end d bs i j = (if bs = 0 then ncf d else min (ncf d) (i + unat bs - j))"

lemma send_block:
  assumes "cd_sf_max cd < length d" "i \<le> ncf d" "bs = 0 \<or> j < unat bs"
  shows "\<exists>g' k'. tp_send_block cd snd_f slp cid (Some d) (length d) bs st (off d i) (cf_sn i) (of_nat j) (Some g) k =
      Some (UDS_TP_OK, off d (block_end d bs i j), cf_sn (block_end d bs i j), Some g', k') \<and>
    outbox k' = outbox k @ map (cf_nth cid d) [i..<block_end d bs i j] \<and> inbox k' = inbox k"
  using assms(2,3)
proof (induction "ncf d - i" arbitrary: i j g k)
  case 0
  then show ?case
    using off_ncf [OF assms(1)] by (subst tp_send_block.simps) (auto simp: block_end_def)
next
  case (Suc n)
  then have i: "i < ncf d" "off d i < length d" using off_less [OF assms(1), of i] by auto
  note m = off_simps [OF assms(1), where i = i]
  have enc: "cd_enc_cf cd (Some g) cid (Some (drop (off d i) d)) (cfm d i) (cf_sn i) =
      Some (UDS_TP_OK, Some (cf_nth cid d i))"
    using cf(1) [of "cfm d i" "drop (off d i) d"] m i by (simp add: cf_nth_def)
  obtain k1 where k1: "snd_f (Some (cf_nth cid d i)) (apply_stmin slp st k) = (UDS_CAN_OK, k1)"
    "outbox k1 = outbox k @ [cf_nth cid d i]" "inbox k1 = inbox k"
    using send_step [of "cf_nth cid d i" "apply_stmin slp st k"] by auto
  have step: "tp_send_block cd snd_f slp cid (Some d) (length d) bs st (off d i) (cf_sn i) (of_nat j) (Some g) k =
      (if bs > 0 \<and> of_nat (Suc j) \<ge> bs then Some (UDS_TP_OK, off d (Suc i), cf_sn (Suc i), Some (cf_nth cid d i), k1)
       else tp_send_block cd snd_f slp cid (Some d) (length d) bs st (off d (Suc i)) (cf_sn (Suc i)) (of_nat (Suc j))
         (Some (cf_nth cid d i)) k1)"
    using i enc k1 m(2) by (subst tp_send_block.simps)
      (simp add: Let_def cfm_def [symmetric] cf_sn_simps(2) add.commute [of 1 "of_nat j :: u8"])
  show ?case
  proof (cases "bs \<noteq> 0 \<and> Suc j = unat bs")
    case True
    then have "of_nat (Suc j) = bs" by (metis of_nat_unat ucast_id)
    moreover from True i have "block_end d bs i j = Suc i" by (auto simp: block_end_def)
    ultimately show ?thesis using True i k1 unfolding step by (auto simp: word_gt_0)
  next
    case False
    have "unat (of_nat (Suc j) :: u8) = Suc j" if "bs \<noteq> 0"
      using that Suc.prems unat_u8_less [of bs] unat_small [of "Suc j"] by auto
    with False Suc.prems have go: "\<not> (bs > 0 \<and> of_nat (Suc j) \<ge> bs)" "bs = 0 \<or> Suc j < unat bs"
      by (auto simp: word_le_nat_alt word_gt_0)
    have e: "block_end d bs (Suc i) (Suc j) = block_end d bs i j" by (simp add: block_end_def)
    have "i < block_end d bs i j" using i go(2) by (auto simp: block_end_def)
    then have "map (cf_nth cid d) [i..<block_end d bs i j] =
        cf_nth cid d i # map (cf_nth cid d) [Suc i..<block_end d bs i j]"
      by (simp add: upt_conv_Cons)
    with Suc.hyps(1) [of "Suc i" "Suc j" "cf_nth cid d i" k1] Suc.hyps(2) i go k1 e
    show ?thesis unfolding step by auto
  qed
qed

text \<open>The Flow Control frames of one block as the sender waits for them: some WAITs, then a CTS.\<close>

definition fc_group :: "u32 \<Rightarrow> u8 \<Rightarrow> u8 \<Rightarrow> nat \<Rightarrow> 'f list" where
  "fc_group cid bs st w =
     replicate w (fc_frame cid UDS_TP_FC_WAIT bs st) @ [fc_frame cid UDS_TP_FC_CTS bs st]"

lemma recv_fc_step:
  assumes "inbox k = fc_frame cid fs bs st # rest" "fs \<noteq> UDS_TP_FC_OVERFLOW"
  shows "\<exists>k'. tp_recv_fc cd rcv_f (Some g, Some fs0, Some bs0, Some st0) k =
      Some (UDS_TP_OK, (Some (fc_frame cid fs bs st), Some fs, Some bs, Some st), k') \<and>
    inbox k' = rest \<and> outbox k' = outbox k"
proof -
  from recv_step [OF assms(1), of g] obtain k' where
    "rcv_f (Some g) k = (UDS_CAN_OK, Some (fc_frame cid fs bs st), k')" "outbox k' = outbox k" "inbox k' = rest"
    by blast
  with assms(2) fc(2) [of cid fs bs st fs0 bs0 st0] show ?thesis by (simp add: tp_recv_fc_def)
qed

lemma wait_loop:
  assumes "inbox k = fc_group cid bs st w @ rest" "wc + w < UDS_TP_MAX_WAIT_FRAMES"
  shows "\<exists>k'. tp_wait_loop cd rcv_f wc (Some g, Some UDS_TP_FC_WAIT, Some bs0, Some st0) k =
      Some (UDS_TP_OK, (Some (fc_frame cid UDS_TP_FC_CTS bs st), Some UDS_TP_FC_CTS, Some bs, Some st), k') \<and>
    inbox k' = rest \<and> outbox k' = outbox k"
  using assms
proof (induction w arbitrary: wc g bs0 st0 k)
  case 0
  then have "inbox k = fc_frame cid UDS_TP_FC_CTS bs st # rest" by (simp add: fc_group_def)
  from recv_fc_step [OF this] obtain k' where
    "tp_recv_fc cd rcv_f (Some g, Some UDS_TP_FC_WAIT, Some bs0, Some st0) k =
      Some (UDS_TP_OK, (Some (fc_frame cid UDS_TP_FC_CTS bs st), Some UDS_TP_FC_CTS, Some bs, Some st), k')"
    "inbox k' = rest" "outbox k' = outbox k" by blast
  with 0 show ?case by (simp add: tp_wait_loop.simps)
next
  case (Suc w)
  then have "inbox k = fc_frame cid UDS_TP_FC_WAIT bs st # fc_group cid bs st w @ rest" by (simp add: fc_group_def)
  from recv_fc_step [OF this] obtain k1 where k1:
    "tp_recv_fc cd rcv_f (Some g, Some UDS_TP_FC_WAIT, Some bs0, Some st0) k =
      Some (UDS_TP_OK, (Some (fc_frame cid UDS_TP_FC_WAIT bs st), Some UDS_TP_FC_WAIT, Some bs, Some st), k1)"
    "inbox k1 = fc_group cid bs st w @ rest" "outbox k1 = outbox k" by blast
  from Suc.prems(2) have "Suc wc + w < UDS_TP_MAX_WAIT_FRAMES" by simp
  from Suc.IH [OF k1(2) this] k1 Suc.prems(2) show ?case
    by (subst tp_wait_loop.simps) auto
qed

lemma wait_limit:
  assumes "inbox k = replicate w (fc_frame cid UDS_TP_FC_WAIT bs st) @ rest" "wc + w = UDS_TP_MAX_WAIT_FRAMES"
  shows "\<exists>v k'. tp_wait_loop cd rcv_f wc (Some g, Some UDS_TP_FC_WAIT, Some bs0, Some st0) k =
      Some (UDS_TP_ERR_WAIT_LIMIT, v, k') \<and> inbox k' = rest \<and> outbox k' = outbox k"
  using assms
proof (induction w arbitrary: wc g bs0 st0 k)
  case 0
  then show ?case by (simp add: tp_wait_loop.simps)
next
  case (Suc w)
  then have "inbox k = fc_frame cid UDS_TP_FC_WAIT bs st # replicate w (fc_frame cid UDS_TP_FC_WAIT bs st) @ rest"
    by simp
  from recv_fc_step [OF this] obtain k1 where k1:
    "tp_recv_fc cd rcv_f (Some g, Some UDS_TP_FC_WAIT, Some bs0, Some st0) k =
      Some (UDS_TP_OK, (Some (fc_frame cid UDS_TP_FC_WAIT bs st), Some UDS_TP_FC_WAIT, Some bs, Some st), k1)"
    "inbox k1 = replicate w (fc_frame cid UDS_TP_FC_WAIT bs st) @ rest" "outbox k1 = outbox k" by blast
  from Suc.prems(2) have "Suc wc + w = UDS_TP_MAX_WAIT_FRAMES" by simp
  from Suc.IH [OF k1(2) this] k1 Suc.prems(2) show ?case
    by (subst tp_wait_loop.simps) auto
qed

text \<open>Up to the limit, the sender gets past the WAITs of a block.\<close>

lemma recv_group:
  assumes "inbox k = fc_group cid bs st w @ rest" "w \<le> UDS_TP_MAX_WAIT_FRAMES"
  shows "\<exists>v k1 k2. tp_recv_fc cd rcv_f (fc_locals cd) k = Some (UDS_TP_OK, v, k1) \<and>
    tp_wait_loop cd rcv_f 0 v k1 =
      Some (UDS_TP_OK, (Some (fc_frame cid UDS_TP_FC_CTS bs st), Some UDS_TP_FC_CTS, Some bs, Some st), k2) \<and>
    inbox k2 = rest \<and> outbox k2 = outbox k"
proof (cases w)
  case 0
  with assms have "inbox k = fc_frame cid UDS_TP_FC_CTS bs st # rest" by (simp add: fc_group_def)
  from recv_fc_step [OF this] obtain k1 where
    "tp_recv_fc cd rcv_f (fc_locals cd) k =
      Some (UDS_TP_OK, (Some (fc_frame cid UDS_TP_FC_CTS bs st), Some UDS_TP_FC_CTS, Some bs, Some st), k1)"
    "inbox k1 = rest" "outbox k1 = outbox k" unfolding fc_locals_def by blast
  then show ?thesis by (auto simp: tp_wait_loop.simps)
next
  case (Suc w')
  with assms have "inbox k = fc_frame cid UDS_TP_FC_WAIT bs st # fc_group cid bs st w' @ rest" by (simp add: fc_group_def)
  from recv_fc_step [OF this] obtain k1 where k1:
    "tp_recv_fc cd rcv_f (fc_locals cd) k =
      Some (UDS_TP_OK, (Some (fc_frame cid UDS_TP_FC_WAIT bs st), Some UDS_TP_FC_WAIT, Some bs, Some st), k1)"
    "inbox k1 = fc_group cid bs st w' @ rest" "outbox k1 = outbox k" unfolding fc_locals_def by blast
  from Suc assms(2) have "0 + w' < UDS_TP_MAX_WAIT_FRAMES" by simp
  from wait_loop [OF k1(2) this, of "fc_frame cid UDS_TP_FC_WAIT bs st" bs st] k1 show ?thesis by auto
qed

lemma send_loop:
  assumes "cd_sf_max cd < length d" "i \<le> ncf d"
    "inbox k = concat (map (fc_group rid bs st) ws) @ rest"
    "length ws = blocks (ncf d - i) (unat bs)" "\<forall>w\<in>set ws. w \<le> UDS_TP_MAX_WAIT_FRAMES"
  shows "\<exists>k'. tp_send_loop cd snd_f rcv_f slp cid (Some d) (length d) (off d i) (cf_sn i) (Some g) k =
      Some (UDS_TP_OK, k') \<and>
    outbox k' = outbox k @ map (cf_nth cid d) [i..<ncf d] \<and> inbox k' = rest"
  using assms(2-5)
proof (induction ws arbitrary: i g k)
  case Nil
  then have "i = ncf d" using blocks_simps(2) [of "ncf d - i" "unat bs"] by (cases "i < ncf d") auto
  with Nil off_ncf [OF assms(1)] show ?case by (simp add: tp_send_loop.simps)
next
  case (Cons w ws)
  then have i: "i < ncf d" "off d i < length d"
    using off_less [OF assms(1), of i] by (auto simp: blocks_simps(1) intro: le_neq_implies_less)
  define i' where "i' = block_end d bs i 0"
  have i': "i < i'" "i' \<le> ncf d" using i by (auto simp: i'_def block_end_def unat_gt_0)
  have rem: "ncf d - i' = (if unat bs = 0 then 0 else ncf d - i - unat bs)"
    by (auto simp: i'_def block_end_def unat_eq_zero)
  from Cons.prems have group: "inbox k = fc_group rid bs st w @ concat (map (fc_group rid bs st) ws) @ rest"
    "w \<le> UDS_TP_MAX_WAIT_FRAMES" by simp_all
  from recv_group [OF group] obtain v k1 k2 where fc:
    "tp_recv_fc cd rcv_f (fc_locals cd) k = Some (UDS_TP_OK, v, k1)"
    "tp_wait_loop cd rcv_f 0 v k1 =
      Some (UDS_TP_OK, (Some (fc_frame rid UDS_TP_FC_CTS bs st), Some UDS_TP_FC_CTS, Some bs, Some st), k2)"
    "inbox k2 = concat (map (fc_group rid bs st) ws) @ rest" "outbox k2 = outbox k" by blast
  have "bs = 0 \<or> 0 < unat bs" by (auto simp: unat_gt_0)
  from send_block [OF assms(1) less_imp_le [OF i(1)] this, of cid st g k2] obtain g' k3 where blk:
    "tp_send_block cd snd_f slp cid (Some d) (length d) bs st (off d i) (cf_sn i) 0 (Some g) k2 =
      Some (UDS_TP_OK, off d i', cf_sn i', Some g', k3)"
    "outbox k3 = outbox k2 @ map (cf_nth cid d) [i..<i']" "inbox k3 = inbox k2"
    unfolding i'_def by auto
  have "length ws = blocks (ncf d - i') (unat bs)"
    using Cons.prems(3) blocks_simps(2) [of "ncf d - i" "unat bs"] i(1) unfolding rem by simp
  from Cons.IH [OF i'(2) _ this, of k3 g'] blk(3) fc(3) Cons.prems(4) obtain k' where
    "tp_send_loop cd snd_f rcv_f slp cid (Some d) (length d) (off d i') (cf_sn i') (Some g') k3 = Some (UDS_TP_OK, k')"
    "outbox k' = outbox k3 @ map (cf_nth cid d) [i'..<ncf d]" "inbox k' = rest" by auto
  moreover have "[i..<i'] @ [i'..<ncf d] = [i..<ncf d]"
    using i' upt_add_eq_append [of i i' "ncf d - i'"] by simp
  then have "map (cf_nth cid d) [i..<i'] @ map (cf_nth cid d) [i'..<ncf d] = map (cf_nth cid d) [i..<ncf d]"
    by (metis map_append)
  ultimately show ?case
    using i fc(1,2,4) blk(1,2) by (subst tp_send_loop.simps) simp
qed

text \<open>A whole PDU from the sender's side.\<close>

lemma send_pdu:
  assumes "d \<noteq> []" "length d \<le> cd_max cd"
    "inbox k = concat (map (fc_group rid bs st) ws) @ rest" "\<forall>w\<in>set ws. w \<le> UDS_TP_MAX_WAIT_FRAMES"
    "length ws = (if length d \<le> cd_sf_max cd then 0 else blocks (ncf d) (unat bs))"
  shows "\<exists>k'. tp_send_pdu cd snd_f rcv_f slp cid (Some d) (length d) k = Some (UDS_TP_OK, k') \<and>
    outbox k' = outbox k @ segments cid d \<and> inbox k' = rest"
proof (cases "length d \<le> cd_sf_max cd")
  case True
  obtain k1 where "snd_f (Some (sf_frame cid d)) k = (UDS_CAN_OK, k1)" "outbox k1 = outbox k @ [sf_frame cid d]"
    "inbox k1 = inbox k" by (rule send_step)
  with True assms show ?thesis using sf(1) [OF assms(1) True] by (simp add: tp_send_pdu_def segments_def)
next
  case False
  then have long: "cd_sf_max cd < length d" by simp
  obtain k1 where k1: "snd_f (Some (ff_frame cid d)) k = (UDS_CAN_OK, k1)" "outbox k1 = outbox k @ [ff_frame cid d]"
    "inbox k1 = inbox k" by (rule send_step)
  with assms(3) have "inbox k1 = concat (map (fc_group rid bs st) ws) @ rest" by simp
  moreover have "length ws = blocks (ncf d - 0) (unat bs)" using False assms(5) by simp
  ultimately obtain k' where
    "tp_send_loop cd snd_f rcv_f slp cid (Some d) (length d) (off d 0) (cf_sn 0) (Some (ff_frame cid d)) k1 =
      Some (UDS_TP_OK, k')"
    "outbox k' = outbox k1 @ map (cf_nth cid d) [0..<ncf d]" "inbox k' = rest"
    using send_loop [OF long le0 _ _ assms(4)] by blast
  with k1 False ff(1) [OF long assms(2)] off_0 [OF long] show ?thesis
    by (simp add: tp_send_pdu_def segments_def cf_sn_simps(1))
qed

text \<open>A peer that only ever says WAIT stops the sender after the First Frame.\<close>

lemma send_wait_limit:
  assumes "cd_sf_max cd < length d" "length d \<le> cd_max cd"
    "inbox k = replicate (Suc UDS_TP_MAX_WAIT_FRAMES) (fc_frame rid UDS_TP_FC_WAIT bs st) @ rest"
  shows "\<exists>k'. tp_send_pdu cd snd_f rcv_f slp cid (Some d) (length d) k = Some (UDS_TP_ERR_WAIT_LIMIT, k') \<and>
    outbox k' = outbox k @ [ff_frame cid d] \<and> inbox k' = rest"
proof -
  let ?W = "fc_frame rid UDS_TP_FC_WAIT bs st"
  obtain k1 where k1: "snd_f (Some (ff_frame cid d)) k = (UDS_CAN_OK, k1)" "outbox k1 = outbox k @ [ff_frame cid d]"
    "inbox k1 = inbox k" by (rule send_step)
  with assms(3) have "inbox k1 = ?W # replicate UDS_TP_MAX_WAIT_FRAMES ?W @ rest" by simp
  from recv_fc_step [OF this] obtain k2 where k2:
    "tp_recv_fc cd rcv_f (fc_locals cd) k1 = Some (UDS_TP_OK, (Some ?W, Some UDS_TP_FC_WAIT, Some bs, Some st), k2)"
    "inbox k2 = replicate UDS_TP_MAX_WAIT_FRAMES ?W @ rest" "outbox k2 = outbox k1"
    unfolding fc_locals_def by blast
  from wait_limit [OF k2(2), of 0 ?W bs st] obtain v k3 where
    "tp_wait_loop cd rcv_f 0 (Some ?W, Some UDS_TP_FC_WAIT, Some bs, Some st) k2 = Some (UDS_TP_ERR_WAIT_LIMIT, v, k3)"
    "inbox k3 = rest" "outbox k3 = outbox k2" by auto
  with k1 k2 assms(1) embed [OF assms(1)] ff(1) [OF assms(1,2)] show ?thesis
    by (simp add: tp_send_pdu_def tp_send_loop.simps)
qed

text \<open>The receiver: \<open>i\<close> Consecutive Frames are in, \<open>j\<close> of them since the last CTS.\<close>

definition refills :: "u8 list \<Rightarrow> u8 \<Rightarrow> nat \<Rightarrow> nat \<Rightarrow> nat" where
  "refills d bs i j = (if bs = 0 then 0 else ceil_div (ncf d - i - (unat bs - j)) (unat bs))"

lemma send_cts:
  "\<exists>k'. tp_send_cts cd snd_f rid cfg (Some g) k =
      Some (UDS_TP_OK, Some (fc_frame rid UDS_TP_FC_CTS (block_size cfg) (st_min cfg)), k') \<and>
    outbox k' = outbox k @ [fc_frame rid UDS_TP_FC_CTS (block_size cfg) (st_min cfg)] \<and> inbox k' = inbox k"
proof -
  let ?F = "fc_frame rid UDS_TP_FC_CTS (block_size cfg) (st_min cfg)"
  obtain k' where "snd_f (Some ?F) k = (UDS_CAN_OK, k')" "outbox k' = outbox k @ [?F]" "inbox k' = inbox k"
    by (rule send_step)
  then show ?thesis using fc(1) [of g rid UDS_TP_FC_CTS "block_size cfg" "st_min cfg"]
    by (simp add: tp_send_cts_def)
qed

lemma refill_step:
  assumes "i < ncf d" "block_size cfg = 0 \<or> j \<le> unat (block_size cfg)"
  shows "\<exists>g' j' k1. (if block_size cfg > 0 \<and> of_nat j \<ge> block_size cfg then do {
        (rc, fc, k) \<leftarrow> tp_send_cts cd snd_f rid cfg (Some g) k;
        Some (rc, fc, 0 :: u8, k) }
      else Some (UDS_TP_OK, Some g, of_nat j, k)) = Some (UDS_TP_OK, Some g', of_nat j', k1) \<and>
    outbox k1 = outbox k @ replicate (refills d (block_size cfg) i j - refills d (block_size cfg) (Suc i) (Suc j'))
      (fc_frame rid UDS_TP_FC_CTS (block_size cfg) (st_min cfg)) \<and>
    inbox k1 = inbox k \<and>
    refills d (block_size cfg) (Suc i) (Suc j') \<le> refills d (block_size cfg) i j \<and>
    (block_size cfg = 0 \<or> Suc j' \<le> unat (block_size cfg))"
proof (cases "block_size cfg \<noteq> 0 \<and> j = unat (block_size cfg)")
  case True
  from send_cts [of rid cfg g k] obtain k1 where k1:
    "tp_send_cts cd snd_f rid cfg (Some g) k =
      Some (UDS_TP_OK, Some (fc_frame rid UDS_TP_FC_CTS (block_size cfg) (st_min cfg)), k1)"
    "outbox k1 = outbox k @ [fc_frame rid UDS_TP_FC_CTS (block_size cfg) (st_min cfg)]" "inbox k1 = inbox k"
    by blast
  let ?b = "unat (block_size cfg)"
  have b: "0 < ?b" using True by (simp add: unat_gt_0)
  have "ncf d - Suc i - (?b - Suc 0) = ncf d - i - ?b" using b assms(1) by linarith
  then have r: "refills d (block_size cfg) i j = Suc (refills d (block_size cfg) (Suc i) (Suc 0))"
    using True assms(1) ceil_div_sub [OF b, of "ncf d - i"] by (simp add: refills_def)
  show ?thesis
    using True k1 b r by (intro exI [of _ "fc_frame rid UDS_TP_FC_CTS (block_size cfg) (st_min cfg)"]
      exI [of _ 0] exI [of _ k1]) (auto simp: word_gt_0)
next
  case False
  have u: "unat (of_nat j :: u8) = j" if "block_size cfg \<noteq> 0"
    using that assms(2) unat_u8_less [of "block_size cfg"] by (auto intro: unat_small)
  with False assms(2) have c: "\<not> (block_size cfg > 0 \<and> of_nat j \<ge> block_size cfg)"
    by (auto simp: word_le_nat_alt word_gt_0)
  from False assms have j: "block_size cfg = 0 \<or> Suc j \<le> unat (block_size cfg)" by auto
  with assms(1) have "refills d (block_size cfg) i j = refills d (block_size cfg) (Suc i) (Suc j)"
    by (auto simp: refills_def intro!: arg_cong [where f = "\<lambda>n. ceil_div n b" for b])
  with c j show ?thesis by (intro exI [of _ g] exI [of _ j] exI [of _ k]) auto
qed

lemma recv_loop:
  assumes d: "cd_sf_max cd < length d" "length d \<le> cd_max cd" and n: "length d \<le> n"
    and "i \<le> ncf d" "block_size cfg = 0 \<or> j \<le> unat (block_size cfg)" "n \<le> length buf"
    "inbox k = map (cf_nth cid d) [i..<ncf d] @ rest"
  shows "\<exists>k'. tp_recv_loop cd snd_f rcv_f rid cfg n (of_nat (length d)) (Some buf) (Some h) (Some g)
        (of_nat (off d i)) (cf_sn i) (of_nat j) k =
      Some (UDS_TP_OK, Some (splice (off d i) (drop (off d i) d) buf), k') \<and>
    outbox k' = outbox k @ replicate (refills d (block_size cfg) i j)
      (fc_frame rid UDS_TP_FC_CTS (block_size cfg) (st_min cfg)) \<and> inbox k' = rest"
  using assms(4-7)
proof (induction "ncf d - i" arbitrary: i j g h k buf)
  case 0
  then have "i = ncf d" by simp
  with 0 off_ncf [OF d(1)] show ?case
    by (subst tp_recv_loop.simps) (simp add: refills_def)
next
  case (Suc m)
  then have i: "i < ncf d" "off d i < length d" using off_less [OF d(1), of i] by auto
  have big: "length d < 2 ^ 32" using d(2) max_small by simp
  have u: "unat (of_nat x :: u32) = x" if "x \<le> length d" for x
    using that big by (simp add: unat_of_nat)
  note o = off_simps [OF d(1), where i = i]
  have lt: "(of_nat (off d i) :: u32) < of_nat (length d)"
    using i u [of "off d i"] u [of "length d"] o(1) by (simp add: word_less_nat_alt)
  have remn: "unat (of_nat (length d) - of_nat (off d i) :: u32) = length d - off d i"
    using lt u [of "off d i"] u [of "length d"] o(1) by (simp add: unat_sub order.strict_implies_order)
  from refill_step [OF i(1) Suc.prems(2), of rid h k] obtain h1 j1 k1 where r:
    "(if block_size cfg > 0 \<and> of_nat j \<ge> block_size cfg then do {
        (rc, fc, k) \<leftarrow> tp_send_cts cd snd_f rid cfg (Some h) k;
        Some (rc, fc, 0 :: u8, k) }
      else Some (UDS_TP_OK, Some h, of_nat j, k)) = Some (UDS_TP_OK, Some h1, of_nat j1, k1)"
    "outbox k1 = outbox k @ replicate (refills d (block_size cfg) i j - refills d (block_size cfg) (Suc i) (Suc j1))
      (fc_frame rid UDS_TP_FC_CTS (block_size cfg) (st_min cfg))"
    "inbox k1 = inbox k" "refills d (block_size cfg) (Suc i) (Suc j1) \<le> refills d (block_size cfg) i j"
    "block_size cfg = 0 \<or> Suc j1 \<le> unat (block_size cfg)" by blast
  have "inbox k1 = cf_nth cid d i # map (cf_nth cid d) [Suc i..<ncf d] @ rest"
    using r(3) Suc.prems(4) i(1) by (simp add: upt_conv_Cons)
  from recv_step [OF this, of g] obtain k2 where k2:
    "rcv_f (Some g) k1 = (UDS_CAN_OK, Some (cf_nth cid d i), k2)" "outbox k2 = outbox k1"
    "inbox k2 = map (cf_nth cid d) [Suc i..<ncf d] @ rest" by blast
  let ?buf = "splice (off d i) (take (cfm d i) (drop (off d i) d)) buf"
  have dec: "cd_type cd (Some (cf_nth cid d i)) = Some UDS_TP_FRAME_CF"
    "cd_dec_cf cd (Some (cf_nth cid d i)) (Some 0) (Some buf) (off d i) (n - off d i) (cfm d i) =
      Some (UDS_TP_OK, Some (cf_sn i), Some ?buf)"
    using cf(2,3) [of "cfm d i" "drop (off d i) d"] o i n Suc.prems(3) by (simp_all add: cf_nth_def cf_sn_simps(3))
  have chunk: "(if unat (of_nat (length d) - of_nat (off d i) :: u32) > cd_cf_max cd then cd_cf_max cd
      else unat (of_nat (length d) - of_nat (off d i) :: u32)) = cfm d i"
    unfolding remn by (simp add: cfm_def)
  have next_off: "(of_nat (off d i) + of_nat (cfm d i) :: u32) = of_nat (off d (Suc i))" using o(2) by (metis of_nat_add)
  have "tp_recv_loop cd snd_f rcv_f rid cfg n (of_nat (length d)) (Some buf) (Some h) (Some g)
        (of_nat (off d i)) (cf_sn i) (of_nat j) k =
      tp_recv_loop cd snd_f rcv_f rid cfg n (of_nat (length d)) (Some ?buf) (Some h1) (Some (cf_nth cid d i))
        (of_nat (off d (Suc i))) (cf_sn (Suc i)) (of_nat (Suc j1)) k2"
    using lt k2(1) dec u [of "off d i"] o(1)
    by (subst tp_recv_loop.simps, unfold r(1) Let_def chunk next_off) (simp add: chunk next_off cf_sn_simps(2) add.commute [of 1 "of_nat j1 :: u8"])
  moreover have "splice (off d (Suc i)) (drop (off d (Suc i)) d) ?buf = splice (off d i) (drop (off d i) d) buf"
  proof -
    let ?rem = "drop (off d i) d"
    have "off d (Suc i) = off d i + length (take (cfm d i) ?rem)" using o(2,5) by simp
    moreover have "drop (off d (Suc i)) d = drop (cfm d i) ?rem" using o(2) by (simp add: add.commute)
    moreover have "off d i + length (take (cfm d i) ?rem) + length (drop (cfm d i) ?rem) \<le> length buf"
      using n Suc.prems(3) i(2) by simp
    ultimately show ?thesis
      using splice_splice_adjacent [of "off d i" "take (cfm d i) ?rem" "drop (cfm d i) ?rem" buf]
      by (simp only: append_take_drop_id)
  qed
  moreover have "length ?buf = length buf" using n Suc.prems(3) i(2) o(5) by simp
  ultimately show ?case
    using Suc.hyps(1) [of "Suc i" "Suc j1" ?buf k2 h1 "cf_nth cid d i"] Suc.hyps(2) i(1) r(2,4,5) k2(2,3) Suc.prems(3)
    by (auto simp flip: replicate_add)
qed

lemma refills_blocks:
  assumes "cd_sf_max cd < length d"
  shows "Suc (refills d bs 0 0) = blocks (ncf d) (unat bs)"
proof (cases "bs = 0")
  case False
  then have "0 < unat bs" by (simp add: unat_gt_0)
  then show ?thesis using False ncf_pos [OF assms] by (simp add: refills_def blocks_def ceil_div_sub unat_eq_zero)
qed (use ncf_pos [OF assms] in \<open>simp add: refills_def blocks_def\<close>)

text \<open>A whole PDU from the receiver's side.\<close>

lemma recv_pdu:
  assumes "d \<noteq> []" "length d \<le> cd_max cd" "length d \<le> n" "n \<le> length buf"
    "\<not> too_long (of_nat (length d)) n" "inbox k = segments cid d @ rest"
  shows "\<exists>k'. tp_recv_pdu cd too_long snd_f rcv_f rid (Some buf) n (Some l) cfg k =
      Some (UDS_TP_OK, Some (splice 0 d buf), Some (length d), k') \<and>
    outbox k' = outbox k @ replicate (if length d \<le> cd_sf_max cd then 0 else blocks (ncf d) (unat (block_size cfg)))
      (fc_frame rid UDS_TP_FC_CTS (block_size cfg) (st_min cfg)) \<and>
    inbox k' = rest"
proof (cases "length d \<le> cd_sf_max cd")
  case True
  with assms(6) have "inbox k = sf_frame cid d # rest" by (simp add: segments_def)
  from recv_step [OF this, of "cd_blank cd"] obtain k1 where
    "rcv_f (Some (cd_blank cd)) k = (UDS_CAN_OK, Some (sf_frame cid d), k1)" "outbox k1 = outbox k" "inbox k1 = rest"
    by blast
  with True sf(2,3) [OF assms(1) True, where cid = cid] assms(3,4) show ?thesis
    by (simp add: tp_recv_pdu_def)
next
  case False
  then have long: "cd_sf_max cd < length d" by simp
  let ?F = "fc_frame rid UDS_TP_FC_CTS (block_size cfg) (st_min cfg)"
  let ?buf = "splice 0 (take (cd_ff_embed cd (length d)) d) buf"
  note e = embed [OF long]
  from False assms(6) have "inbox k = ff_frame cid d # map (cf_nth cid d) [0..<ncf d] @ rest" by (simp add: segments_def)
  from recv_step [OF this, of "cd_blank cd"] obtain k1 where k1:
    "rcv_f (Some (cd_blank cd)) k = (UDS_CAN_OK, Some (ff_frame cid d), k1)" "outbox k1 = outbox k"
    "inbox k1 = map (cf_nth cid d) [0..<ncf d] @ rest" by blast
  from send_cts [of rid cfg "cd_blank cd" k1] obtain k2 where k2:
    "tp_send_cts cd snd_f rid cfg (Some (cd_blank cd)) k1 = Some (UDS_TP_OK, Some ?F, k2)"
    "outbox k2 = outbox k1 @ [?F]" "inbox k2 = inbox k1" by blast
  have "n \<le> length ?buf" "inbox k2 = map (cf_nth cid d) [0..<ncf d] @ rest"
    using e assms(3,4) k1 k2 by simp_all
  from recv_loop [OF long assms(2,3) le0 _ this, of cfg 0 rid ?F "ff_frame cid d"] obtain k3 where k3:
    "tp_recv_loop cd snd_f rcv_f rid cfg n (of_nat (length d)) (Some ?buf) (Some ?F) (Some (ff_frame cid d))
        (of_nat (off d 0)) (cf_sn 0) 0 k2 =
      Some (UDS_TP_OK, Some (splice (off d 0) (drop (off d 0) d) ?buf), k3)"
    "outbox k3 = outbox k2 @ replicate (refills d (block_size cfg) 0 0) ?F" "inbox k3 = rest" by auto
  have buf: "splice (off d 0) (drop (off d 0) d) ?buf = splice 0 d buf"
    using splice_splice_adjacent [of 0 "take (off d 0) d" "drop (off d 0) d" buf] e assms(3,4) off_0 [OF long] by simp
  have "unat (of_nat (length d) :: u32) = length d" using assms(2) max_small by (simp add: unat_of_nat)
  with k1 k2 k3 ff(2,3) [OF long assms(2), where cid = cid] assms(3-5) refills_blocks [OF long, of "block_size cfg"]
    off_0 [OF long] False buf
  show ?thesis by (simp add: tp_recv_pdu_def cf_sn_simps(1) flip: replicate_Suc)
qed

end

section \<open>On the virtual CAN interface\<close>

definition vcan_sleep :: "timespec \<Rightarrow> 'f vcan \<Rightarrow> 'f vcan" where
  "vcan_sleep t k = k\<lparr>vc_slept := vc_slept k + tv_sec t * 1000000000 + tv_nsec t\<rparr>"

interpretation classic_link: tp_link "classic_codec blank"
  "uds_can_send (vcan_kernel sz) (Some \<lparr>fd = int s\<rparr>)"
  "\<lambda>f. uds_can_recv (vcan_kernel sz) (Some \<lparr>fd = int s\<rparr>) f (Suc t)" vc_in vc_out vcan_sleep
  by unfold_locales (simp_all add: vcan_sleep_def)

interpretation fd_link: tp_link "fd_codec blank"
  "uds_can_send_fd (vcan_kernel sz) (Some \<lparr>fd = int s\<rparr>)"
  "\<lambda>f. uds_can_recv_fd (vcan_kernel sz) (Some \<lparr>fd = int s\<rparr>) f (Suc t)" vc_in vc_out vcan_sleep
  unfolding uds_can_send_fd_def uds_can_recv_fd_def
  by unfold_locales (simp_all add: vcan_sleep_def)

text \<open>The Consecutive Frames of a PDU of \<open>m\<close> bytes, and the blocks a receiver splits them into.\<close>

definition classic_cfs :: "nat \<Rightarrow> nat" where
  "classic_cfs m = (if m \<le> UDS_TP_SF_MAX_DATA then 0
     else ceil_div (m - UDS_TP_FF_DATA_BYTES) UDS_TP_CF_DATA_BYTES)"

definition fd_cfs :: "nat \<Rightarrow> nat" where
  "fd_cfs m = (if m \<le> UDS_TP_CANFD_SF_MAX_DATA then 0 else ceil_div (m - fd_ff_embed m) UDS_TP_CANFD_CF_DATA_BYTES)"

lemma link_sizes:
  "length (classic.segments blank cid d) = Suc (classic_cfs (length d))"
  "length (fd.segments blank' cid e) = Suc (fd_cfs (length e))"
  "(if length d \<le> cd_sf_max (classic_codec blank) then 0 else blocks (classic.ncf blank d) b) = blocks (classic_cfs (length d)) b"
  "(if length e \<le> cd_sf_max (fd_codec blank') then 0 else blocks (fd.ncf blank' e) b) = blocks (fd_cfs (length e)) b"
  by (auto simp: classic.segments_def fd.segments_def classic.ncf_def fd.ncf_def
      classic_cfs_def fd_cfs_def codec_sizes blocks_def)

text \<open>The entry points with valid arguments, on the virtual interface.\<close>

lemma socket_fd: "0 \<le> fd s \<Longrightarrow> \<exists>m. s = \<lparr>fd = int m\<rparr>"
  by (cases s) (auto intro: nonneg_int_cases)

lemma timeout_Suc: "timeout_ms cfg \<noteq> 0 \<Longrightarrow> \<exists>t. unat (timeout_ms cfg) = Suc t"
  by (metis not0_implies_Suc unat_eq_zero)

lemma classic_send:
  assumes "d \<noteq> []" "length d \<le> 4095" "0 \<le> fd s" "timeout_ms cfg \<noteq> 0"
    "vc_in k = concat (map (classic_link.fc_group blank rid bs st) ws) @ rest" "\<forall>w\<in>set ws. w \<le> UDS_TP_MAX_WAIT_FRAMES"
    "length ws = blocks (classic_cfs (length d)) (unat bs)"
  shows "\<exists>k'. uds_tp_send (vcan_kernel sz) vcan_sleep blank (Some s) cid (Some d) (length d) (Some cfg) k =
      Some (UDS_TP_OK, k') \<and>
    vc_out k' = vc_out k @ classic.segments blank cid d \<and> vc_in k' = rest"
proof -
  from socket_fd [OF assms(3)] obtain m where s: "s = \<lparr>fd = int m\<rparr>" ..
  from timeout_Suc [OF assms(4)] obtain t where t: "unat (timeout_ms cfg) = Suc t" ..
  have "length d \<le> cd_max (classic_codec blank)" using assms(2) by (simp add: classic_codec_def tp_consts)
  from classic_link.send_pdu [OF assms(1) this assms(5,6) assms(7) [folded link_sizes(3) [where blank = blank]],
      where sz = sz and s = m and t = t and cid = cid]
  show ?thesis using assms(1,2,4) by (simp add: uds_tp_send_def tp_consts t s)
qed

lemma classic_recv:
  assumes "d \<noteq> []" "length d \<le> 4095" "0 \<le> fd s" "timeout_ms cfg \<noteq> 0"
    "length d \<le> n" "n \<le> length buf" "n < 2 ^ 32" "vc_in k = classic.segments blank cid d @ rest"
  shows "\<exists>k'. uds_tp_recv (vcan_kernel sz) blank (Some s) rid (Some buf) n (Some l) (Some cfg) k =
      Some (UDS_TP_OK, Some (splice 0 d buf), Some (length d), k') \<and>
    vc_out k' = vc_out k @ replicate (blocks (classic_cfs (length d)) (unat (block_size cfg)))
      (classic.fc_frame blank rid UDS_TP_FC_CTS (block_size cfg) (st_min cfg)) \<and> vc_in k' = rest"
proof -
  from socket_fd [OF assms(3)] obtain m where s: "s = \<lparr>fd = int m\<rparr>" ..
  from timeout_Suc [OF assms(4)] obtain t where t: "unat (timeout_ms cfg) = Suc t" ..
  have "length d \<le> cd_max (classic_codec blank)" using assms(2) by (simp add: codec_sizes tp_consts)
  moreover have "\<not> (of_nat (length d) > (of_nat n :: u32))"
    using assms(5,7) by (simp add: not_less word_le_nat_alt unat_of_nat)
  ultimately show ?thesis
    using classic_link.recv_pdu [of d blank n buf "\<lambda>x m. of_nat m < x" k cid rest sz m t rid l cfg] assms
    unfolding link_sizes(3) by (cases d) (simp_all add: uds_tp_recv_def t s)
qed

lemma fd_send:
  assumes "d \<noteq> []" "length d < 2 ^ 32" "0 \<le> fd s" "timeout_ms cfg \<noteq> 0"
    "vc_in k = concat (map (fd_link.fc_group blank rid bs st) ws) @ rest" "\<forall>w\<in>set ws. w \<le> UDS_TP_MAX_WAIT_FRAMES"
    "length ws = blocks (fd_cfs (length d)) (unat bs)"
  shows "\<exists>k'. uds_tp_send_fd (vcan_kernel sz) vcan_sleep blank (Some s) cid (Some d) (length d) (Some cfg) k =
      Some (UDS_TP_OK, k') \<and>
    vc_out k' = vc_out k @ fd.segments blank cid d \<and> vc_in k' = rest"
proof -
  from socket_fd [OF assms(3)] obtain m where s: "s = \<lparr>fd = int m\<rparr>" ..
  from timeout_Suc [OF assms(4)] obtain t where t: "unat (timeout_ms cfg) = Suc t" ..
  have "length d \<le> cd_max (fd_codec blank)" using assms(2) by (simp add: codec_sizes)
  from fd_link.send_pdu [OF assms(1) this assms(5,6) assms(7) [folded link_sizes(4) [where blank' = blank]],
      where sz = sz and s = m and t = t and cid = cid]
  show ?thesis using assms(1,2,4) by (simp add: uds_tp_send_fd_def UDS_TP_CANFD_MAX_PDU_LEN_def t s)
qed

lemma fd_recv:
  assumes "d \<noteq> []" "length d < 2 ^ 32" "0 \<le> fd s" "timeout_ms cfg \<noteq> 0"
    "length d \<le> n" "n \<le> length buf" "vc_in k = fd.segments blank cid d @ rest"
  shows "\<exists>k'. uds_tp_recv_fd (vcan_kernel sz) blank (Some s) rid (Some buf) n (Some l) (Some cfg) k =
      Some (UDS_TP_OK, Some (splice 0 d buf), Some (length d), k') \<and>
    vc_out k' = vc_out k @ replicate (blocks (fd_cfs (length d)) (unat (block_size cfg)))
      (fd.fc_frame blank rid UDS_TP_FC_CTS (block_size cfg) (st_min cfg)) \<and> vc_in k' = rest"
proof -
  from socket_fd [OF assms(3)] obtain m where s: "s = \<lparr>fd = int m\<rparr>" ..
  from timeout_Suc [OF assms(4)] obtain t where t: "unat (timeout_ms cfg) = Suc t" ..
  have "length d \<le> cd_max (fd_codec blank)" using assms(2) by (simp add: codec_sizes)
  moreover have "\<not> (n < unat (of_nat (length d) :: u32))"
    using assms(2,5) by (simp add: unat_of_nat)
  ultimately show ?thesis
    using fd_link.recv_pdu [of d blank n buf "\<lambda>x m. m < unat x" k cid rest sz m t rid l cfg] assms
    unfolding link_sizes(4) by (cases d) (simp_all add: uds_tp_recv_fd_def t s)
qed

lemma fc_group_0: "concat (map (classic_link.fc_group blank rid bs st) (replicate m 0)) =
    replicate m (classic.fc_frame blank rid UDS_TP_FC_CTS bs st)"
  "concat (map (fd_link.fc_group blank' rid bs st) (replicate m 0)) =
    replicate m (fd.fc_frame blank' rid UDS_TP_FC_CTS bs st)"
  by (induction m) (simp_all add: classic_link.fc_group_def fd_link.fc_group_def)

lemma classic_send_cts:
  assumes "d \<noteq> []" "length d \<le> 4095" "0 \<le> fd s" "timeout_ms cfg \<noteq> 0"
    "vc_in k = replicate (blocks (classic_cfs (length d)) (unat bs)) (classic.fc_frame blank rid UDS_TP_FC_CTS bs st) @ rest"
  shows "\<exists>k'. uds_tp_send (vcan_kernel sz) vcan_sleep blank (Some s) cid (Some d) (length d) (Some cfg) k =
      Some (UDS_TP_OK, k') \<and>
    vc_out k' = vc_out k @ classic.segments blank cid d \<and> vc_in k' = rest"
  using classic_send [OF assms(1-4) assms(5) [folded fc_group_0(1)]] by simp

lemma fd_send_cts:
  assumes "d \<noteq> []" "length d < 2 ^ 32" "0 \<le> fd s" "timeout_ms cfg \<noteq> 0"
    "vc_in k = replicate (blocks (fd_cfs (length d)) (unat bs)) (fd.fc_frame blank rid UDS_TP_FC_CTS bs st) @ rest"
  shows "\<exists>k'. uds_tp_send_fd (vcan_kernel sz) vcan_sleep blank (Some s) cid (Some d) (length d) (Some cfg) k =
      Some (UDS_TP_OK, k') \<and>
    vc_out k' = vc_out k @ fd.segments blank cid d \<and> vc_in k' = rest"
  using fd_send [OF assms(1-4) assms(5) [folded fc_group_0(2)]] by simp

section \<open>Properties\<close>

text \<open>
  C5. A classic ISO-TP transfer is exact, and the two sides fit. For a PDU \<open>d\<close> of 1..4095 bytes there
  are frames, as many as the segmentation needs, and a Flow Control frame, one per block of the
  receiver's block size, such that the sender, fed exactly these Flow Controls, emits exactly these
  frames, and the receiver, fed exactly these frames, emits exactly these Flow Controls and ends with
  \<open>d\<close> at the front of its buffer (the rest untouched) and its length. Both take nothing else from
  their inboxes; both return success.
\<close>

theorem tp_transfer_exact:
  assumes "d \<noteq> []" "length d \<le> 4095" "0 \<le> fd s" "0 \<le> fd r" "timeout_ms scfg \<noteq> 0" "timeout_ms rcfg \<noteq> 0"
    "length d \<le> n" "n \<le> length buf" "n < 2 ^ 32"
  shows "\<exists>frames fc.
    length frames = 1 + classic_cfs (length d) \<and>
    (\<forall>ks rest. vc_in ks = replicate (blocks (classic_cfs (length d)) (unat (block_size rcfg))) fc @ rest \<longrightarrow>
      (\<exists>ks'. uds_tp_send (vcan_kernel sz) vcan_sleep blank (Some s) cid (Some d) (length d) (Some scfg) ks =
           Some (UDS_TP_OK, ks') \<and> vc_out ks' = vc_out ks @ frames \<and> vc_in ks' = rest)) \<and>
    (\<forall>kr rest. vc_in kr = frames @ rest \<longrightarrow>
      (\<exists>kr'. uds_tp_recv (vcan_kernel sz) blank (Some r) rid (Some buf) n (Some l) (Some rcfg) kr =
           Some (UDS_TP_OK, Some (splice 0 d buf), Some (length d), kr') \<and>
         vc_out kr' = vc_out kr @ replicate (blocks (classic_cfs (length d)) (unat (block_size rcfg))) fc \<and>
         vc_in kr' = rest))"
proof (rule exI [of _ "classic.segments blank cid d"],
    rule exI [of _ "classic.fc_frame blank rid UDS_TP_FC_CTS (block_size rcfg) (st_min rcfg)"], intro conjI allI impI)
  let ?m = "blocks (classic_cfs (length d)) (unat (block_size rcfg))"
  show "length (classic.segments blank cid d) = 1 + classic_cfs (length d)" by (simp add: link_sizes)
  show "\<exists>ks'. uds_tp_send (vcan_kernel sz) vcan_sleep blank (Some s) cid (Some d) (length d) (Some scfg) ks =
      Some (UDS_TP_OK, ks') \<and> vc_out ks' = vc_out ks @ classic.segments blank cid d \<and> vc_in ks' = rest"
    if "vc_in ks = replicate ?m (classic.fc_frame blank rid UDS_TP_FC_CTS (block_size rcfg) (st_min rcfg)) @ rest"
    for ks rest
    by (rule classic_send_cts [OF assms(1-3,5) that])
  show "\<exists>kr'. uds_tp_recv (vcan_kernel sz) blank (Some r) rid (Some buf) n (Some l) (Some rcfg) kr =
      Some (UDS_TP_OK, Some (splice 0 d buf), Some (length d), kr') \<and>
      vc_out kr' = vc_out kr @ replicate ?m (classic.fc_frame blank rid UDS_TP_FC_CTS (block_size rcfg) (st_min rcfg)) \<and>
      vc_in kr' = rest" if "vc_in kr = classic.segments blank cid d @ rest" for kr rest
    by (rule classic_recv [OF assms(1,2,4,6-9) that])
qed

text \<open>Twenty bytes in two blocks of one Consecutive Frame each.\<close>

theorem tp_transfer_exact_witness:
  "\<exists>frames fc ks' kr'.
    uds_tp_send (vcan_kernel 16) vcan_sleep \<lparr>can_id = 0, can_dlc = 0, can_data = replicate 8 0\<rparr> (Some \<lparr>fd = 3\<rparr>)
      0x601 (Some (map of_nat [0..<20])) 20 (Some \<lparr>timeout_ms = 1000, block_size = 0, st_min = 0\<rparr>)
      \<lparr>vc_in = [fc, fc], vc_out = [], vc_open = 1, vc_filters = [], vc_slept = 0\<rparr> = Some (UDS_TP_OK, ks') \<and>
    vc_out ks' = frames \<and> length frames = 3 \<and>
    uds_tp_recv (vcan_kernel 16) \<lparr>can_id = 0, can_dlc = 0, can_data = replicate 8 0\<rparr> (Some \<lparr>fd = 3\<rparr>)
      0x681 (Some (replicate 22 0)) 22 (Some 0) (Some \<lparr>timeout_ms = 1000, block_size = 1, st_min = 5\<rparr>)
      \<lparr>vc_in = frames, vc_out = [], vc_open = 1, vc_filters = [], vc_slept = 0\<rparr> =
      Some (UDS_TP_OK, Some (map of_nat [0..<20] @ [0, 0]), Some 20, kr') \<and>
    vc_out kr' = [fc, fc]"
proof -
  define d :: "u8 list" where "d = map of_nat [0..<20]"
  define rcfg where "rcfg = \<lparr>timeout_ms = 1000, block_size = 1, st_min = 5\<rparr>"
  have len: "length d = 20" "d \<noteq> []" by (simp_all add: d_def)
  have c: "classic_cfs (length d) = 2" by (simp add: len classic_cfs_def ceil_div_def tp_consts)
  have "blocks (classic_cfs (length d)) (unat (block_size rcfg)) = 2" by (simp add: c rcfg_def blocks_def ceil_div_def)
  then have m: "1 + classic_cfs (length d) = 3"
    "replicate (blocks (classic_cfs (length d)) (unat (block_size rcfg))) fc = [fc, fc]" for fc :: "can_frame"
    by (simp_all add: c numeral_2_eq_2)
  have buf: "splice 0 d (replicate 22 0) = d @ [0, 0]" by (simp add: splice_def len numeral_2_eq_2)
  let ?s = "\<lparr>fd = 3\<rparr>"
  have "timeout_ms rcfg \<noteq> 0" by (simp add: rcfg_def)
  then obtain frames fc where t: "length frames = 3"
    "\<forall>ks rest. vc_in ks = [fc, fc] @ rest \<longrightarrow>
      (\<exists>ks'. uds_tp_send (vcan_kernel 16) vcan_sleep \<lparr>can_id = 0, can_dlc = 0, can_data = replicate 8 0\<rparr> (Some ?s) 0x601 (Some d) (length d)
           (Some \<lparr>timeout_ms = 1000, block_size = 0, st_min = 0\<rparr>) ks = Some (UDS_TP_OK, ks') \<and>
         vc_out ks' = vc_out ks @ frames \<and> vc_in ks' = rest)"
    "\<forall>kr rest. vc_in kr = frames @ rest \<longrightarrow>
      (\<exists>kr'. uds_tp_recv (vcan_kernel 16) \<lparr>can_id = 0, can_dlc = 0, can_data = replicate 8 0\<rparr> (Some ?s) 0x681 (Some (replicate 22 0)) 22 (Some 0)
           (Some rcfg) kr = Some (UDS_TP_OK, Some (splice 0 d (replicate 22 0)), Some (length d), kr') \<and>
         vc_out kr' = vc_out kr @ [fc, fc] \<and> vc_in kr' = rest)"
    using tp_transfer_exact [where d = d and s = ?s and r = ?s and rcfg = rcfg and n = 22 and buf = "replicate 22 0" and sz = 16
      and scfg = "\<lparr>timeout_ms = 1000, block_size = 0, st_min = 0\<rparr>" and blank = "\<lparr>can_id = 0, can_dlc = 0, can_data = replicate 8 0\<rparr>" and cid = "0x601" and rid = "0x681" and l = 0] unfolding m by (auto simp: len)
  from t(2) [rule_format, of "\<lparr>vc_in = [fc, fc], vc_out = [], vc_open = 1, vc_filters = [], vc_slept = 0\<rparr>" "[]"]
    t(3) [rule_format, of "\<lparr>vc_in = frames, vc_out = [], vc_open = 1, vc_filters = [], vc_slept = 0\<rparr>" "[]"] t(1)
  show ?thesis unfolding buf len d_def [symmetric] rcfg_def [symmetric] by auto
qed

text \<open>
  C18. The same for CAN FD, up to PDUs of \<open>2 ^ 32 - 1\<close> bytes: the 62 bytes of a short First Frame or
  the 58 of one with the escape length, then Consecutive Frames of 63 bytes.
\<close>

theorem tp_transfer_exact_fd:
  assumes "d \<noteq> []" "length d < 2 ^ 32" "0 \<le> fd s" "0 \<le> fd r" "timeout_ms scfg \<noteq> 0" "timeout_ms rcfg \<noteq> 0"
    "length d \<le> n" "n \<le> length buf"
  shows "\<exists>frames fc.
    length frames = 1 + fd_cfs (length d) \<and>
    (\<forall>ks rest. vc_in ks = replicate (blocks (fd_cfs (length d)) (unat (block_size rcfg))) fc @ rest \<longrightarrow>
      (\<exists>ks'. uds_tp_send_fd (vcan_kernel sz) vcan_sleep blank (Some s) cid (Some d) (length d) (Some scfg) ks =
           Some (UDS_TP_OK, ks') \<and> vc_out ks' = vc_out ks @ frames \<and> vc_in ks' = rest)) \<and>
    (\<forall>kr rest. vc_in kr = frames @ rest \<longrightarrow>
      (\<exists>kr'. uds_tp_recv_fd (vcan_kernel sz) blank (Some r) rid (Some buf) n (Some l) (Some rcfg) kr =
           Some (UDS_TP_OK, Some (splice 0 d buf), Some (length d), kr') \<and>
         vc_out kr' = vc_out kr @ replicate (blocks (fd_cfs (length d)) (unat (block_size rcfg))) fc \<and>
         vc_in kr' = rest))"
proof (rule exI [of _ "fd.segments blank cid d"],
    rule exI [of _ "fd.fc_frame blank rid UDS_TP_FC_CTS (block_size rcfg) (st_min rcfg)"], intro conjI allI impI)
  let ?m = "blocks (fd_cfs (length d)) (unat (block_size rcfg))"
  show "length (fd.segments blank cid d) = 1 + fd_cfs (length d)" by (simp add: link_sizes)
  show "\<exists>ks'. uds_tp_send_fd (vcan_kernel sz) vcan_sleep blank (Some s) cid (Some d) (length d) (Some scfg) ks =
      Some (UDS_TP_OK, ks') \<and> vc_out ks' = vc_out ks @ fd.segments blank cid d \<and> vc_in ks' = rest"
    if "vc_in ks = replicate ?m (fd.fc_frame blank rid UDS_TP_FC_CTS (block_size rcfg) (st_min rcfg)) @ rest"
    for ks rest
    by (rule fd_send_cts [OF assms(1-3,5) that])
  show "\<exists>kr'. uds_tp_recv_fd (vcan_kernel sz) blank (Some r) rid (Some buf) n (Some l) (Some rcfg) kr =
      Some (UDS_TP_OK, Some (splice 0 d buf), Some (length d), kr') \<and>
      vc_out kr' = vc_out kr @ replicate ?m (fd.fc_frame blank rid UDS_TP_FC_CTS (block_size rcfg) (st_min rcfg)) \<and>
      vc_in kr' = rest" if "vc_in kr = fd.segments blank cid d @ rest" for kr rest
    by (rule fd_recv [OF assms(1,2,4,6-8) that])
qed

text \<open>Two hundred bytes: a First Frame with 62 and three Consecutive Frames, in blocks of two.\<close>

theorem tp_transfer_exact_fd_witness:
  "\<exists>frames fc ks' kr'.
    uds_tp_send_fd (vcan_kernel 72) vcan_sleep \<lparr>fd_can_id = 0, fd_len = 0, fd_data = replicate 64 0\<rparr> (Some \<lparr>fd = 3\<rparr>)
      0x601 (Some (map of_nat [0..<200])) 200 (Some \<lparr>timeout_ms = 1000, block_size = 0, st_min = 0\<rparr>)
      \<lparr>vc_in = [fc, fc], vc_out = [], vc_open = 1, vc_filters = [], vc_slept = 0\<rparr> = Some (UDS_TP_OK, ks') \<and>
    vc_out ks' = frames \<and> length frames = 4 \<and>
    uds_tp_recv_fd (vcan_kernel 72) \<lparr>fd_can_id = 0, fd_len = 0, fd_data = replicate 64 0\<rparr> (Some \<lparr>fd = 3\<rparr>)
      0x681 (Some (replicate 202 0)) 202 (Some 0) (Some \<lparr>timeout_ms = 1000, block_size = 2, st_min = 5\<rparr>)
      \<lparr>vc_in = frames, vc_out = [], vc_open = 1, vc_filters = [], vc_slept = 0\<rparr> =
      Some (UDS_TP_OK, Some (map of_nat [0..<200] @ [0, 0]), Some 200, kr') \<and>
    vc_out kr' = [fc, fc]"
proof -
  define d :: "u8 list" where "d = map of_nat [0..<200]"
  define rcfg where "rcfg = \<lparr>timeout_ms = 1000, block_size = 2, st_min = 5\<rparr>"
  have len: "length d = 200" "d \<noteq> []" by (simp_all add: d_def)
  have c: "fd_cfs (length d) = 3" by (simp add: len fd_cfs_def ceil_div_def fd_consts fd_ff_embed_def)
  have "blocks (fd_cfs (length d)) (unat (block_size rcfg)) = 2" by (simp add: c rcfg_def blocks_def ceil_div_def)
  then have m: "1 + fd_cfs (length d) = 4"
    "replicate (blocks (fd_cfs (length d)) (unat (block_size rcfg))) fc = [fc, fc]" for fc :: "canfd_frame"
    by (simp_all add: c numeral_2_eq_2)
  have buf: "splice 0 d (replicate 202 0) = d @ [0, 0]" by (simp add: splice_def len numeral_2_eq_2)
  let ?s = "\<lparr>fd = 3\<rparr>"
  have "timeout_ms rcfg \<noteq> 0" by (simp add: rcfg_def)
  then obtain frames fc where t: "length frames = 4"
    "\<forall>ks rest. vc_in ks = [fc, fc] @ rest \<longrightarrow>
      (\<exists>ks'. uds_tp_send_fd (vcan_kernel 72) vcan_sleep \<lparr>fd_can_id = 0, fd_len = 0, fd_data = replicate 64 0\<rparr> (Some ?s) 0x601 (Some d) (length d)
           (Some \<lparr>timeout_ms = 1000, block_size = 0, st_min = 0\<rparr>) ks = Some (UDS_TP_OK, ks') \<and>
         vc_out ks' = vc_out ks @ frames \<and> vc_in ks' = rest)"
    "\<forall>kr rest. vc_in kr = frames @ rest \<longrightarrow>
      (\<exists>kr'. uds_tp_recv_fd (vcan_kernel 72) \<lparr>fd_can_id = 0, fd_len = 0, fd_data = replicate 64 0\<rparr> (Some ?s) 0x681 (Some (replicate 202 0)) 202 (Some 0)
           (Some rcfg) kr = Some (UDS_TP_OK, Some (splice 0 d (replicate 202 0)), Some (length d), kr') \<and>
         vc_out kr' = vc_out kr @ [fc, fc] \<and> vc_in kr' = rest)"
    using tp_transfer_exact_fd [where d = d and s = ?s and r = ?s and rcfg = rcfg and n = 202 and buf = "replicate 202 0" and sz = 72
      and scfg = "\<lparr>timeout_ms = 1000, block_size = 0, st_min = 0\<rparr>" and blank = "\<lparr>fd_can_id = 0, fd_len = 0, fd_data = replicate 64 0\<rparr>" and cid = "0x601" and rid = "0x681" and l = 0] unfolding m by (auto simp: len)
  from t(2) [rule_format, of "\<lparr>vc_in = [fc, fc], vc_out = [], vc_open = 1, vc_filters = [], vc_slept = 0\<rparr>" "[]"]
    t(3) [rule_format, of "\<lparr>vc_in = frames, vc_out = [], vc_open = 1, vc_filters = [], vc_slept = 0\<rparr>" "[]"] t(1)
  show ?thesis unfolding buf len d_def [symmetric] rcfg_def [symmetric] by auto
qed

text \<open>
  C26. The sender tolerates up to ten WAIT frames before each block and no more: with any numbers of
  WAITs up to ten, interleaved with the CTS frames of the blocks, the transfer completes with the same
  frames as without them; a peer that answers the First Frame with eleven WAITs gets
  \<open>UDS_TP_ERR_WAIT_LIMIT\<close> after exactly eleven, with nothing but the First Frame sent.
\<close>

theorem tp_send_wait_frames:
  assumes "7 < length d" "length d \<le> 4095" "0 \<le> fd s" "timeout_ms cfg \<noteq> 0"
  shows "\<exists>w cts frames.
    uds_tp_decode_fc (Some w) (Some UDS_TP_FC_CTS) (Some 0) (Some 0) = Some (UDS_TP_OK, Some UDS_TP_FC_WAIT, Some bs, Some st) \<and>
    uds_tp_decode_fc (Some cts) (Some UDS_TP_FC_CTS) (Some 0) (Some 0) = Some (UDS_TP_OK, Some UDS_TP_FC_CTS, Some bs, Some st) \<and>
    (\<forall>ws k rest. vc_in k = concat (map (\<lambda>i. replicate i w @ [cts]) ws) @ rest \<and> (\<forall>i\<in>set ws. i \<le> 10) \<and>
        length ws = blocks (classic_cfs (length d)) (unat bs) \<longrightarrow>
      (\<exists>k'. uds_tp_send (vcan_kernel sz) vcan_sleep blank (Some s) cid (Some d) (length d) (Some cfg) k =
           Some (UDS_TP_OK, k') \<and> vc_out k' = vc_out k @ frames \<and> vc_in k' = rest)) \<and>
    (\<forall>k rest. vc_in k = replicate 11 w @ rest \<longrightarrow>
      (\<exists>k'. uds_tp_send (vcan_kernel sz) vcan_sleep blank (Some s) cid (Some d) (length d) (Some cfg) k =
           Some (UDS_TP_ERR_WAIT_LIMIT, k') \<and> vc_out k' = vc_out k @ [hd frames] \<and> vc_in k' = rest))"
proof (rule exI [of _ "classic.fc_frame blank cid UDS_TP_FC_WAIT bs st"],
    rule exI [of _ "classic.fc_frame blank cid UDS_TP_FC_CTS bs st"],
    rule exI [of _ "classic.segments blank cid d"], intro conjI allI impI)
  let ?w = "classic.fc_frame blank cid UDS_TP_FC_WAIT bs st" and ?c = "classic.fc_frame blank cid UDS_TP_FC_CTS bs st"
  from assms(1) have "d \<noteq> []" by auto
  show "uds_tp_decode_fc (Some ?w) (Some UDS_TP_FC_CTS) (Some 0) (Some 0) = Some (UDS_TP_OK, Some UDS_TP_FC_WAIT, Some bs, Some st)"
    "uds_tp_decode_fc (Some ?c) (Some UDS_TP_FC_CTS) (Some 0) (Some 0) = Some (UDS_TP_OK, Some UDS_TP_FC_CTS, Some bs, Some st)"
    using classic.fc(2) [of blank cid _ bs st UDS_TP_FC_CTS 0 0] by (simp_all add: classic_codec_def)
  fix ws and k :: "can_frame vcan" and rest
  assume "vc_in k = concat (map (\<lambda>i. replicate i ?w @ [?c]) ws) @ rest \<and> (\<forall>i\<in>set ws. i \<le> 10) \<and>
      length ws = blocks (classic_cfs (length d)) (unat bs)"
  then show "\<exists>k'. uds_tp_send (vcan_kernel sz) vcan_sleep blank (Some s) cid (Some d) (length d) (Some cfg) k =
      Some (UDS_TP_OK, k') \<and> vc_out k' = vc_out k @ classic.segments blank cid d \<and> vc_in k' = rest"
    using classic_send [OF \<open>d \<noteq> []\<close> assms(2-4), of k blank cid bs st ws rest]
    by (simp add: UDS_TP_MAX_WAIT_FRAMES_def classic_link.fc_group_def [abs_def])
next
  let ?w = "classic.fc_frame blank cid UDS_TP_FC_WAIT bs st"
  from socket_fd [OF assms(3)] obtain m where s: "s = \<lparr>fd = int m\<rparr>" ..
  from timeout_Suc [OF assms(4)] obtain t where t: "unat (timeout_ms cfg) = Suc t" ..
  fix k :: "can_frame vcan" and rest
  assume "vc_in k = replicate 11 ?w @ rest"
  then have "vc_in k = replicate (Suc UDS_TP_MAX_WAIT_FRAMES) ?w @ rest" by (simp add: UDS_TP_MAX_WAIT_FRAMES_def)
  from classic_link.send_wait_limit [OF _ _ this, of d sz m t cid] assms(1,2,4)
  show "\<exists>k'. uds_tp_send (vcan_kernel sz) vcan_sleep blank (Some s) cid (Some d) (length d) (Some cfg) k =
      Some (UDS_TP_ERR_WAIT_LIMIT, k') \<and> vc_out k' = vc_out k @ [hd (classic.segments blank cid d)] \<and> vc_in k' = rest"
    by (auto simp: uds_tp_send_def codec_sizes tp_consts s t classic.segments_def)
qed

text \<open>Twenty bytes in one block, after three WAITs.\<close>

theorem tp_send_wait_frames_witness:
  "\<exists>w cts k'. uds_tp_decode_fc (Some w) (Some UDS_TP_FC_CTS) (Some 0) (Some 0) =
      Some (UDS_TP_OK, Some UDS_TP_FC_WAIT, Some 0, Some 0) \<and>
    uds_tp_send (vcan_kernel 16) vcan_sleep \<lparr>can_id = 0, can_dlc = 0, can_data = replicate 8 0\<rparr> (Some \<lparr>fd = 3\<rparr>) 0x601
      (Some (replicate 20 7)) 20 (Some \<lparr>timeout_ms = 1000, block_size = 0, st_min = 0\<rparr>)
      \<lparr>vc_in = [w, w, w, cts], vc_out = [], vc_open = 1, vc_filters = [], vc_slept = 0\<rparr> = Some (UDS_TP_OK, k')"
proof -
  define d :: "u8 list" where "d = replicate 20 7"
  have len: "length d = 20" by (simp add: d_def)
  have m: "blocks (classic_cfs (length d)) (unat (0 :: u8)) = 1"
    by (simp add: len classic_cfs_def blocks_def ceil_div_def tp_consts)
  let ?blank = "\<lparr>can_id = 0, can_dlc = 0, can_data = replicate 8 0\<rparr>"
  from tp_send_wait_frames [where d = d and s = "\<lparr>fd = 3\<rparr>" and
    cfg = "\<lparr>timeout_ms = 1000, block_size = 0, st_min = 0\<rparr>" and bs = 0 and st = 0 and sz = 16 and blank = ?blank and cid = "0x601"]
  obtain w cts frames where
    "uds_tp_decode_fc (Some w) (Some UDS_TP_FC_CTS) (Some 0) (Some 0) = Some (UDS_TP_OK, Some UDS_TP_FC_WAIT, Some 0, Some 0)"
    and t: "\<forall>ws k rest. vc_in k = concat (map (\<lambda>i. replicate i w @ [cts]) ws) @ rest \<and> (\<forall>i\<in>set ws. i \<le> 10) \<and> length ws = 1 \<longrightarrow>
      (\<exists>k'. uds_tp_send (vcan_kernel 16) vcan_sleep ?blank (Some \<lparr>fd = 3\<rparr>) 0x601 (Some d) (length d)
          (Some \<lparr>timeout_ms = 1000, block_size = 0, st_min = 0\<rparr>) k = Some (UDS_TP_OK, k') \<and>
        vc_out k' = vc_out k @ frames \<and> vc_in k' = rest)"
    unfolding m by (auto simp: len)
  with t [rule_format, of "\<lparr>vc_in = [w, w, w, cts], vc_out = [], vc_open = 1, vc_filters = [], vc_slept = 0\<rparr>" "[3]" "[]"]
  show ?thesis unfolding len d_def [symmetric] by (auto simp: numeral_eq_Suc)
qed

end
