(* ===== verification/IsoTpSafe.thy ===== *)
theory IsoTpSafe
  imports IsoTp
begin

text \<open>
  The transport layer against an arbitrary peer: \<open>uds_tp_recv\<close>, \<open>uds_tp_send\<close> and their FD versions on
  any kernel whose reads fill whole frames. Whatever frames arrive, in whatever order, and whatever
  the system calls return, the functions come back without a faulty access and stay in their
  buffers. The decoders' side of it is the locale \<open>safe_codec\<close>, interpreted on both frame layouts.
\<close>

section \<open>Decoders on arbitrary frames\<close>

text \<open>
  \<open>whole f\<close>: the data array of the frame has its full size. On such a frame a decoder returns, keeps
  the size of the buffer and the bytes behind the announced \<open>n\<close>, and leaves its outputs set.
\<close>

locale safe_codec = tp_codec cd for cd :: "'f tp_codec" +
  fixes whole :: "'f \<Rightarrow> bool"
  assumes type_law: "whole f \<Longrightarrow> \<exists>t. cd_type cd (Some f) = Some t"
    and dec_sf_law: "whole f \<Longrightarrow> n \<le> length b \<Longrightarrow>
      \<exists>rc b' l'. cd_dec_sf cd (Some f) (Some b) n (Some l) = Some (rc, Some b', Some l') \<and>
        length b' = length b \<and> drop n b' = drop n b \<and> (if rc = UDS_TP_OK then l' \<le> n else l' = l)"
    and dec_ff_law: "whole f \<Longrightarrow> n \<le> length b \<Longrightarrow>
      \<exists>rc b' t' m'. cd_dec_ff cd (Some f) (Some b) n (Some t) (Some m) = Some (rc, Some b', Some t', Some m') \<and>
        length b' = length b \<and> drop n b' = drop n b"
    and dec_cf_law: "whole f \<Longrightarrow> off + m \<le> n \<Longrightarrow> n \<le> length b \<Longrightarrow>
      \<exists>rc sn' b'. cd_dec_cf cd (Some f) (Some sn) (Some b) off (n - off) m = Some (rc, Some sn', Some b') \<and>
        length b' = length b \<and> drop n b' = drop n b"
    and dec_fc_law: "whole f \<Longrightarrow>
      \<exists>rc fs' bs' st'. cd_dec_fc cd (Some f) (Some fs) (Some bs) (Some st) = Some (rc, Some fs', Some bs', Some st')"

text \<open>A receive function that hands out whole frames.\<close>

definition whole_frames :: "('f \<Rightarrow> bool) \<Rightarrow> ('f ptr \<Rightarrow> 'k \<Rightarrow> UdsCanError \<times> 'f ptr \<times> 'k) \<Rightarrow> bool" where
  "whole_frames whole rcv \<longleftrightarrow>
     (\<forall>f k. \<exists>rc g k'. rcv (Some f) k = (rc, Some g, k') \<and> (rc = UDS_CAN_OK \<longrightarrow> whole g))"

lemma whole_framesE:
  assumes "whole_frames whole rcv"
  obtains rc g k' where "rcv (Some f) k = (rc, Some g, k')" "rc = UDS_CAN_OK \<Longrightarrow> whole g"
  using assms unfolding whole_frames_def by blast

context safe_codec
begin

section \<open>Receiving\<close>

lemma send_cts_total: "\<exists>rc fc' k'. tp_send_cts cd snd_f tx cfg (Some fc) k = Some (rc, Some fc', k')"
  unfolding tp_send_cts_def fc(1) by (cases "snd_f (Some (fc_frame tx UDS_TP_FC_CTS (block_size cfg) (st_min cfg))) k") simp

text \<open>
  One round of the receiver's loop before the end of the PDU: either it stops without having touched the
  buffer, or it has a frame to decode into the next place of it, and goes on from there.
\<close>

lemma recv_loop_step:
  assumes "whole_frames whole rcv" "received < tot"
  obtains (stops) rc k' where "rc \<noteq> UDS_TP_OK"
      "\<And>b. tp_recv_loop cd snd_f rcv tx cfg n tot (Some b) (Some fc) (Some frame) received sn cnt k = Some (rc, Some b, k')"
  | (decodes) g fc1 cnt1 k1 m where "whole g" "0 < m" "unat received + m \<le> unat tot"
      "unat (received + of_nat m) = unat received + m"
      "\<And>b. tp_recv_loop cd snd_f rcv tx cfg n tot (Some b) (Some fc) (Some frame) received sn cnt k = do {
         (rc, sn_in, buf) \<leftarrow> cd_dec_cf cd (Some g) (Some 0) (Some b) (unat received) (n - unat received) m;
         if rc \<noteq> UDS_TP_OK then Some (rc, buf, k1)
         else do {
           sn_in \<leftarrow> sn_in;
           if sn_in \<noteq> sn then Some (UDS_TP_ERR_SEQUENCE, buf, k1)
           else tp_recv_loop cd snd_f rcv tx cfg n tot buf (Some fc1) (Some g) (received + of_nat m)
                  ((sn + 1) AND 0x0F) (cnt1 + 1) k1 } }"
proof -
  from assms(2) have lt: "unat received < unat tot" by (simp add: word_less_nat_alt)
  define refill where "refill = (if block_size cfg > 0 \<and> cnt \<ge> block_size cfg then do {
           (rc, fc, k) \<leftarrow> tp_send_cts cd snd_f tx cfg (Some fc) k;
           Some (rc, fc, 0, k) }
         else Some (UDS_TP_OK, Some fc, cnt, k))"
  obtain rc1 fc1 cnt1 k1 where refill: "refill = Some (rc1, Some fc1, cnt1, k1)"
    using send_cts_total [of snd_f tx cfg fc k]
    by (cases "block_size cfg > 0 \<and> cnt \<ge> block_size cfg") (auto simp: refill_def)
  obtain rc2 g k2 where rcv: "rcv (Some frame) k1 = (rc2, Some g, k2)" "rc2 = UDS_CAN_OK \<Longrightarrow> whole g"
    using whole_framesE [OF assms(1)] by blast
  consider (no_cts) "rc1 \<noteq> UDS_TP_OK" | (timeout) "rc1 = UDS_TP_OK" "rc2 = UDS_CAN_ERR_TIMEOUT"
    | (failed) "rc1 = UDS_TP_OK" "rc2 \<noteq> UDS_CAN_ERR_TIMEOUT" "rc2 \<noteq> UDS_CAN_OK"
    | (frame) "rc1 = UDS_TP_OK" "rc2 = UDS_CAN_OK" by blast
  then show thesis
  proof cases
    case no_cts
    show thesis
      by (rule stops [of rc1 k1], rule no_cts, subst tp_recv_loop.simps)
        (use assms(2) refill no_cts in \<open>simp flip: refill_def\<close>)
  next
    case timeout
    show thesis
      by (rule stops [of UDS_TP_ERR_TIMEOUT k2], simp, subst tp_recv_loop.simps)
        (use assms(2) refill rcv(1) timeout in \<open>simp flip: refill_def\<close>)
  next
    case failed
    show thesis
      by (rule stops [of UDS_TP_ERR_RECV k2], simp, subst tp_recv_loop.simps)
        (use assms(2) refill rcv(1) failed in \<open>simp flip: refill_def\<close>)
  next
    case oks: frame
    with rcv(2) have g: "whole g" by simp
    obtain t where t: "cd_type cd (Some g) = Some t" using type_law [OF g] ..
    show thesis
    proof (cases "t = UDS_TP_FRAME_CF")
      case False
      show thesis
        by (rule stops [of UDS_TP_ERR_FRAME_TYPE k2], simp, subst tp_recv_loop.simps)
          (use assms(2) oks refill rcv(1) t False in \<open>simp flip: refill_def\<close>)
    next
      case True
      define m where "m = (if unat (tot - received) > cd_cf_max cd then cd_cf_max cd else unat (tot - received))"
      have "unat (tot - received) = unat tot - unat received" using lt by (simp add: unat_sub_if')
      then have m: "0 < m" "unat received + m \<le> unat tot" using lt cf_pos by (auto simp: m_def)
      have "unat tot < 2 ^ LENGTH(32)" by (rule unsigned_less)
      with m have adv: "unat (received + of_nat m) = unat received + m" by (simp add: unat_word_ariths(1) unat_of_nat)
      show thesis
        by (rule decodes [where ?fc1.0 = fc1 and ?cnt1.0 = cnt1 and ?k1.0 = k2, OF g m adv], subst tp_recv_loop.simps)
          (use assms(2) oks refill rcv(1) t True in \<open>simp flip: refill_def m_def\<close>)
    qed
  qed
qed

lemma recv_loop_total:
  assumes "whole_frames whole rcv" "n \<le> length buf" "unat tot \<le> n"
  shows "\<exists>rc buf' k'. tp_recv_loop cd snd_f rcv tx cfg n tot (Some buf) (Some fc) (Some frame) received sn cnt k =
    Some (rc, Some buf', k') \<and> length buf' = length buf \<and> drop n buf' = drop n buf"
  using assms(2)
proof (induction "unat tot - unat received" arbitrary: buf fc frame received sn cnt k rule: less_induct)
  case less
  show ?case
  proof (cases "received < tot")
    case False
    with less.prems show ?thesis by (subst tp_recv_loop.simps) simp
  next
    case True
    with assms(1) show ?thesis
    proof (cases rule: recv_loop_step [where n = n and snd_f = snd_f and tx = tx and cfg = cfg and fc = fc and frame = frame
        and sn = sn and cnt = cnt and k = k])
      case stops
      with less.prems show ?thesis by simp
    next
      case (decodes g fc1 cnt1 k1 m)
      from decodes(3) assms(3) have fit: "unat received + m \<le> n" by simp
      obtain rc3 sn3 c where cf: "cd_dec_cf cd (Some g) (Some 0) (Some buf) (unat received) (n - unat received) m =
          Some (rc3, Some sn3, Some c)" "length c = length buf" "drop n c = drop n buf"
        using dec_cf_law [OF decodes(1) fit less.prems, of 0] by blast
      have "\<exists>rc buf' k'. tp_recv_loop cd snd_f rcv tx cfg n tot (Some c) (Some fc1) (Some g)
          (received + of_nat m) ((sn + 1) AND 0x0F) (cnt1 + 1) k1 = Some (rc, Some buf', k') \<and>
          length buf' = length c \<and> drop n buf' = drop n c"
        using decodes(2-4) cf(2) less.prems by (intro less.hyps) simp_all
      with decodes(5) cf show ?thesis by auto
    qed
  qed
qed

lemma recv_pdu_total:
  assumes "whole_frames whole rcv" "n \<le> length buf" "\<And>t. \<not> too_long t n \<Longrightarrow> unat t \<le> n"
  shows "\<exists>rc buf' l' k'. tp_recv_pdu cd too_long snd_f rcv tx (Some buf) n (Some l) cfg k =
    Some (rc, Some buf', Some l', k') \<and> length buf' = length buf \<and> drop n buf' = drop n buf \<and>
    (if rc = UDS_TP_OK then l' \<le> n else l' = l)"
proof -
  obtain rc g k1 where rcv: "rcv (Some (cd_blank cd)) k = (rc, Some g, k1)" "rc = UDS_CAN_OK \<Longrightarrow> whole g"
    using whole_framesE [OF assms(1)] by blast
  show ?thesis
  proof (cases "rc = UDS_CAN_OK")
    case False
    with rcv(1) assms(2) show ?thesis by (simp add: tp_recv_pdu_def)
  next
    case True
    with rcv(2) have g: "whole g" by simp
    obtain t where t: "cd_type cd (Some g) = Some t" using type_law [OF g] ..
    obtain rcs bs ls where sf: "cd_dec_sf cd (Some g) (Some buf) n (Some l) = Some (rcs, Some bs, Some ls)"
      "length bs = length buf" "drop n bs = drop n buf" "if rcs = UDS_TP_OK then ls \<le> n else ls = l"
      using dec_sf_law [OF g assms(2)] by blast
    obtain rcf bf tf mf where ff: "cd_dec_ff cd (Some g) (Some buf) n (Some 0) (Some 0) = Some (rcf, Some bf, Some tf, Some mf)"
      "length bf = length buf" "drop n bf = drop n buf"
      using dec_ff_law [OF g assms(2)] by blast
    obtain rcc fcc kc where cts: "tp_send_cts cd snd_f tx cfg (Some (cd_blank cd)) k1 = Some (rcc, Some fcc, kc)"
      using send_cts_total [of snd_f tx cfg "cd_blank cd" k1] by auto
    show ?thesis
    proof (cases "t = UDS_TP_FRAME_FF \<and> rcf = UDS_TP_OK \<and> \<not> too_long tf n \<and> rcc = UDS_TP_OK")
      case False
      with True rcv(1) t sf ff cts show ?thesis
        by (auto simp: tp_recv_pdu_def split: if_splits)
    next
      case go: True
      then have "unat tf \<le> n" using assms(3) by blast
      with assms(1,2) ff(2) obtain rcl bl kl where
        "tp_recv_loop cd snd_f rcv tx cfg n tf (Some bf) (Some fcc) (Some g) (of_nat mf) 1 0 kc = Some (rcl, Some bl, kl)"
        "length bl = length bf" "drop n bl = drop n bf"
        using recv_loop_total [of rcv n bf tf snd_f tx cfg fcc g "of_nat mf" 1 0 kc] by auto
      with True rcv(1) t ff cts go \<open>unat tf \<le> n\<close> show ?thesis
        by (auto simp: tp_recv_pdu_def)
    qed
  qed
qed

section \<open>Sending\<close>

lemma recv_fc_total:
  assumes "whole_frames whole rcv"
  shows "\<exists>rc f' fs' bs' st' k'. tp_recv_fc cd rcv (Some f, Some fs, Some bs, Some st) k =
    Some (rc, (Some f', Some fs', Some bs', Some st'), k')"
proof -
  obtain rc g k1 where rcv: "rcv (Some f) k = (rc, Some g, k1)" "rc = UDS_CAN_OK \<Longrightarrow> whole g"
    using whole_framesE [OF assms(1)] by blast
  show ?thesis
  proof (cases "rc = UDS_CAN_OK")
    case False
    with rcv(1) show ?thesis by (simp add: tp_recv_fc_def)
  next
    case True
    from dec_fc_law [OF rcv(2) [OF True], of fs bs st] obtain rc' fs' bs' st' where
      "cd_dec_fc cd (Some g) (Some fs) (Some bs) (Some st) = Some (rc', Some fs', Some bs', Some st')" by blast
    with True rcv(1) show ?thesis by (auto simp: tp_recv_fc_def)
  qed
qed

lemma wait_loop_total:
  assumes "whole_frames whole rcv"
  shows "\<exists>rc f' fs' bs' st' k'. tp_wait_loop cd rcv w (Some f, Some fs, Some bs, Some st) k =
    Some (rc, (Some f', Some fs', Some bs', Some st'), k')"
proof (induction "Suc UDS_TP_MAX_WAIT_FRAMES - w" arbitrary: w f fs bs st k rule: less_induct)
  case less
  show ?case
  proof (cases "fs = UDS_TP_FC_WAIT \<and> \<not> Suc w > UDS_TP_MAX_WAIT_FRAMES")
    case False
    then show ?thesis by (subst tp_wait_loop.simps) auto
  next
    case True
    obtain rc f' fs' bs' st' k' where r: "tp_recv_fc cd rcv (Some f, Some fs, Some bs, Some st) k =
        Some (rc, (Some f', Some fs', Some bs', Some st'), k')"
      using recv_fc_total [OF assms] by blast
    from True have "Suc UDS_TP_MAX_WAIT_FRAMES - Suc w < Suc UDS_TP_MAX_WAIT_FRAMES - w" by linarith
    from less [OF this, of f' fs' bs' st' k'] True r show ?thesis
      by (subst tp_wait_loop.simps) auto
  qed
qed

lemma send_block_end:
  "\<not> offset < len \<Longrightarrow> tp_send_block cd snd_f slp tx data len bs stmin offset sn cnt frame k = Some (UDS_TP_OK, offset, sn, frame, k)"
  by (subst tp_send_block.simps) simp

lemma send_block_total:
  assumes "offset < len" "len \<le> length d"
  shows "\<exists>rc offset' sn' f' k'. tp_send_block cd snd_f slp tx (Some d) len bs stmin offset sn cnt (Some f) k =
    Some (rc, offset', sn', Some f', k') \<and> (rc = UDS_TP_OK \<longrightarrow> offset < offset' \<and> offset' \<le> len)"
  using assms(1)
proof (induction "len - offset" arbitrary: offset sn cnt f k rule: less_induct)
  case less
  define chunk where "chunk = (if len - offset > cd_cf_max cd then cd_cf_max cd else len - offset)"
  have chunk: "0 < chunk" "chunk \<le> cd_cf_max cd" "offset + chunk \<le> len" "chunk \<le> length (drop offset d)"
    using less.prems assms(2) cf_pos by (auto simp: chunk_def)
  from cf(1) [OF chunk(1,2,4)] obtain f' where enc:
    "\<And>g. cd_enc_cf cd (Some g) tx (Some (drop offset d)) chunk sn = Some (UDS_TP_OK, Some f')" by blast
  obtain src k1 where snd: "snd_f (Some f') (apply_stmin slp stmin k) = (src, k1)" by force
  show ?case
  proof (cases "src = UDS_CAN_OK \<and> \<not> (bs > 0 \<and> cnt + 1 \<ge> bs) \<and> offset + chunk < len")
    case False
    with less.prems enc snd chunk(1,3) show ?thesis
      by (subst tp_send_block.simps) (auto simp: Let_def send_block_end simp flip: chunk_def)
  next
    case True
    with less.prems chunk(1) have "len - (offset + chunk) < len - offset" "offset + chunk < len" by auto
    from less.hyps [OF this, of "(sn + 1) AND 0x0F" "cnt + 1" f' k1] True less.prems enc snd chunk(1) show ?thesis
      by (subst tp_send_block.simps) (auto simp: Let_def simp flip: chunk_def)
  qed
qed

lemma send_loop_total:
  assumes "whole_frames whole rcv" "len \<le> length d"
  shows "\<exists>rc k'. tp_send_loop cd snd_f rcv slp tx (Some d) len offset sn (Some f) k = Some (rc, k')"
proof (induction "len - offset" arbitrary: offset sn f k rule: less_induct)
  case less
  show ?case
  proof (cases "offset < len")
    case False
    then show ?thesis by (subst tp_send_loop.simps) simp
  next
    case True
    obtain rc1 f1 fs1 bs1 st1 k1 where 1: "tp_recv_fc cd rcv (fc_locals cd) k =
        Some (rc1, (Some f1, Some fs1, Some bs1, Some st1), k1)"
      using recv_fc_total [OF assms(1)] unfolding fc_locals_def by blast
    obtain rc2 f2 fs2 bs2 st2 k2 where 2: "tp_wait_loop cd rcv 0 (Some f1, Some fs1, Some bs1, Some st1) k1 =
        Some (rc2, (Some f2, Some fs2, Some bs2, Some st2), k2)"
      using wait_loop_total [OF assms(1)] by blast
    obtain rc3 offset3 sn3 f3 k3 where 3: "tp_send_block cd snd_f slp tx (Some d) len bs2 st2 offset sn 0 (Some f) k2 =
        Some (rc3, offset3, sn3, Some f3, k3)" "rc3 = UDS_TP_OK \<Longrightarrow> offset < offset3"
      using send_block_total [OF True assms(2), of snd_f slp tx bs2 st2 sn 0 f k2] by auto
    show ?thesis
    proof (cases "rc1 = UDS_TP_OK \<and> rc2 = UDS_TP_OK \<and> rc3 = UDS_TP_OK")
      case False
      with True 1 2 3 show ?thesis by (subst tp_send_loop.simps) auto
    next
      case go: True
      with True 3(2) have "len - offset3 < len - offset" by auto
      from less [OF this, of sn3 f3 k3] go True 1 2 3 show ?thesis
        by (subst tp_send_loop.simps) auto
    qed
  qed
qed

lemma send_pdu_total:
  assumes "whole_frames whole rcv" "0 < length d" "length d \<le> cd_max cd"
  shows "\<exists>rc k'. tp_send_pdu cd snd_f rcv slp tx (Some d) (length d) k = Some (rc, k')"
proof (cases "length d \<le> cd_sf_max cd")
  case True
  from assms(2) have "d \<noteq> []" by auto
  from sf(1) [OF this True] True show ?thesis by (simp add: tp_send_pdu_def split: prod.splits)
next
  case False
  then have "cd_sf_max cd < length d" by simp
  from ff(1) [OF this assms(3)] obtain f where enc:
    "cd_enc_ff cd (Some (cd_blank cd)) tx (Some d) (of_nat (length d)) = Some (UDS_TP_OK, Some f)" by blast
  obtain src k1 where "snd_f (Some f) k = (src, k1)" by force
  with send_loop_total [OF assms(1) order_refl, of snd_f slp tx d "cd_ff_embed cd (length d)" 1 f k1] False enc
  show ?thesis by (auto simp: tp_send_pdu_def)
qed

end

section \<open>Both codecs are safe\<close>

lemma classic_sf_safe:
  assumes "length (can_data f) = 8" "n \<le> length b"
  shows "\<exists>rc b' l'. uds_tp_decode_sf (Some f) (Some b) n (Some l) = Some (rc, Some b', Some l') \<and>
    length b' = length b \<and> drop n b' = drop n b \<and> (if rc = UDS_TP_OK then l' \<le> n else l' = l)"
proof -
  define m where "m = unat (can_data f ! 0 AND 0x0F)"
  have cpy: "mem_cpy (Some b) 0 (Some (can_data f)) 1 m = Some (splice 0 (take m (drop 1 (can_data f))) b)"
    "length (take m (drop 1 (can_data f))) = m" if "m \<le> 7" "m \<le> n"
    using that assms by (simp_all add: mem_cpy_def mem_simps)
  from assms cpy show ?thesis
    by (auto simp: uds_tp_decode_sf_def uds_tp_frame_type_def mem_simps Let_def tp_consts drop_splice_beyond simp flip: m_def)
qed

lemma classic_ff_safe:
  assumes "length (can_data f) = 8" "n \<le> length b"
  shows "\<exists>rc b' t'. uds_tp_decode_ff (Some f) (Some b) n (Some t) = Some (rc, Some b', Some t') \<and>
    length b' = length b \<and> drop n b' = drop n b"
proof -
  have cpy: "mem_cpy (Some b) 0 (Some (can_data f)) 2 6 = Some (splice 0 (take 6 (drop 2 (can_data f))) b)" if "6 \<le> n"
    using that assms by (simp add: mem_cpy_def mem_simps)
  with assms show ?thesis
    by (auto simp: uds_tp_decode_ff_def uds_tp_frame_type_def mem_simps Let_def tp_consts drop_splice_beyond not_less)
qed

lemma classic_cf_safe:
  assumes "length (can_data f) = 8" "off + m \<le> n" "n \<le> length b"
  shows "\<exists>rc sn' b'. uds_tp_decode_cf (Some f) (Some sn) (Some b) off (n - off) m = Some (rc, Some sn', Some b') \<and>
    length b' = length b \<and> drop n b' = drop n b"
proof -
  have cpy: "mem_cpy (Some b) off (Some (can_data f)) 1 m = Some (splice off (take m (drop 1 (can_data f))) b)" if "m \<le> 7"
    using that assms by (simp add: mem_cpy_def mem_simps)
  with assms show ?thesis
    by (auto simp: uds_tp_decode_cf_def uds_tp_frame_type_def mem_simps tp_consts drop_splice_beyond)
qed

lemma classic_fc_safe:
  assumes "length (can_data f) = 8"
  shows "\<exists>rc fs' bs' st'. uds_tp_decode_fc (Some f) (Some fs) (Some bs) (Some st) = Some (rc, Some fs', Some bs', Some st')"
  using assms by (auto simp: uds_tp_decode_fc_def uds_tp_frame_type_def mem_simps Let_def)

interpretation classic_safe: safe_codec "classic_codec blank" "\<lambda>f. length (can_data f) = 8"
proof unfold_locales
  fix f :: can_frame and n off m :: nat and b :: "u8 list" and l :: nat and t :: u32 and fs and sn bs st :: u8
  assume f: "length (can_data f) = 8"
  show "\<exists>t. cd_type (classic_codec blank) (Some f) = Some t"
    using f by (auto simp: classic_codec_def uds_tp_frame_type_def mem_simps)
  show "\<exists>rc b' l'. cd_dec_sf (classic_codec blank) (Some f) (Some b) n (Some l) = Some (rc, Some b', Some l') \<and>
      length b' = length b \<and> drop n b' = drop n b \<and> (if rc = UDS_TP_OK then l' \<le> n else l' = l)" if "n \<le> length b"
    using classic_sf_safe [OF f that] by (simp add: classic_codec_def)
  show "\<exists>rc b' t' m'. cd_dec_ff (classic_codec blank) (Some f) (Some b) n (Some t) (Some m) = Some (rc, Some b', Some t', Some m') \<and>
      length b' = length b \<and> drop n b' = drop n b" if "n \<le> length b"
    using classic_ff_safe [OF f that, of t] by (auto simp: classic_codec_def)
  show "\<exists>rc sn' b'. cd_dec_cf (classic_codec blank) (Some f) (Some sn) (Some b) off (n - off) m = Some (rc, Some sn', Some b') \<and>
      length b' = length b \<and> drop n b' = drop n b" if "off + m \<le> n" "n \<le> length b"
    using classic_cf_safe [OF f that] by (simp add: classic_codec_def)
  show "\<exists>rc fs' bs' st'. cd_dec_fc (classic_codec blank) (Some f) (Some fs) (Some bs) (Some st) = Some (rc, Some fs', Some bs', Some st')"
    using classic_fc_safe [OF f] by (simp add: classic_codec_def)
qed

lemma fd_sf_safe:
  assumes "length (fd_data f) = 64" "n \<le> length b"
  shows "\<exists>rc b' l'. uds_tp_decode_sf_fd (Some f) (Some b) n (Some l) = Some (rc, Some b', Some l') \<and>
    length b' = length b \<and> drop n b' = drop n b \<and> (if rc = UDS_TP_OK then l' \<le> n else l' = l)"
  using assms
  by (auto simp: uds_tp_decode_sf_fd_def uds_tp_frame_type_fd_def mem_simps Let_def tp_consts fd_consts drop_splice_beyond)

lemma fd_ff_safe:
  assumes "length (fd_data f) = 64" "n \<le> length b"
  shows "\<exists>rc b' t' m'. uds_tp_decode_ff_fd (Some f) (Some b) n (Some t) (Some m) = Some (rc, Some b', Some t', Some m') \<and>
    length b' = length b \<and> drop n b' = drop n b"
proof -
  have cap: "embedded x y z \<le> z" for x y z by (simp add: embedded_def Let_def)
  have cpy: "mem_cpy (Some b) 0 (Some (fd_data f)) y e = Some (splice 0 (take e (drop y (fd_data f))) b)"
    "length (take e (drop y (fd_data f))) = e" if "e \<le> n" "y + e \<le> 64" for e y
    using that assms by (simp_all add: mem_simps)
  show ?thesis
    using assms cap [of "unat (fd_len f)" 6 58] cap [of "unat (fd_len f)" 2 62]
    by (auto simp: uds_tp_decode_ff_fd_def uds_tp_frame_type_fd_def mem_simps Let_def fd_consts cpy drop_splice_beyond)
qed

lemma fd_cf_safe:
  assumes "length (fd_data f) = 64" "off + m \<le> n" "n \<le> length b"
  shows "\<exists>rc sn' b'. uds_tp_decode_cf_fd (Some f) (Some sn) (Some b) off (n - off) m = Some (rc, Some sn', Some b') \<and>
    length b' = length b \<and> drop n b' = drop n b"
  using assms by (auto simp: uds_tp_decode_cf_fd_def uds_tp_frame_type_fd_def mem_simps fd_consts drop_splice_beyond)

lemma fd_fc_safe:
  assumes "length (fd_data f) = 64"
  shows "\<exists>rc fs' bs' st'. uds_tp_decode_fc_fd (Some f) (Some fs) (Some bs) (Some st) = Some (rc, Some fs', Some bs', Some st')"
  using assms by (auto simp: uds_tp_decode_fc_fd_def uds_tp_frame_type_fd_def mem_simps Let_def)

interpretation fd_safe: safe_codec "fd_codec blank" "\<lambda>f. length (fd_data f) = 64"
proof unfold_locales
  fix f :: canfd_frame and n off m :: nat and b :: "u8 list" and l :: nat and t :: u32 and fs and sn bs st :: u8
  assume f: "length (fd_data f) = 64"
  show "\<exists>t. cd_type (fd_codec blank) (Some f) = Some t"
    using f by (auto simp: fd_codec_def uds_tp_frame_type_fd_def mem_simps)
  show "\<exists>rc b' l'. cd_dec_sf (fd_codec blank) (Some f) (Some b) n (Some l) = Some (rc, Some b', Some l') \<and>
      length b' = length b \<and> drop n b' = drop n b \<and> (if rc = UDS_TP_OK then l' \<le> n else l' = l)" if "n \<le> length b"
    using fd_sf_safe [OF f that] by (simp add: fd_codec_def)
  show "\<exists>rc b' t' m'. cd_dec_ff (fd_codec blank) (Some f) (Some b) n (Some t) (Some m) = Some (rc, Some b', Some t', Some m') \<and>
      length b' = length b \<and> drop n b' = drop n b" if "n \<le> length b"
    using fd_ff_safe [OF f that] by (simp add: fd_codec_def)
  show "\<exists>rc sn' b'. cd_dec_cf (fd_codec blank) (Some f) (Some sn) (Some b) off (n - off) m = Some (rc, Some sn', Some b') \<and>
      length b' = length b \<and> drop n b' = drop n b" if "off + m \<le> n" "n \<le> length b"
    using fd_cf_safe [OF f that] by (simp add: fd_codec_def)
  show "\<exists>rc fs' bs' st'. cd_dec_fc (fd_codec blank) (Some f) (Some fs) (Some bs) (Some st) = Some (rc, Some fs', Some bs', Some st')"
    using fd_fc_safe [OF f] by (simp add: fd_codec_def)
qed

text \<open>A kernel that reads whole frames, and the receive functions on it.\<close>

definition reads_whole :: "('f \<Rightarrow> bool) \<Rightarrow> ('f, 'k) can_kernel \<Rightarrow> bool" where
  "reads_whole whole K \<longleftrightarrow> (\<forall>s f k. whole (fst (snd (k_read K s f k))))"

lemma can_recv_whole: "reads_whole whole K \<Longrightarrow> whole_frames whole (\<lambda>f. uds_can_recv K (Some s) f t)"
  unfolding whole_frames_def reads_whole_def
  by (auto simp: uds_can_recv_def Let_def split: prod.splits) (metis fst_conv snd_conv)+

text \<open>The entry points on such a kernel.\<close>

lemma recv_safe:
  assumes "reads_whole (\<lambda>f. length (can_data f) = 8) K" "n \<le> length buf" "n < 2 ^ 32"
  shows "\<exists>rc buf' l' k'. uds_tp_recv K blank (Some s) tx (Some buf) n (Some l) pcfg k =
    Some (rc, Some buf', Some l', k') \<and> length buf' = length buf \<and> drop n buf' = drop n buf \<and>
    (if rc = UDS_TP_OK then l' \<le> n else l' = l)"
proof (cases "n = 0 \<or> pcfg = None \<or> timeout_ms (the pcfg) = 0")
  case False
  have "\<not> t > (of_nat n :: u32) \<Longrightarrow> unat t \<le> n" for t
    using assms(3) by (simp add: not_less word_le_nat_alt unat_of_nat)
  with classic_safe.recv_pdu_total [OF can_recv_whole [OF assms(1)] assms(2), where too_long = "\<lambda>x n. x > of_nat n"] False
  show ?thesis by (simp add: uds_tp_recv_def)
qed (auto simp: uds_tp_recv_def)

lemma recv_fd_safe:
  assumes "reads_whole (\<lambda>f. length (fd_data f) = 64) K" "n \<le> length buf"
  shows "\<exists>rc buf' l' k'. uds_tp_recv_fd K blank (Some s) tx (Some buf) n (Some l) pcfg k =
    Some (rc, Some buf', Some l', k') \<and> length buf' = length buf \<and> drop n buf' = drop n buf \<and>
    (if rc = UDS_TP_OK then l' \<le> n else l' = l)"
proof (cases "n = 0 \<or> pcfg = None \<or> timeout_ms (the pcfg) = 0")
  case False
  with fd_safe.recv_pdu_total [OF can_recv_whole [OF assms(1)] assms(2), where too_long = "\<lambda>x n. unat x > n"]
  show ?thesis by (simp add: uds_tp_recv_fd_def uds_can_recv_fd_def)
qed (auto simp: uds_tp_recv_fd_def)

lemma send_safe:
  assumes "reads_whole (\<lambda>f. length (can_data f) = 8) K"
  shows "\<exists>rc k'. uds_tp_send K slp blank (Some s) tx (Some d) (length d) pcfg k = Some (rc, k')"
proof (cases "d = [] \<or> pcfg = None \<or> timeout_ms (the pcfg) = 0")
  case False
  then have "0 < length d" by simp
  with False classic_safe.send_pdu_total [OF can_recv_whole [OF assms], of d] show ?thesis
    by (auto simp: uds_tp_send_def classic_codec_def tp_consts)
qed (auto simp: uds_tp_send_def)

lemma send_fd_safe:
  assumes "reads_whole (\<lambda>f. length (fd_data f) = 64) K"
  shows "\<exists>rc k'. uds_tp_send_fd K slp blank (Some s) tx (Some d) (length d) pcfg k = Some (rc, k')"
proof (cases "d = [] \<or> pcfg = None \<or> timeout_ms (the pcfg) = 0")
  case False
  then have "0 < length d" by simp
  with False fd_safe.send_pdu_total [OF can_recv_whole [OF assms], of d] show ?thesis
    by (auto simp: uds_tp_send_fd_def uds_can_recv_fd_def uds_can_send_fd_def fd_codec_def fd_consts
        UDS_TP_CANFD_MAX_PDU_LEN_def)
qed (auto simp: uds_tp_send_fd_def)

text \<open>A peer that sends the same frame for ever.\<close>

definition repeating_kernel :: "nat \<Rightarrow> 'f \<Rightarrow> ('f, 'f vcan) can_kernel" where
  "repeating_kernel sz g = (vcan_kernel sz)\<lparr>k_select := (\<lambda>s sec usec k. (1, k)), k_read := (\<lambda>s f k. (int sz, g, k))\<rparr>"

lemma repeating_whole: "whole g \<Longrightarrow> reads_whole whole (repeating_kernel sz g)"
  by (simp add: reads_whole_def repeating_kernel_def)

section \<open>Properties\<close>

text \<open>
  C10. Receiving is safe against any peer. Whatever frames arrive, in whatever order, and whatever
  the system calls return, \<open>uds_tp_recv\<close> returns without a faulty access, and so does
  \<open>uds_tp_recv_fd\<close>: the buffer keeps its size, the bytes behind \<open>buf_size\<close> are untouched, and the
  length that is reported on success is at most \<open>buf_size\<close>; on an error the length is not written.
\<close>

theorem tp_recv_safe:
  assumes "reads_whole (\<lambda>f. length (can_data f) = 8) K" "reads_whole (\<lambda>f. length (fd_data f) = 64) KF"
    and "n \<le> length buf" "n < 2 ^ 32"
  shows "(\<exists>rc buf' l' k'. uds_tp_recv K blank (Some s) tx (Some buf) n (Some l) pcfg k =
      Some (rc, Some buf', Some l', k') \<and> length buf' = length buf \<and> drop n buf' = drop n buf \<and>
      (if rc = UDS_TP_OK then l' \<le> n else l' = l)) \<and>
    (\<exists>rc buf' l' k'. uds_tp_recv_fd KF blankf (Some s) tx (Some buf) n (Some l) pcfg kf =
      Some (rc, Some buf', Some l', k') \<and> length buf' = length buf \<and> drop n buf' = drop n buf \<and>
      (if rc = UDS_TP_OK then l' \<le> n else l' = l))"
  using recv_safe [OF assms(1,3,4)] recv_fd_safe [OF assms(2,3)] by blast

theorem tp_recv_safe_witness:
  "\<exists>rc buf' l' k'. uds_tp_recv (repeating_kernel 16 \<lparr>can_id = 1, can_dlc = 8, can_data = [0x10, 0xFF, 1, 2, 3, 4, 5, 6]\<rparr>)
      \<lparr>can_id = 0, can_dlc = 0, can_data = []\<rparr> (Some \<lparr>fd = 3\<rparr>) 0x681 (Some (replicate 4095 0)) 4095 (Some 0)
      (Some \<lparr>timeout_ms = 100, block_size = 1, st_min = 0\<rparr>)
      \<lparr>vc_in = [], vc_out = [], vc_open = 1, vc_filters = [], vc_slept = 0\<rparr> = Some (rc, Some buf', Some l', k') \<and>
    length buf' = 4095"
proof -
  let ?c = "\<lparr>can_id = 1, can_dlc = 8, can_data = [0x10, 0xFF, 1, 2, 3, 4, 5, 6]\<rparr>"
  have c: "reads_whole (\<lambda>f. length (can_data f) = 8) (repeating_kernel 16 ?c)" by (rule repeating_whole) simp
  have f: "reads_whole (\<lambda>f. length (fd_data f) = 64) (repeating_kernel 72 \<lparr>fd_can_id = 1, fd_len = 64, fd_data = replicate 64 0\<rparr>)"
    by (rule repeating_whole) simp
  show ?thesis
    using tp_recv_safe [OF c f, where n = 4095 and buf = "replicate 4095 0" and s = "\<lparr>fd = 3\<rparr>" and l = 0, THEN conjunct1]
    by simp metis
qed

text \<open>
  C25. Sending returns against any peer. For any data of any length, and whatever comes back on
  the bus (no Flow Control at all, WAIT without end, overflow, foreign frames), \<open>uds_tp_send\<close> and
  \<open>uds_tp_send_fd\<close> return, without a faulty access to the data.
\<close>

theorem tp_send_safe:
  assumes "reads_whole (\<lambda>f. length (can_data f) = 8) K" "reads_whole (\<lambda>f. length (fd_data f) = 64) KF"
  shows "(\<exists>rc k'. uds_tp_send K slp blank (Some s) tx (Some d) (length d) pcfg k = Some (rc, k')) \<and>
    (\<exists>rc k'. uds_tp_send_fd KF slpf blankf (Some s) tx (Some d) (length d) pcfg kf = Some (rc, k'))"
  using send_safe [OF assms(1)] send_fd_safe [OF assms(2)] by blast

text \<open>Flow Control WAIT without end.\<close>

theorem tp_send_safe_witness:
  "\<exists>rc k'. uds_tp_send (repeating_kernel 16 \<lparr>can_id = 1, can_dlc = 3, can_data = [0x31, 0, 0, 0, 0, 0, 0, 0]\<rparr>) (\<lambda>_ k. k)
      \<lparr>can_id = 0, can_dlc = 0, can_data = []\<rparr> (Some \<lparr>fd = 3\<rparr>) 0x681 (Some (replicate 100 7)) 100
      (Some \<lparr>timeout_ms = 100, block_size = 0, st_min = 0\<rparr>)
      \<lparr>vc_in = [], vc_out = [], vc_open = 1, vc_filters = [], vc_slept = 0\<rparr> = Some (rc, k')"
proof -
  let ?c = "\<lparr>can_id = 1, can_dlc = 3, can_data = [0x31, 0, 0, 0, 0, 0, 0, 0]\<rparr>"
  have c: "reads_whole (\<lambda>f. length (can_data f) = 8) (repeating_kernel 16 ?c)" by (rule repeating_whole) simp
  have f: "reads_whole (\<lambda>f. length (fd_data f) = 64) (repeating_kernel 72 \<lparr>fd_can_id = 1, fd_len = 64, fd_data = replicate 64 0\<rparr>)"
    by (rule repeating_whole) simp
  show ?thesis
    using tp_send_safe [OF c f, where d = "replicate 100 7" and s = "\<lparr>fd = 3\<rparr>" and slp = "\<lambda>_ k. k", THEN conjunct1] by simp
qed

end
