(* ===== verification/IsoTpView.thy ===== *)
theory IsoTpView
  imports IsoTpSegments IsoTpSafe
begin

text \<open>
  A reference for the receiver: what a frame says, read off its bytes, and what a sequence of frames
  says together. The decoders of both layouts are shown to accept a frame only as what the reference
  makes of it; the laws are the locale \<open>viewed_codec\<close>.
\<close>

section \<open>Reference reassembly\<close>

text \<open>What a frame says, read off its bytes, for the two layouts. The flow status does not matter here.\<close>

datatype tp_view =
    Single "u8 list"
  | First nat "u8 list"
  | Consecutive u8 "u8 list"
  | Unusable

definition classic_view :: "can_frame \<Rightarrow> tp_view" where
  "classic_view f =
     (let pci = drop_bit 4 (can_data f ! 0) AND 0x0F; low = unat (can_data f ! 0 AND 0x0F);
          total = low * 256 + unat (can_data f ! 1); dlc = unat (can_dlc f) in
      if pci = 0 \<and> 0 < low \<and> low \<le> 7 \<and> low < dlc then Single (take low (drop 1 (can_data f)))
      else if pci = 1 \<and> 8 \<le> total \<and> 8 \<le> dlc then First total (take 6 (drop 2 (can_data f)))
      else if pci = 2 \<and> 2 \<le> dlc then Consecutive (can_data f ! 0 AND 0x0F) (drop 1 (can_data f))
      else Unusable)"

definition fd_view :: "canfd_frame \<Rightarrow> tp_view" where
  "fd_view f =
     (let d = fd_data f; pci = drop_bit 4 (d ! 0) AND 0x0F; low = unat (d ! 0 AND 0x0F);
          b1 = unat (d ! 1); total = low * 256 + b1; n = unat (fd_len f);
          ext = unat (be32 (d ! 2) (d ! 3) (d ! 4) (d ! 5)) in
      if n = 0 then Unusable
      else if pci = 0 then
        (if low = 0 then if 8 \<le> b1 \<and> b1 \<le> 62 \<and> b1 + 2 \<le> n then Single (take b1 (drop 2 d)) else Unusable
         else if low \<le> 7 \<and> low < n then Single (take low (drop 1 d)) else Unusable)
      else if pci = 1 then
        (if total = 0 then
           if 6 \<le> n \<and> 0 < ext then First ext (take (min 58 (n - 6)) (drop 6 d)) else Unusable
         else if 62 < total then First total (take (min 62 (n - 2)) (drop 2 d)) else Unusable)
      else if pci = 2 \<and> 2 \<le> n then Consecutive (d ! 0 AND 0x0F) (drop 1 d)
      else Unusable)"

text \<open>
  The Consecutive Frames from number \<open>i\<close> on must carry the next sequence numbers and supply the
  missing \<open>r\<close> bytes, \<open>c\<close> at a time.
\<close>

fun collect :: "nat \<Rightarrow> nat \<Rightarrow> nat \<Rightarrow> tp_view list \<Rightarrow> u8 list option" where
  "collect c i r [] = (if r = 0 then Some [] else None)"
| "collect c i r (v # vs) =
     (case v of
        Consecutive sn b \<Rightarrow>
          if 0 < r \<and> sn = cf_sn i
          then map_option ((@) (take (min c r) b)) (collect c (Suc i) (r - min c r) vs) else None
      | _ \<Rightarrow> None)"

definition reassemble :: "nat \<Rightarrow> tp_view list \<Rightarrow> u8 list option" where
  "reassemble c vs =
     (case vs of
        [] \<Rightarrow> None
      | v # vs \<Rightarrow>
          (case v of
             Single d \<Rightarrow> if vs = [] then Some d else None
           | First n p \<Rightarrow> map_option ((@) (take n p)) (collect c 0 (n - length p) vs)
           | _ \<Rightarrow> None))"

section \<open>The decoders read what the reference reads\<close>

locale viewed_codec = tp_codec cd for cd :: "'f tp_codec" +
  fixes view :: "'f \<Rightarrow> tp_view"
  assumes view_sf: "cd_dec_sf cd (Some f) (Some b) n (Some l) = Some (UDS_TP_OK, b', l') \<Longrightarrow>
      \<exists>d. view f = Single d \<and> b' = Some (splice 0 d b) \<and> l' = Some (length d) \<and> length d \<le> length b"
    and view_ff: "cd_dec_ff cd (Some f) (Some b) n (Some t) (Some e) = Some (UDS_TP_OK, b', t', e') \<Longrightarrow>
      \<exists>total p. view f = First (unat total) p \<and> b' = Some (splice 0 p b) \<and> t' = Some total \<and>
        e' = Some (length p) \<and> length p \<le> length b \<and> length p < 2 ^ 32"
    and view_cf: "cd_dec_cf cd (Some f) (Some s) (Some b) pos n m = Some (UDS_TP_OK, s', b') \<Longrightarrow>
      \<exists>sn d. view f = Consecutive sn d \<and> s' = Some sn \<and> b' = Some (splice pos (take m d) b) \<and> m \<le> length d \<and>
        pos + m \<le> length b"

context viewed_codec
begin

text \<open>What the encoders of the codec write, the reference reads.\<close>

lemma view_sf_frame:
  assumes "d \<noteq> []" "length d \<le> cd_sf_max cd"
  shows "view (sf_frame cid d) = Single d"
proof -
  have "splice 0 d' (replicate (length d) 0) = d'" if "length d' = length d" for d' :: "u8 list"
    using that by (simp add: splice_def)
  with view_sf [OF sf(3) [OF assms order_refl, of "replicate (length d) 0" cid 0]] show ?thesis by auto
qed

lemma view_ff_frame:
  assumes "cd_sf_max cd < length d" "length d \<le> cd_max cd"
  shows "view (ff_frame cid d) = First (length d) (take (cd_ff_embed cd (length d)) d)"
proof -
  let ?p = "take (cd_ff_embed cd (length d)) d" and ?b = "replicate (length d) (0 :: u8)"
  have "unat (of_nat (length d) :: u32) = length d" using assms(2) max_small by (simp add: unat_of_nat)
  moreover have "q = ?p" if "splice 0 q ?b = splice 0 ?p ?b" "length q = cd_ff_embed cd (length d)" for q
  proof -
    have "length q = length ?p" using that(2) embed [OF assms(1)] by simp
    then show ?thesis using arg_cong [OF that(1), where f = "take (length q)"] by (metis take_splice0)
  qed
  ultimately show ?thesis
    using view_ff [OF ff(3) [OF assms order_refl, of ?b cid 0 0]] by auto
qed

lemma view_cf_frame:
  assumes "0 < m" "m \<le> cd_cf_max cd" "m \<le> length d"
  shows "\<exists>b. view (cf_frame cid d m sn) = Consecutive (sn AND 0x0F) b \<and> take m b = take m d"
proof -
  have "splice 0 q (replicate m 0) = q" if "length q = m" for q :: "u8 list" using that by (simp add: splice_def)
  with view_cf [OF cf(3) [OF assms order_refl, of 0 "replicate m 0" cid sn 0]] assms(3) show ?thesis
    by (auto simp del: take_all)
qed

lemma collect_segments:
  assumes "cd_sf_max cd < length d"
  shows "i \<le> ncf d \<Longrightarrow> collect (cd_cf_max cd) i (length d - off d i) (map (view \<circ> cf_nth cid d) [i..<ncf d]) = Some (drop (off d i) d)"
proof (induction "ncf d - i" arbitrary: i)
  case 0
  then show ?case using off_ncf [OF assms] by simp
next
  case (Suc n)
  then have i: "i < ncf d" by simp
  note o = off_simps [OF assms, where i = i]
  have m: "min (cd_cf_max cd) (length d - off d i) = cfm d i" by (simp add: cfm_def)
  obtain b where b: "view (cf_nth cid d i) = Consecutive (cf_sn i) b" "take (cfm d i) b = take (cfm d i) (drop (off d i) d)"
    using view_cf_frame [OF o(3) [OF i] o(4), of "drop (off d i) d" cid "cf_sn i"] o(5) by (auto simp: cf_nth_def cf_sn_simps(3))
  have "length d - off d i - cfm d i = length d - off d (Suc i)" using o(2) by simp
  moreover have "collect (cd_cf_max cd) (Suc i) (length d - off d (Suc i)) (map (view \<circ> cf_nth cid d) [Suc i..<ncf d]) =
      Some (drop (off d (Suc i)) d)" using Suc i by simp
  moreover have "take (cfm d i) (drop (off d i) d) @ drop (off d (Suc i)) d = drop (off d i) d"
    using o(2) append_take_drop_id [of "cfm d i" "drop (off d i) d"] by (simp add: add.commute)
  moreover have "0 < length d - off d i" using off_less [OF assms, of i] i by simp
  ultimately show ?case using b i m by (simp add: upt_conv_Cons)
qed

lemma reassemble_segments:
  assumes "d \<noteq> []" "length d \<le> cd_max cd"
  shows "reassemble (cd_cf_max cd) (map view (segments cid d)) = Some d"
proof (cases "length d \<le> cd_sf_max cd")
  case True
  then show ?thesis by (simp add: segments_def reassemble_def view_sf_frame [OF assms(1)])
next
  case False
  then have long: "cd_sf_max cd < length d" by simp
  let ?e = "cd_ff_embed cd (length d)"
  have "length d - length (take ?e d) = length d - off d 0" using off_0 [OF long] embed [OF long] by simp
  moreover have "take (length d) (take ?e d) @ drop (off d 0) d = d" using off_0 [OF long] embed [OF long] by (simp add: min_def)
  ultimately show ?thesis
    using False collect_segments [OF long le0, of cid]
    by (simp add: segments_def reassemble_def view_ff_frame [OF long assms(2)])
qed

end

section \<open>Both layouts\<close>

lemma mem_get_iff: "mem_get p i = Some x \<longleftrightarrow> (\<exists>xs. p = Some xs \<and> i < length xs \<and> x = xs ! i)"
  by (auto simp: mem_get_def split: option.splits)

lemma mem_cpy_iff: "mem_cpy (Some b) off (Some xs) s n = Some b' \<longleftrightarrow>
    s + n \<le> length xs \<and> off + n \<le> length b \<and> b' = splice off (take n (drop s xs)) b"
  by (auto simp: mem_cpy_def mem_read_def mem_put_def)

lemma low_nibble: "unat (b AND 0x0F :: u8) < 16"
proof -
  have "b AND 0x0F = take_bit 4 b" by (rule and_low_mask)
  then show ?thesis by (simp add: unat_take_bit)
qed

lemma nibble_byte: "unat (push_bit 8 (ucast (b AND 0x0F :: u8)) OR ucast (c :: u8) :: u32) = unat (b AND 0x0F) * 256 + unat c"
proof -
  let ?h = "push_bit 8 (ucast (b AND 0x0F)) :: u32" and ?l = "ucast c :: u32"
  have l: "unat ?l = unat c" "unat (ucast (b AND 0x0F) :: u32) = unat (b AND 0x0F)"
    using unat_u8_less [of c] low_nibble [of b] by (simp_all add: unsigned_ucast_eq take_bit_nat_eq_self)
  have h: "unat ?h = unat (b AND 0x0F) * 256"
    using low_nibble [of b] l(2) by (simp add: push_bit_eq_mult unat_word_ariths(2))
  have "?h OR ?l = ?h + ?l"
    by (rule disjunctive_add [symmetric]) (auto simp: bit_simps dest: bit_imp_le_length)
  then have "unat (?h OR ?l) = (unat ?h + unat ?l) mod 2 ^ 32" by (simp add: unat_word_ariths(1))
  with h l low_nibble [of b] unat_u8_less [of c] show ?thesis by simp
qed


lemma frame_type_of_byte_cases:
  "frame_type_of_byte b = UDS_TP_FRAME_SF \<longleftrightarrow> drop_bit 4 b AND 0x0F = 0"
  "frame_type_of_byte b = UDS_TP_FRAME_FF \<longleftrightarrow> drop_bit 4 b AND 0x0F = 1"
  "frame_type_of_byte b = UDS_TP_FRAME_CF \<longleftrightarrow> drop_bit 4 b AND 0x0F = 2"
  by (auto simp: frame_type_of_byte_def Let_def word_gt_0)

lemma classic_view_sf:
  assumes "uds_tp_decode_sf (Some f) (Some b) n (Some l) = Some (UDS_TP_OK, b', l')"
  shows "\<exists>d. classic_view f = Single d \<and> b' = Some (splice 0 d b) \<and> l' = Some (length d) \<and> length d \<le> length b"
  using assms
  by (auto simp: uds_tp_decode_sf_def uds_tp_frame_type_def mem_get_iff mem_cpy_iff Let_def tp_consts classic_view_def
      bind_eq_Some_conv frame_type_of_byte_cases split: if_splits)

lemma classic_view_ff:
  assumes "uds_tp_decode_ff (Some f) (Some b) n (Some t) = Some (UDS_TP_OK, b', t')"
  shows "\<exists>total p. classic_view f = First (unat total) p \<and> b' = Some (splice 0 p b) \<and> t' = Some total \<and>
    length p = 6 \<and> 6 \<le> length b"
  using assms
  by (auto simp: uds_tp_decode_ff_def uds_tp_frame_type_def mem_get_iff mem_cpy_iff Let_def tp_consts classic_view_def
      bind_eq_Some_conv frame_type_of_byte_cases word_less_nat_alt not_less
      nibble_byte [of _ "can_data f ! 1", unfolded One_nat_def] split: if_splits)

lemma classic_view_cf:
  assumes "uds_tp_decode_cf (Some f) (Some s) (Some b) pos n m = Some (UDS_TP_OK, s', b')"
  shows "\<exists>sn d. classic_view f = Consecutive sn d \<and> s' = Some sn \<and> b' = Some (splice pos (take m d) b) \<and> m \<le> length d \<and>
    pos + m \<le> length b"
  using assms
  by (auto simp: uds_tp_decode_cf_def uds_tp_frame_type_def mem_get_iff mem_cpy_iff Let_def tp_consts classic_view_def
      bind_eq_Some_conv frame_type_of_byte_cases word_less_nat_alt not_less split: if_splits)

interpretation classic_viewed: viewed_codec "classic_codec blank" classic_view
proof unfold_locales
  fix f :: can_frame and b :: "u8 list" and n l pos m :: nat and t :: u32 and s :: u8 and b' l' t' s' e e'
  show "\<exists>d. classic_view f = Single d \<and> b' = Some (splice 0 d b) \<and> l' = Some (length d) \<and> length d \<le> length b"
    if "cd_dec_sf (classic_codec blank) (Some f) (Some b) n (Some l) = Some (UDS_TP_OK, b', l')"
    using that classic_view_sf by (simp add: classic_codec_def)
  show "\<exists>total p. classic_view f = First (unat total) p \<and> b' = Some (splice 0 p b) \<and> t' = Some total \<and>
        e' = Some (length p) \<and> length p \<le> length b \<and> length p < 2 ^ 32"
    if "cd_dec_ff (classic_codec blank) (Some f) (Some b) n (Some t) (Some e) = Some (UDS_TP_OK, b', t', e')"
    using that classic_view_ff [of f b n t b' t'] by (auto simp: classic_codec_def tp_consts bind_eq_Some_conv)
  show "\<exists>sn d. classic_view f = Consecutive sn d \<and> s' = Some sn \<and> b' = Some (splice pos (take m d) b) \<and> m \<le> length d \<and>
        pos + m \<le> length b"
    if "cd_dec_cf (classic_codec blank) (Some f) (Some s) (Some b) pos n m = Some (UDS_TP_OK, s', b')"
    using that classic_view_cf by (simp add: classic_codec_def)
qed

lemma fd_view_sf:
  assumes "uds_tp_decode_sf_fd (Some f) (Some b) n (Some l) = Some (UDS_TP_OK, b', l')"
  shows "\<exists>d. fd_view f = Single d \<and> b' = Some (splice 0 d b) \<and> l' = Some (length d) \<and> length d \<le> length b"
  using assms
  by (auto simp: uds_tp_decode_sf_fd_def uds_tp_frame_type_fd_def mem_get_iff mem_cpy_iff Let_def tp_consts fd_consts fd_view_def
      bind_eq_Some_conv frame_type_of_byte_cases unat_eq_zero word_less_nat_alt not_less split: if_splits)

lemma nibble_total_0:
  "unat (b AND 0x0F :: u8) * 256 + unat (c :: u8) = 0 \<longleftrightarrow> c = 0 \<and> b AND 0x0F = 0"
  by (auto simp: unat_eq_zero)

lemma fd_view_ff:
  assumes "uds_tp_decode_ff_fd (Some f) (Some b) n (Some t) (Some e) = Some (UDS_TP_OK, b', t', e')"
  shows "\<exists>total p. fd_view f = First (unat total) p \<and> b' = Some (splice 0 p b) \<and> t' = Some total \<and>
    e' = Some (length p) \<and> length p \<le> length b \<and> length p < 2 ^ 32"
proof -
  let ?d = "fd_data f" and ?n = "unat (fd_len f)"
  let ?total = "unat (?d ! 0 AND 0x0F) * 256 + unat (?d ! 1)"
  let ?word = "push_bit 8 (ucast (?d ! 0 AND 0x0F)) OR ucast (?d ! 1) :: u32"
  let ?ext = "be32 (?d ! 2) (?d ! 3) (?d ! 4) (?d ! 5)"
  have w: "unat ?word = ?total" by (rule nibble_byte)
  have e: "embedded x 6 58 = min 58 (x - 6)" "embedded x 2 62 = min 62 (x - 2)" for x by (auto simp: embedded_def Let_def)
  have hd: "take 4 (drop 2 ?d) ! 0 = ?d ! 2" "take 4 (drop 2 ?d) ! 1 = ?d ! 3" "take 4 (drop 2 ?d) ! 2 = ?d ! 4"
    "take 4 (drop 2 ?d) ! 3 = ?d ! 5" if "6 \<le> length ?d" using that by (simp_all add: nth_append)
  from assms have common: "fd_len f \<noteq> 0" "drop_bit 4 (?d ! 0) AND 0x0F = 1"
    by (auto simp: uds_tp_decode_ff_fd_def uds_tp_frame_type_fd_def mem_get_iff bind_eq_Some_conv frame_type_of_byte_cases
        split: if_splits)
  from assms consider
      (ext) "?d ! 1 = 0" "?d ! 0 AND 0x0F = 0" "6 \<le> ?n" "?ext \<noteq> 0" "6 + min 58 (?n - 6) \<le> length ?d"
        "min 58 (?n - 6) \<le> length b" "b' = Some (splice 0 (take (min 58 (?n - 6)) (drop 6 ?d)) b)" "t' = Some ?ext"
        "e' = Some (min 58 (?n - 6))"
    | (short) "\<not> (?d ! 1 = 0 \<and> ?d ! 0 AND 0x0F = 0)" "62 < unat ?word" "2 + min 62 (?n - 2) \<le> length ?d"
        "min 62 (?n - 2) \<le> length b" "b' = Some (splice 0 (take (min 62 (?n - 2)) (drop 2 ?d)) b)" "t' = Some ?word"
        "e' = Some (min 62 (?n - 2))"
    by (auto simp: uds_tp_decode_ff_fd_def uds_tp_frame_type_fd_def mem_get_iff mem_cpy_iff mem_read_def Let_def fd_consts
        bind_eq_Some_conv frame_type_of_byte_cases e hd word_less_nat_alt not_less not_le split: if_splits)
  then show ?thesis
  proof cases
    case ext
    then have "?total = 0" "0 < unat ?ext" by (simp_all add: unat_gt_0)
    with ext common show ?thesis by (auto simp: fd_view_def Let_def unat_eq_zero)
  next
    case short
    then have "?total \<noteq> 0" "62 < ?total" using w by auto
    with short common w show ?thesis by (auto simp: fd_view_def Let_def unat_eq_zero)
  qed
qed

lemma fd_view_cf:
  assumes "uds_tp_decode_cf_fd (Some f) (Some s) (Some b) pos n m = Some (UDS_TP_OK, s', b')"
  shows "\<exists>sn d. fd_view f = Consecutive sn d \<and> s' = Some sn \<and> b' = Some (splice pos (take m d) b) \<and> m \<le> length d \<and>
    pos + m \<le> length b"
  using assms
  by (auto simp: uds_tp_decode_cf_fd_def uds_tp_frame_type_fd_def mem_get_iff mem_cpy_iff Let_def fd_consts fd_view_def
      bind_eq_Some_conv frame_type_of_byte_cases word_less_nat_alt not_less unat_eq_zero split: if_splits)

interpretation fd_viewed: viewed_codec "fd_codec blank" fd_view
proof unfold_locales
  fix f :: canfd_frame and b :: "u8 list" and n l pos m e :: nat and t :: u32 and s :: u8 and b' l' t' s' e'
  show "\<exists>d. fd_view f = Single d \<and> b' = Some (splice 0 d b) \<and> l' = Some (length d) \<and> length d \<le> length b"
    if "cd_dec_sf (fd_codec blank) (Some f) (Some b) n (Some l) = Some (UDS_TP_OK, b', l')"
    using that fd_view_sf by (simp add: fd_codec_def)
  show "\<exists>total p. fd_view f = First (unat total) p \<and> b' = Some (splice 0 p b) \<and> t' = Some total \<and>
        e' = Some (length p) \<and> length p \<le> length b \<and> length p < 2 ^ 32"
    if "cd_dec_ff (fd_codec blank) (Some f) (Some b) n (Some t) (Some e) = Some (UDS_TP_OK, b', t', e')"
    using that fd_view_ff by (simp add: fd_codec_def)
  show "\<exists>sn d. fd_view f = Consecutive sn d \<and> s' = Some sn \<and> b' = Some (splice pos (take m d) b) \<and> m \<le> length d \<and>
        pos + m \<le> length b"
    if "cd_dec_cf (fd_codec blank) (Some f) (Some s) (Some b) pos n m = Some (UDS_TP_OK, s', b')"
    using that fd_view_cf by (simp add: fd_codec_def)
qed

end
