(* ===== verification/IsoTpWire.thy ===== *)
theory IsoTpWire
  imports IsoTpView "HOL-Library.Sublist"
begin

text \<open>
  What goes over the wire, against an arbitrary peer and an arbitrary kernel: the sender never puts
  anything on the bus but a prefix of the segmentation of its PDU, and the receiver reports exactly
  what the reference reassembler makes of the frames it has read. A kernel is observed through the
  histories of the frames it has delivered and of those it was given to send.
\<close>

section \<open>Counting Flow Controls\<close>

text \<open>
  The Flow Controls a receiver still sends while it takes \<open>r\<close> more Consecutive Frames, \<open>j\<close> of the
  current block being in.
\<close>

definition grants :: "u8 \<Rightarrow> nat \<Rightarrow> nat \<Rightarrow> nat" where
  "grants bs j r = (r + j - 1) div unat bs"

text \<open>The Flow Controls for a whole PDU: none for a Single Frame, else one per block.\<close>

definition grants_of :: "u8 \<Rightarrow> tp_view list \<Rightarrow> nat" where
  "grants_of bs vs = (case vs of First _ _ # cfs \<Rightarrow> 1 + (length cfs - 1) div unat bs | _ \<Rightarrow> 0)"

section \<open>Histories\<close>

text \<open>
  \<open>inp\<close> grows by the frame a receive call hands out, \<open>out\<close> by the frame a send call is given; a send
  call that is refused before it reaches the kernel leaves no trace.
\<close>

locale tp_observed = viewed_codec cd view for cd :: "'f tp_codec" and view +
  fixes snd_f :: "'f ptr \<Rightarrow> 'k \<Rightarrow> UdsCanError \<times> 'k"
    and rcv_f :: "'f ptr \<Rightarrow> 'k \<Rightarrow> UdsCanError \<times> 'f ptr \<times> 'k"
    and slp :: "timespec \<Rightarrow> 'k \<Rightarrow> 'k"
    and inp out :: "'k \<Rightarrow> 'f list"
  assumes snd_hist: "snd_f (Some f) k = (rc, k') \<Longrightarrow>
      inp k' = inp k \<and> (out k' = out k @ [f] \<or> rc \<noteq> UDS_CAN_OK \<and> out k' = out k)"
    and rcv_hist: "rcv_f (Some g) k = (rc, g', k') \<Longrightarrow>
      out k' = out k \<and> (\<exists>f. g' = Some f \<and> inp k' = (if rc = UDS_CAN_OK then inp k @ [f] else inp k))"
    and slp_hist: "inp (slp t k) = inp k" "out (slp t k) = out k"
begin

lemma rcvE:
  assumes "rcv_f (Some g) k = (rc, g', k')"
  obtains f where "g' = Some f" "out k' = out k" "rc = UDS_CAN_OK \<Longrightarrow> inp k' = inp k @ [f]"
    "rc \<noteq> UDS_CAN_OK \<Longrightarrow> inp k' = inp k"
  using rcv_hist [OF assms] by auto

lemma stmin_hist [simp]: "inp (apply_stmin slp st k) = inp k" "out (apply_stmin slp st k) = out k"
  by (simp_all add: apply_stmin_def slp_hist)

section \<open>The sender\<close>

lemma recv_fc_out:
  assumes "tp_recv_fc cd rcv_f (Some g, w) k = Some (rc, v, k')"
  shows "out k' = out k \<and> (\<exists>g'. fst v = Some g')"
  using assms
  by (auto simp: tp_recv_fc_def bind_eq_Some_conv split: prod.splits if_splits elim!: rcvE)

lemma wait_loop_out:
  "tp_wait_loop cd rcv_f n (Some g, w) k = Some (rc, v, k') \<Longrightarrow> out k' = out k \<and> (\<exists>g'. fst v = Some g')"
proof (induction "Suc UDS_TP_MAX_WAIT_FRAMES - n" arbitrary: n g w k rule: less_induct)
  case less
  show ?case
  proof (cases "fst w = Some UDS_TP_FC_WAIT \<and> \<not> Suc n > UDS_TP_MAX_WAIT_FRAMES")
    case False
    with less.prems show ?thesis by (subst (asm) tp_wait_loop.simps) (auto split: if_splits)
  next
    case True
    with less.prems obtain rc1 v1 k1 where r: "tp_recv_fc cd rcv_f (Some g, w) k = Some (rc1, v1, k1)"
      by (subst (asm) tp_wait_loop.simps) (auto split: option.splits)
    from recv_fc_out [OF r] obtain g1 w1 where v1: "v1 = (Some g1, w1)" "out k1 = out k" by (cases v1) auto
    from True have "Suc UDS_TP_MAX_WAIT_FRAMES - Suc n < Suc UDS_TP_MAX_WAIT_FRAMES - n" by linarith
    from less.hyps [OF this, of g1 w1 k1] less.prems True r v1 show ?thesis
      by (subst (asm) tp_wait_loop.simps) (auto split: if_splits)
  qed
qed

lemma send_block_out:
  assumes "cd_sf_max cd < length d"
  shows "i \<le> ncf d \<Longrightarrow>
    tp_send_block cd snd_f slp tx (Some d) (length d) bs st (off d i) (cf_sn i) cnt (Some g) k = Some (rc, pos, sn, g', k') \<Longrightarrow>
    inp k' = inp k \<and> (\<exists>j f. i \<le> j \<and> j \<le> ncf d \<and> out k' = out k @ map (cf_nth tx d) [i..<j] \<and> g' = Some f \<and>
      (rc = UDS_TP_OK \<longrightarrow> pos = off d j \<and> sn = cf_sn j \<and> (i < ncf d \<longrightarrow> i < j)))"
proof (induction "ncf d - i" arbitrary: i cnt g k)
  case 0
  then show ?case
    using off_ncf [OF assms] by (subst (asm) tp_send_block.simps) auto
next
  case (Suc n)
  then have i: "i < ncf d" "off d i < length d" using off_less [OF assms, of i] by auto
  note m = off_simps [OF assms, where i = i]
  have enc: "cd_enc_cf cd (Some g) tx (Some (drop (off d i) d)) (cfm d i) (cf_sn i) = Some (UDS_TP_OK, Some (cf_nth tx d i))"
    using cf(1) [of "cfm d i" "drop (off d i) d"] m i by (simp add: cf_nth_def)
  obtain src k1 where snd: "snd_f (Some (cf_nth tx d i)) (apply_stmin slp st k) = (src, k1)" by force
  from snd_hist [OF snd] have h: "inp k1 = inp k" "out k1 = out k @ [cf_nth tx d i] \<or> src \<noteq> UDS_CAN_OK \<and> out k1 = out k"
    by simp_all
  have one: "map (cf_nth tx d) [i..<Suc i] = [cf_nth tx d i]" by simp
  show ?case
  proof (cases "src = UDS_CAN_OK \<and> \<not> (bs > 0 \<and> cnt + 1 \<ge> bs)")
    case False
    with Suc.prems(2) i enc snd have r: "k' = k1 \<and> g' = Some (cf_nth tx d i) \<and>
        (rc = UDS_TP_OK \<longrightarrow> src = UDS_CAN_OK \<and> pos = off d (Suc i) \<and> sn = cf_sn (Suc i))"
      by (subst (asm) tp_send_block.simps)
         (auto simp: Let_def cfm_def [symmetric] cf_sn_simps(2) m(2) split: if_splits)
    from h(2) show ?thesis
    proof
      assume "out k1 = out k @ [cf_nth tx d i]"
      with r h(1) i one show ?thesis by (intro conjI exI [of _ "Suc i"]) auto
    next
      assume "src \<noteq> UDS_CAN_OK \<and> out k1 = out k"
      with r h(1) i show ?thesis by (intro conjI exI [of _ i]) auto
    qed
  next
    case True
    with Suc.prems(2) i enc snd have "tp_send_block cd snd_f slp tx (Some d) (length d) bs st (off d (Suc i)) (cf_sn (Suc i))
        (cnt + 1) (Some (cf_nth tx d i)) k1 = Some (rc, pos, sn, g', k')"
      by (subst (asm) tp_send_block.simps) (auto simp: Let_def cfm_def [symmetric] cf_sn_simps(2) m(2))
    moreover have "n = ncf d - Suc i" "Suc i \<le> ncf d" using Suc.hyps(2) i by simp_all
    ultimately obtain j f where j: "inp k' = inp k1" "Suc i \<le> j" "j \<le> ncf d"
      "out k' = out k1 @ map (cf_nth tx d) [Suc i..<j]" "g' = Some f"
      "rc = UDS_TP_OK \<longrightarrow> pos = off d j \<and> sn = cf_sn j" using Suc.hyps(1) by blast
    moreover have "map (cf_nth tx d) [i..<j] = cf_nth tx d i # map (cf_nth tx d) [Suc i..<j]"
      using j(2) by (simp add: upt_conv_Cons)
    ultimately show ?thesis using h True by (intro conjI exI [of _ j]) auto
  qed
qed

lemma send_loop_cases:
  assumes "offset < len" "tp_send_loop cd snd_f rcv_f slp tx data len offset sn fr k = Some (rc, k')"
  obtains (refused) "out k' = out k" "rc \<noteq> UDS_TP_OK"
  | (granted) bs st rc3 offset3 sn3 f3 k2 k3 where "out k2 = out k"
      "tp_send_block cd snd_f slp tx data len bs st offset sn 0 fr k2 = Some (rc3, offset3, sn3, f3, k3)"
      "(if rc3 \<noteq> UDS_TP_OK then Some (rc3, k3)
        else tp_send_loop cd snd_f rcv_f slp tx data len offset3 sn3 f3 k3) = Some (rc, k')"
proof -
  from assms obtain rc1 v1 k1 where fc: "tp_recv_fc cd rcv_f (fc_locals cd) k = Some (rc1, v1, k1)"
    by (subst (asm) tp_send_loop.simps) (auto simp: bind_eq_Some_conv)
  then obtain g1 w1 where 1: "out k1 = out k" "v1 = (Some g1, w1)"
    using recv_fc_out [OF fc [unfolded fc_locals_def]] by (cases v1) auto
  show thesis
  proof (cases "rc1 = UDS_TP_OK")
    case False
    with assms fc 1(1) refused show thesis by (subst (asm) tp_send_loop.simps) auto
  next
    case go: True
    with assms fc obtain rc2 v2 k2 where wl: "tp_wait_loop cd rcv_f 0 v1 k1 = Some (rc2, v2, k2)"
      by (subst (asm) tp_send_loop.simps) (auto simp: bind_eq_Some_conv)
    with 1 have 2: "out k2 = out k" using wait_loop_out [of 0 g1 w1 k1 rc2 v2 k2] by simp
    show thesis
    proof (cases "rc2 = UDS_TP_OK")
      case False
      with assms fc go wl 2 refused show thesis by (subst (asm) tp_send_loop.simps) auto
    next
      case True
      with assms fc go wl granted [OF 2] show thesis
        by (subst (asm) tp_send_loop.simps) (auto simp: bind_eq_Some_conv)
    qed
  qed
qed

lemma upt_join: "i \<le> j \<Longrightarrow> j \<le> m \<Longrightarrow> map h [i..<j] @ map h [j..<m] = map h [i..<m]"
  by (metis le_Suc_ex map_append upt_add_eq_append)

lemma send_loop_out:
  assumes "cd_sf_max cd < length d"
  shows "i \<le> ncf d \<Longrightarrow> tp_send_loop cd snd_f rcv_f slp tx (Some d) (length d) (off d i) (cf_sn i) (Some g) k = Some (rc, k') \<Longrightarrow>
    \<exists>j. i \<le> j \<and> j \<le> ncf d \<and> out k' = out k @ map (cf_nth tx d) [i..<j] \<and> (rc = UDS_TP_OK \<longrightarrow> j = ncf d)"
proof (induction "ncf d - i" arbitrary: i g k rule: less_induct)
  case less
  show ?case
  proof (cases "i < ncf d")
    case False
    with less.prems off_less [OF assms, of i] show ?thesis
      by (subst (asm) tp_send_loop.simps) (auto intro: exI [of _ i])
  next
    case True
    then have "off d i < length d" using off_less [OF assms, of i] by simp
    then show ?thesis using less.prems(2)
    proof (cases rule: send_loop_cases)
      case refused
      with less.prems(1) show ?thesis by (auto intro!: exI [of _ i])
    next
      case (granted bs st rc3 pos sn f3 k2 k3)
      from send_block_out [OF assms less.prems(1) granted(2)] obtain j f where j: "i \<le> j" "j \<le> ncf d"
        "out k3 = out k2 @ map (cf_nth tx d) [i..<j]" "f3 = Some f"
        "rc3 = UDS_TP_OK \<Longrightarrow> pos = off d j \<and> sn = cf_sn j \<and> i < j" using True by blast
      show ?thesis
      proof (cases "rc3 = UDS_TP_OK")
        case False
        with granted j show ?thesis by (auto intro!: exI [of _ j])
      next
        case go: True
        with granted(3) j have
          "tp_send_loop cd snd_f rcv_f slp tx (Some d) (length d) (off d j) (cf_sn j) (Some f) k3 = Some (rc, k')" by simp
        moreover have "ncf d - j < ncf d - i" using j(5) [OF go] True by (intro diff_less_mono2) simp_all
        ultimately obtain m where m: "j \<le> m" "m \<le> ncf d" "out k' = out k3 @ map (cf_nth tx d) [j..<m]"
          "rc = UDS_TP_OK \<longrightarrow> m = ncf d" using less.hyps j(2) by blast
        with j(1,3) granted(1) upt_join [OF j(1) m(1), of "cf_nth tx d"] show ?thesis by (intro exI [of _ m]) auto
      qed
    qed
  qed
qed

lemma send_pdu_out:
  assumes "d \<noteq> []" "length d \<le> cd_max cd" "tp_send_pdu cd snd_f rcv_f slp tx (Some d) (length d) k = Some (rc, k')"
  shows "\<exists>fs. out k' = out k @ fs \<and> prefix fs (segments tx d) \<and> (rc = UDS_TP_OK \<longrightarrow> fs = segments tx d)"
proof (cases "length d \<le> cd_sf_max cd")
  case True
  obtain src k1 where snd: "snd_f (Some (sf_frame tx d)) k = (src, k1)" by force
  with True assms(3) have "k' = k1" "rc = UDS_TP_OK \<Longrightarrow> src = UDS_CAN_OK"
    by (auto simp: tp_send_pdu_def sf(1) [OF assms(1) True] split: if_splits)
  with snd_hist [OF snd] True show ?thesis by (auto simp: segments_def)
next
  case False
  then have long: "cd_sf_max cd < length d" by simp
  obtain src k1 where snd: "snd_f (Some (ff_frame tx d)) k = (src, k1)" by force
  note h = snd_hist [OF snd]
  show ?thesis
  proof (cases "src = UDS_CAN_OK")
    case fail: False
    with False assms(3) snd have "k' = k1 \<and> rc \<noteq> UDS_TP_OK"
      by (auto simp: tp_send_pdu_def ff(1) [OF long assms(2)])
    with h False show ?thesis by (auto simp: segments_def)
  next
    case True
    with False assms(3) snd have
      "tp_send_loop cd snd_f rcv_f slp tx (Some d) (length d) (off d 0) (cf_sn 0) (Some (ff_frame tx d)) k1 = Some (rc, k')"
      by (auto simp: tp_send_pdu_def ff(1) [OF long assms(2)] off_0 [OF long] cf_sn_simps(1))
    from send_loop_out [OF long le0 this] obtain j where j: "j \<le> ncf d" "out k' = out k1 @ map (cf_nth tx d) [0..<j]"
      "rc = UDS_TP_OK \<longrightarrow> j = ncf d" by blast
    have "prefix (map (cf_nth tx d) [0..<j]) (map (cf_nth tx d) [0..<ncf d])"
      using j(1) upt_add_eq_append [of 0 j "ncf d - j"] by (intro map_mono_prefix) (simp add: prefix_def)
    with h True j False show ?thesis by (auto simp: segments_def)
  qed
qed

section \<open>The receiver\<close>

lemma send_cts_out:
  assumes "tp_send_cts cd snd_f tx cfg (Some g) k = Some (rc, fc, k')"
  shows "\<exists>h. fc = Some h" "inp k' = inp k"
    "rc = UDS_TP_OK \<Longrightarrow> out k' = out k @ [fc_frame tx UDS_TP_FC_CTS (block_size cfg) (st_min cfg)]"
    "\<exists>m. out k' = out k @ replicate m (fc_frame tx UDS_TP_FC_CTS (block_size cfg) (st_min cfg))"
proof -
  let ?F = "fc_frame tx UDS_TP_FC_CTS (block_size cfg) (st_min cfg)"
  obtain src k1 where snd: "snd_f (Some ?F) k = (src, k1)" by force
  with assms have r: "k' = k1" "fc = Some ?F" "rc = UDS_TP_OK \<Longrightarrow> src = UDS_CAN_OK"
    using fc(1) [of g tx UDS_TP_FC_CTS "block_size cfg" "st_min cfg"] by (auto simp: tp_send_cts_def split: if_splits)
  note h = snd_hist [OF snd]
  from r h show "\<exists>h. fc = Some h" "inp k' = inp k" "rc = UDS_TP_OK \<Longrightarrow> out k' = out k @ [?F]" by auto
  have "out k @ replicate 1 ?F = out k @ [?F]" "out k @ replicate 0 ?F = out k" by simp_all
  with r(1) h show "\<exists>m. out k' = out k @ replicate m ?F" by metis
qed

text \<open>The head of the loop: a Flow Control when a block is complete.\<close>

lemma grant_out:
  assumes "(if block_size cfg > 0 \<and> of_nat j \<ge> block_size cfg then do {
        (rc, fc, k) \<leftarrow> tp_send_cts cd snd_f tx cfg (Some g) k;
        Some (rc, fc, 0 :: u8, k) }
      else Some (UDS_TP_OK, Some g, of_nat j, k)) = Some (rc, fc, cnt, k')"
    and "block_size cfg = 0 \<or> j \<le> unat (block_size cfg)"
  shows "\<exists>h j' m. fc = Some h \<and> cnt = of_nat j' \<and> inp k' = inp k \<and>
    out k' = out k @ replicate m (fc_frame tx UDS_TP_FC_CTS (block_size cfg) (st_min cfg)) \<and>
    (rc = UDS_TP_OK \<longrightarrow> (block_size cfg = 0 \<or> Suc j' \<le> unat (block_size cfg)) \<and>
      (\<forall>r. grants (block_size cfg) j (Suc r) = m + grants (block_size cfg) (Suc j') r))"
proof (cases "block_size cfg > 0 \<and> of_nat j \<ge> block_size cfg")
  case True
  then have bs: "0 < unat (block_size cfg)" by (simp add: word_gt_0 unat_gt_0)
  have "j mod 256 \<le> j" by simp
  with True assms(2) have j: "j = unat (block_size cfg)"
    by (auto simp: word_le_nat_alt unat_of_nat word_gt_0)
  from True assms(1) have c: "tp_send_cts cd snd_f tx cfg (Some g) k = Some (rc, fc, k')" "cnt = of_nat 0"
    by (auto simp: bind_eq_Some_conv)
  have g: "grants (block_size cfg) j (Suc r) = 1 + grants (block_size cfg) (Suc 0) r" for r
    using bs by (simp add: grants_def j div_add_self2)
  show ?thesis
  proof (cases "rc = UDS_TP_OK")
    case True
    with send_cts_out(1-3) [OF c(1)] c(2) bs g show ?thesis
      by (intro exI [of _ "the fc"] exI [of _ 0] exI [of _ 1]) auto
  next
    case False
    with send_cts_out(1,2,4) [OF c(1)] c(2) show ?thesis by blast
  qed
next
  case False
  with assms(1) have r: "fc = Some g" "cnt = of_nat j" "k' = k" "rc = UDS_TP_OK" by auto
  have "block_size cfg = 0 \<or> j < unat (block_size cfg)"
  proof (cases "block_size cfg = 0")
    case pos: False
    then have "j < 256" using assms(2) unat_u8_less [of "block_size cfg"] by simp
    with False pos show ?thesis by (auto simp: word_le_nat_alt word_gt_0 unat_of_nat not_le)
  qed simp
  with r show ?thesis
    by (intro exI [of _ g] exI [of _ j] exI [of _ 0]) (auto simp: grants_def)
qed

text \<open>The body of the loop: the frame it reads is the Consecutive Frame that is due.\<close>

lemma recv_loop_cases:
  assumes "received < tot"
    "tp_recv_loop cd snd_f rcv_f tx cfg n tot (Some buf) (Some h) (Some g) received sn (of_nat j) k = Some (rc, buf', k')"
    "block_size cfg = 0 \<or> j \<le> unat (block_size cfg)"
  obtains (failed) m where "rc \<noteq> UDS_TP_OK"
      "out k' = out k @ replicate m (fc_frame tx UDS_TP_FC_CTS (block_size cfg) (st_min cfg))"
  | (taken) f d h1 j1 m k2 where "inp k2 = inp k @ [f]" "view f = Consecutive sn d"
      "out k2 = out k @ replicate m (fc_frame tx UDS_TP_FC_CTS (block_size cfg) (st_min cfg))"
      "block_size cfg = 0 \<or> Suc j1 \<le> unat (block_size cfg)"
      "\<And>r. grants (block_size cfg) j (Suc r) = m + grants (block_size cfg) (Suc j1) r"
      "min (cd_cf_max cd) (unat tot - unat received) \<le> length d"
      "unat received + min (cd_cf_max cd) (unat tot - unat received) \<le> length buf"
      "tp_recv_loop cd snd_f rcv_f tx cfg n tot
         (Some (splice (unat received) (take (min (cd_cf_max cd) (unat tot - unat received)) d) buf)) (Some h1) (Some f)
         (received + of_nat (min (cd_cf_max cd) (unat tot - unat received))) ((sn + 1) AND 0x0F) (of_nat (Suc j1)) k2 =
       Some (rc, buf', k')"
proof -
  let ?F = "fc_frame tx UDS_TP_FC_CTS (block_size cfg) (st_min cfg)"
  define chunk where "chunk = (if unat (tot - received) > cd_cf_max cd then cd_cf_max cd else unat (tot - received))"
  have chunk: "chunk = min (cd_cf_max cd) (unat tot - unat received)"
    using assms(1) by (auto simp: chunk_def unat_sub_if' word_less_nat_alt)
  define refill where "refill = (if block_size cfg > 0 \<and> of_nat j \<ge> block_size cfg then do {
        (rc, fc, k) \<leftarrow> tp_send_cts cd snd_f tx cfg (Some h) k;
        Some (rc, fc, 0 :: u8, k) }
      else Some (UDS_TP_OK, Some h, of_nat j, k))"
  have loop: "tp_recv_loop cd snd_f rcv_f tx cfg n tot (Some buf) (Some h) (Some g) received sn (of_nat j) k =
    refill \<bind> (\<lambda>(rc, fc, bs_count, k).
      if rc \<noteq> UDS_TP_OK then Some (rc, Some buf, k)
      else let (recv_rc, frame, k) = rcv_f (Some g) k in
        if recv_rc = UDS_CAN_ERR_TIMEOUT then Some (UDS_TP_ERR_TIMEOUT, Some buf, k)
        else if recv_rc \<noteq> UDS_CAN_OK then Some (UDS_TP_ERR_RECV, Some buf, k)
        else do {
          ft \<leftarrow> cd_type cd frame;
          if ft \<noteq> UDS_TP_FRAME_CF then Some (UDS_TP_ERR_FRAME_TYPE, Some buf, k)
          else do {
            (rc, sn', buf) \<leftarrow> cd_dec_cf cd frame (Some 0) (Some buf) (unat received) (n - unat received) chunk;
            if rc \<noteq> UDS_TP_OK then Some (rc, buf, k)
            else do {
              sn' \<leftarrow> sn';
              if sn' \<noteq> sn then Some (UDS_TP_ERR_SEQUENCE, buf, k)
              else tp_recv_loop cd snd_f rcv_f tx cfg n tot buf fc frame (received + of_nat chunk) ((sn + 1) AND 0x0F)
                     (bs_count + 1) k } } })"
    unfolding refill_def chunk_def by (subst tp_recv_loop.simps) (simp only: assms(1) if_True Let_def)
  from assms(2) obtain rc1 fc1 cnt1 k1 where r: "refill = Some (rc1, fc1, cnt1, k1)"
    unfolding loop by (auto simp: bind_eq_Some_conv)
  from grant_out [OF r [unfolded refill_def] assms(3)] obtain h1 j1 m where h: "fc1 = Some h1" "cnt1 = of_nat j1"
    "inp k1 = inp k" "out k1 = out k @ replicate m ?F"
    "rc1 = UDS_TP_OK \<longrightarrow> (block_size cfg = 0 \<or> Suc j1 \<le> unat (block_size cfg)) \<and>
      (\<forall>r. grants (block_size cfg) j (Suc r) = m + grants (block_size cfg) (Suc j1) r)" by blast
  obtain rc2 g2 k2 where rcv: "rcv_f (Some g) k1 = (rc2, g2, k2)" by (metis prod.exhaust)
  from rcvE [OF rcv] obtain f where f: "g2 = Some f" "out k2 = out k1" "rc2 = UDS_CAN_OK \<longrightarrow> inp k2 = inp k1 @ [f]" by blast
  show thesis
  proof (cases "rc = UDS_TP_OK \<or> (rc1 = UDS_TP_OK \<and> rc2 = UDS_CAN_OK \<and> cd_type cd g2 = Some UDS_TP_FRAME_CF \<and>
      (\<exists>b'. cd_dec_cf cd g2 (Some 0) (Some buf) (unat received) (n - unat received) chunk = Some (UDS_TP_OK, Some sn, b')))")
    case False
    with assms(2) r h(4) f(2) rcv show thesis unfolding loop
      by (auto simp: bind_eq_Some_conv Let_def intro!: failed [of m] split: if_splits)
  next
    case True
    with assms(2) r rcv obtain b' where ok: "rc1 = UDS_TP_OK" "rc2 = UDS_CAN_OK"
      "cd_type cd (Some f) = Some UDS_TP_FRAME_CF"
      "cd_dec_cf cd (Some f) (Some 0) (Some buf) (unat received) (n - unat received) chunk = Some (UDS_TP_OK, Some sn, b')"
      unfolding loop f(1) by (auto simp: bind_eq_Some_conv Let_def split: if_splits)
    from view_cf [OF ok(4)] obtain d where d: "view f = Consecutive sn d" "b' = Some (splice (unat received) (take chunk d) buf)"
      "chunk \<le> length d" "unat received + chunk \<le> length buf" by auto
    from assms(2) r rcv ok h(1,2) d(2) have "tp_recv_loop cd snd_f rcv_f tx cfg n tot (Some (splice (unat received) (take chunk d) buf))
        (Some h1) (Some f) (received + of_nat chunk) ((sn + 1) AND 0x0F) (of_nat (Suc j1)) k2 = Some (rc, buf', k')"
      unfolding loop f(1) by (simp add: add.commute)
    then show thesis
      using taken [of k2 f d m j1 h1] ok(1,2) h(3-5) f(2,3) d unfolding chunk by simp
  qed
qed

text \<open>
  The loop has taken the missing \<open>r\<close> bytes, from the Consecutive Frame \<open>i\<close> on, into the buffer at \<open>pos\<close>,
  and has granted the blocks as it went.
\<close>

definition absorbed :: "UdsTpConfig \<Rightarrow> u32 \<Rightarrow> nat \<Rightarrow> nat \<Rightarrow> nat \<Rightarrow> nat \<Rightarrow> u8 list \<Rightarrow> 'k \<Rightarrow> u8 list ptr \<Rightarrow> 'k \<Rightarrow> bool" where
  "absorbed cfg tx i j pos r buf k buf' k' \<longleftrightarrow> (\<exists>fs d. inp k' = inp k @ fs \<and>
     collect (cd_cf_max cd) i r (map view fs) = Some d \<and> length d = r \<and> buf' = Some (splice pos d buf) \<and>
     (d \<noteq> [] \<longrightarrow> pos + r \<le> length buf) \<and>
     out k' = out k @ replicate (grants (block_size cfg) j (length fs)) (fc_frame tx UDS_TP_FC_CTS (block_size cfg) (st_min cfg)))"

lemma absorbed_nothing:
  assumes "block_size cfg = 0 \<or> j \<le> unat (block_size cfg)"
  shows "absorbed cfg tx i j pos 0 buf k (Some buf) k"
proof -
  have "grants (block_size cfg) j 0 = 0"
  proof (cases "block_size cfg = 0")
    case False
    then have "j - 1 < unat (block_size cfg)" using assms unat_gt_0 [of "block_size cfg"] by linarith
    then show ?thesis by (simp add: grants_def)
  qed (simp add: grants_def)
  then show ?thesis unfolding absorbed_def by (intro exI [of _ "[]"]) simp
qed

lemma absorbed_one_more:
  assumes "inp k2 = inp k @ [f]" "view f = Consecutive (cf_sn i) b" "0 < r" "c = min (cd_cf_max cd) r" "c \<le> length b"
    and "pos + c \<le> length buf"
    and "out k2 = out k @ replicate m (fc_frame tx UDS_TP_FC_CTS (block_size cfg) (st_min cfg))"
    and "\<And>n. grants (block_size cfg) j (Suc n) = m + grants (block_size cfg) (Suc j1) n"
    and "absorbed cfg tx (Suc i) (Suc j1) (pos + c) (r - c) (splice pos (take c b) buf) k2 buf' k'"
  shows "absorbed cfg tx i j pos r buf k buf' k'"
proof -
  let ?F = "fc_frame tx UDS_TP_FC_CTS (block_size cfg) (st_min cfg)" and ?b = "take c b"
  from assms(9) obtain fs d where fs: "inp k' = inp k2 @ fs" "collect (cd_cf_max cd) (Suc i) (r - c) (map view fs) = Some d"
    "length d = r - c" "buf' = Some (splice (pos + c) d (splice pos ?b buf))"
    "d \<noteq> [] \<longrightarrow> pos + c + (r - c) \<le> length (splice pos ?b buf)"
    "out k' = out k2 @ replicate (grants (block_size cfg) (Suc j1) (length fs)) ?F"
    unfolding absorbed_def by blast
  have len: "length ?b = c" "length (splice pos ?b buf) = length buf" using assms(5,6) by simp_all
  then have room: "pos + c + length d \<le> length buf" using fs(3,5) assms(6) by (cases d) simp_all
  show ?thesis
    unfolding absorbed_def
  proof (intro exI conjI impI)
    show "inp k' = inp k @ f # fs" using fs(1) assms(1) by simp
    show "collect (cd_cf_max cd) i r (map view (f # fs)) = Some (?b @ d)" using fs(2) assms(2-4) by simp
    show "length (?b @ d) = r" using len fs(3) assms(4) by simp
    show "buf' = Some (splice pos (?b @ d) buf)"
      using splice_splice_adjacent [of pos ?b d buf] room fs(4) len by simp
    show "pos + r \<le> length buf" using room fs(3) assms(4) by simp
    show "out k' = out k @ replicate (grants (block_size cfg) j (length (f # fs))) ?F"
      using fs(6) assms(7) assms(8) [of "length fs"] by (simp add: replicate_add)
  qed
qed

lemma recv_loop_out:
  assumes "tp_recv_loop cd snd_f rcv_f tx cfg n tot (Some buf) (Some h) (Some g) received (cf_sn i) (of_nat j) k = Some (rc, buf', k')"
    and "block_size cfg = 0 \<or> j \<le> unat (block_size cfg)"
  shows "(\<exists>m. out k' = out k @ replicate m (fc_frame tx UDS_TP_FC_CTS (block_size cfg) (st_min cfg))) \<and>
    (rc = UDS_TP_OK \<longrightarrow> absorbed cfg tx i j (unat received) (unat tot - unat received) buf k buf' k')"
  using assms
proof (induction "unat tot - unat received" arbitrary: received i j k buf h g rule: less_induct)
  case less
  show ?case
  proof (cases "received < tot")
    case False
    then have "unat tot - unat received = 0" by (simp add: not_less word_le_nat_alt)
    moreover from less.prems(1) False have "rc = UDS_TP_OK \<and> buf' = Some buf \<and> k' = k"
      by (subst (asm) tp_recv_loop.simps) simp
    ultimately show ?thesis
      using absorbed_nothing [OF less.prems(2)] by (auto intro!: exI [of _ 0])
  next
    case True
    then have lt: "unat received < unat tot" by (simp add: word_less_nat_alt)
    let ?r = "unat tot - unat received"
    let ?c = "min (cd_cf_max cd) ?r"
    have "unat tot < 2 ^ LENGTH(32)" by (rule unsigned_less)
    with lt have adv: "unat (received + of_nat ?c) = unat received + ?c"
      by (simp add: unat_word_ariths(1) unat_of_nat)
    have pos: "0 < ?c" using lt cf_pos by simp
    from True less.prems show ?thesis
    proof (cases rule: recv_loop_cases)
      case (failed m)
      then show ?thesis by blast
    next
      case (taken f b h1 j1 m k2)
      have "unat tot - unat (received + of_nat ?c) < ?r" using lt pos unfolding adv by linarith
      from less.hyps [OF this taken(8) [unfolded cf_sn_simps(2)] taken(4)]
      obtain m2 where IH: "out k' = out k2 @ replicate m2 (fc_frame tx UDS_TP_FC_CTS (block_size cfg) (st_min cfg))"
        "rc = UDS_TP_OK \<longrightarrow> absorbed cfg tx (Suc i) (Suc j1) (unat received + ?c) (?r - ?c)
          (splice (unat received) (take ?c b) buf) k2 buf' k'"
        unfolding adv diff_diff_left by blast
      have "out k' = out k @ replicate (m + m2) (fc_frame tx UDS_TP_FC_CTS (block_size cfg) (st_min cfg))"
        using IH(1) taken(3) by (simp add: replicate_add)
      moreover have "0 < ?r" using lt by simp
      ultimately show ?thesis
        using IH(2) absorbed_one_more [OF taken(1,2) _ refl taken(6,7,3,5)] by blast
    qed
  qed
qed

text \<open>What a successful reception has done.\<close>

definition received_pdu :: "UdsTpConfig \<Rightarrow> u32 \<Rightarrow> 'k \<Rightarrow> u8 list ptr \<Rightarrow> nat ptr \<Rightarrow> 'k \<Rightarrow> bool" where
  "received_pdu cfg tx k buf' l' k' \<longleftrightarrow> (\<exists>fs d b. inp k' = inp k @ fs \<and> reassemble (cd_cf_max cd) (map view fs) = Some d \<and>
     buf' = Some b \<and> l' = Some (length d) \<and> take (length d) b = d \<and>
     out k' = out k @ replicate (grants_of (block_size cfg) (map view fs)) (fc_frame tx UDS_TP_FC_CTS (block_size cfg) (st_min cfg)))"

lemma received_segmented:
  assumes "view f = First (unat tot) p" "inp k2 = inp k @ [f]" "length p \<le> length buf"
    and "out k2 = out k @ [fc_frame tx UDS_TP_FC_CTS (block_size cfg) (st_min cfg)]"
    and "absorbed cfg tx 0 0 (length p) (unat tot - length p) (splice 0 p buf) k2 buf' k'"
  shows "received_pdu cfg tx k buf' (Some (unat tot)) k'"
proof -
  let ?F = "fc_frame tx UDS_TP_FC_CTS (block_size cfg) (st_min cfg)"
  from assms(5) obtain fs d where fs: "inp k' = inp k2 @ fs"
    "collect (cd_cf_max cd) 0 (unat tot - length p) (map view fs) = Some d" "length d = unat tot - length p"
    "buf' = Some (splice (length p) d (splice 0 p buf))" "d \<noteq> [] \<longrightarrow> length p + (unat tot - length p) \<le> length buf"
    "out k' = out k2 @ replicate (grants (block_size cfg) 0 (length fs)) ?F"
    using assms(3) unfolding absorbed_def by auto
  let ?d = "take (unat tot) p @ d"
  have "take (length ?d) (splice (length p) d (splice 0 p buf)) = ?d"
  proof (cases "unat tot \<le> length p")
    case True
    then have "take (unat tot) (splice 0 p buf) = take (unat tot) p" by (simp add: splice_def)
    with True fs(3) show ?thesis by simp
  next
    case False
    then have "length ?d = length p + length d" "?d = p @ d" using fs(3) by simp_all
    then show ?thesis using take_splice_end [of "length p" "splice 0 p buf" d] assms(3) by simp
  qed
  moreover have "length ?d = unat tot" using fs(3) by simp
  moreover have "out k' = out k @ replicate (grants_of (block_size cfg) (map view (f # fs))) ?F"
    using fs(6) assms(1,4) by (simp add: grants_of_def grants_def)
  moreover have "reassemble (cd_cf_max cd) (map view (f # fs)) = Some ?d" using assms(1) fs(2) by (simp add: reassemble_def)
  moreover have "inp k' = inp k @ (f # fs)" using fs(1) assms(2) by simp
  ultimately show ?thesis unfolding received_pdu_def using fs(4) by metis
qed

lemma recv_pdu_out:
  assumes "tp_recv_pdu cd too_long snd_f rcv_f tx (Some buf) n (Some l) cfg k = Some (rc, buf', l', k')"
  shows "(\<exists>m. out k' = out k @ replicate m (fc_frame tx UDS_TP_FC_CTS (block_size cfg) (st_min cfg))) \<and>
    (rc = UDS_TP_OK \<longrightarrow> received_pdu cfg tx k buf' l' k')"
proof -
  let ?F = "fc_frame tx UDS_TP_FC_CTS (block_size cfg) (st_min cfg)"
  obtain rc1 g1 k1 where rcv: "rcv_f (Some (cd_blank cd)) k = (rc1, g1, k1)" by (metis prod.exhaust)
  from rcvE [OF rcv] obtain f where f: "g1 = Some f" "out k1 = out k" "rc1 = UDS_CAN_OK \<longrightarrow> inp k1 = inp k @ [f]" by blast
  have still: "\<exists>m. out k1 = out k @ replicate m ?F" using f(2) by (intro exI [of _ 0]) simp
  consider (early) "k' = k1" "rc \<noteq> UDS_TP_OK"
    | (single) "rc1 = UDS_CAN_OK" "k' = k1" "cd_dec_sf cd (Some f) (Some buf) n (Some l) = Some (rc, buf', l')"
    | (first) b t e fc rc2 k2 where "rc1 = UDS_CAN_OK"
      "cd_dec_ff cd (Some f) (Some buf) n (Some 0) (Some 0) = Some (UDS_TP_OK, b, Some t, Some e)"
      "tp_send_cts cd snd_f tx cfg (Some (cd_blank cd)) k1 = Some (rc2, fc, k2)"
      "rc2 \<noteq> UDS_TP_OK \<and> rc = rc2 \<and> k' = k2 \<or> rc2 = UDS_TP_OK \<and>
        (\<exists>rc3. tp_recv_loop cd snd_f rcv_f tx cfg n t b fc (Some f) (of_nat e) 1 0 k2 = Some (rc3, buf', k') \<and>
          (rc = UDS_TP_OK \<longrightarrow> rc3 = UDS_TP_OK \<and> l' = Some (unat t)))"
    using assms rcv f(1)
    by (auto simp: tp_recv_pdu_def bind_eq_Some_conv Let_def split: if_splits)
  then show ?thesis
  proof cases
    case early
    with still show ?thesis by simp
  next
    case single
    show ?thesis
    proof (intro conjI impI)
      assume "rc = UDS_TP_OK"
      with view_sf [of f buf n l buf' l'] single obtain d where d: "view f = Single d" "buf' = Some (splice 0 d buf)"
        "l' = Some (length d)" "length d \<le> length buf" by auto
      with f single(1,2) show "received_pdu cfg tx k buf' l' k'"
        unfolding received_pdu_def
        by (intro exI [of _ "[f]"] exI [of _ d] exI [of _ "splice 0 d buf"]) (simp add: reassemble_def grants_of_def)
    qed (use still single in simp)
  next
    case first
    from view_ff [OF first(2)] obtain p where p: "view f = First (unat t) p" "b = Some (splice 0 p buf)" "e = length p"
      "length p \<le> length buf" "length p < 2 ^ 32" by auto
    note c = send_cts_out [OF first(3)]
    from c(4) f(2) have sent: "\<exists>m. out k2 = out k @ replicate m ?F" by simp
    from first(4) show ?thesis
    proof
      assume "rc2 \<noteq> UDS_TP_OK \<and> rc = rc2 \<and> k' = k2"
      with sent show ?thesis by simp
    next
      assume ok: "rc2 = UDS_TP_OK \<and> (\<exists>rc3. tp_recv_loop cd snd_f rcv_f tx cfg n t b fc (Some f) (of_nat e) 1 0 k2 = Some (rc3, buf', k') \<and>
          (rc = UDS_TP_OK \<longrightarrow> rc3 = UDS_TP_OK \<and> l' = Some (unat t)))"
      from c(1) obtain h where h: "fc = Some h" by blast
      have u: "unat (of_nat (length p) :: u32) = length p" using p(5) by (simp add: unat_of_nat)
      from ok p(2,3) h obtain rc3 where
        lp: "tp_recv_loop cd snd_f rcv_f tx cfg n t (Some (splice 0 p buf)) (Some h) (Some f) (of_nat (length p)) (cf_sn 0)
            (of_nat 0) k2 = Some (rc3, buf', k')" "rc = UDS_TP_OK \<longrightarrow> rc3 = UDS_TP_OK \<and> l' = Some (unat t)"
        by (auto simp: cf_sn_simps(1))
      from recv_loop_out [OF lp(1), unfolded u] obtain m where r: "out k' = out k2 @ replicate m ?F"
        "rc3 = UDS_TP_OK \<longrightarrow> absorbed cfg tx 0 0 (length p) (unat t - length p) (splice 0 p buf) k2 buf' k'" by auto
      have k2: "inp k2 = inp k @ [f]" "out k2 = out k @ [?F]" using c(2,3) f(2,3) first(1) ok by simp_all
      then have "out k' = out k @ replicate (Suc m) ?F" using r(1) by simp
      with r(2) lp(2) received_segmented [OF p(1) k2(1) p(4) k2(2)] show ?thesis by blast
    qed
  qed
qed

lemma recv_pdu_wire:
  assumes "tp_recv_pdu cd too_long snd_f rcv_f tx (Some buf) n (Some l) cfg k = Some (rc, Some buf', Some l', k')"
  shows "\<exists>m. out k' = out k @ replicate m (fc_frame tx UDS_TP_FC_CTS (block_size cfg) (st_min cfg)) \<and>
    (rc = UDS_TP_OK \<longrightarrow> (\<exists>fs. inp k' = inp k @ fs \<and> reassemble (cd_cf_max cd) (map view fs) = Some (take l' buf') \<and>
      m = grants_of (block_size cfg) (map view fs)))"
  using recv_pdu_out [OF assms] by (cases "rc = UDS_TP_OK") (auto simp: received_pdu_def)

end

section \<open>Observed kernels\<close>

text \<open>
  \<open>logged K\<close> is the kernel \<open>K\<close> together with the two histories: the whole frames its reads have handed
  out, and the frames it was told to write.
\<close>

type_synonym ('f, 'k) log_state = "'k \<times> 'f list \<times> 'f list"

definition log_sleep :: "(timespec \<Rightarrow> 'k \<Rightarrow> 'k) \<Rightarrow> timespec \<Rightarrow> ('f, 'k) log_state \<Rightarrow> ('f, 'k) log_state" where
  "log_sleep slp t = apfst (slp t)"

definition logged :: "('f, 'k) can_kernel \<Rightarrow> ('f, ('f, 'k) log_state) can_kernel" where
  "logged K = \<lparr>
     k_socket = (\<lambda>(k, h). let (s, k) = k_socket K k in (s, k, h)),
     k_if_nametoindex = (\<lambda>name (k, h). let (i, k) = k_if_nametoindex K name k in (i, k, h)),
     k_bind = (\<lambda>s i (k, h). let (r, k) = k_bind K s i k in (r, k, h)),
     k_close = (\<lambda>s (k, h). (k_close K s k, h)),
     k_set_filter = (\<lambda>s fs (k, h). let (r, k) = k_set_filter K s fs k in (r, k, h)),
     k_set_fd_frames = (\<lambda>s (k, h). let (r, k) = k_set_fd_frames K s k in (r, k, h)),
     k_write = (\<lambda>s f (k, i, w). let (n, k) = k_write K s f k in (n, k, i, w @ [f])),
     k_select = (\<lambda>s sec usec (k, h). let (r, k) = k_select K s sec usec k in (r, k, h)),
     k_read = (\<lambda>s f (k, i, w). let (n, g, k) = k_read K s f k in
       (n, g, k, if 0 \<le> n \<and> k_frame_size K \<le> nat n then i @ [g] else i, w)),
     k_frame_size = k_frame_size K\<rparr>"

definition log_in :: "('f, 'k) log_state \<Rightarrow> 'f list" where "log_in st = fst (snd st)"
definition log_out :: "('f, 'k) log_state \<Rightarrow> 'f list" where "log_out st = snd (snd st)"

text \<open>A kernel that keeps such histories, in whatever way.\<close>

definition observed :: "('f, 'k) can_kernel \<Rightarrow> (timespec \<Rightarrow> 'k \<Rightarrow> 'k) \<Rightarrow> ('k \<Rightarrow> 'f list) \<Rightarrow> ('k \<Rightarrow> 'f list) \<Rightarrow> bool" where
  "observed K slp inp out \<longleftrightarrow>
     (\<forall>s f k. inp (snd (k_write K s f k)) = inp k \<and> out (snd (k_write K s f k)) = out k @ [f]) \<and>
     (\<forall>s sec usec k. inp (snd (k_select K s sec usec k)) = inp k \<and> out (snd (k_select K s sec usec k)) = out k) \<and>
     (\<forall>s f k. let (n, g, k') = k_read K s f k in
        out k' = out k \<and> inp k' = (if 0 \<le> n \<and> k_frame_size K \<le> nat n then inp k @ [g] else inp k)) \<and>
     (\<forall>t k. inp (slp t k) = inp k \<and> out (slp t k) = out k)"

lemma logged_observed: "observed (logged K) (log_sleep slp) log_in log_out"
  by (simp add: observed_def logged_def log_sleep_def log_in_def log_out_def split: prod.splits)

lemma logged_whole: "reads_whole whole K \<Longrightarrow> reads_whole whole (logged K)"
  by (auto simp: reads_whole_def logged_def split: prod.splits) (metis fst_conv snd_conv)

lemma observed_send:
  assumes "observed K slp inp out" "uds_can_send K (Some s) (Some f) k = (rc, k')"
  shows "inp k' = inp k \<and> (out k' = out k @ [f] \<or> rc \<noteq> UDS_CAN_OK \<and> out k' = out k)"
proof (cases "fd s < 0")
  case False
  obtain n k1 where w: "k_write K (fd s) f k = (n, k1)" by force
  have "inp (snd (k_write K s' f q)) = inp q \<and> out (snd (k_write K s' f q)) = out q @ [f]" for s' q
    using assms(1) unfolding observed_def by blast
  from this [of "fd s" k] w have "inp k1 = inp k" "out k1 = out k @ [f]" by simp_all
  with assms(2) False w show ?thesis by (auto simp: uds_can_send_def split: if_splits)
qed (use assms(2) in \<open>simp add: uds_can_send_def\<close>)

lemma observed_recv:
  assumes "observed K slp inp out" "uds_can_recv K (Some s) (Some g) t k = (rc, g', k')"
  shows "out k' = out k \<and> (\<exists>f. g' = Some f \<and> inp k' = (if rc = UDS_CAN_OK then inp k @ [f] else inp k))"
proof (cases "fd s < 0")
  case False
  obtain r k1 where sel: "(if t > 0 then k_select K (fd s) (t div 1000) ((t mod 1000) * 1000) k else (1, k)) = (r, k1)" by force
  have "inp (snd (k_select K s' a b q)) = inp q \<and> out (snd (k_select K s' a b q)) = out q" for s' a b q
    using assms(1) unfolding observed_def by blast
  from this [of "fd s" "t div 1000" "(t mod 1000) * 1000" k] sel have 1: "inp k1 = inp k" "out k1 = out k"
    by (simp_all split: if_splits)
  obtain n f k2 where rd: "k_read K (fd s) g k1 = (n, f, k2)" by (metis prod.exhaust)
  have "let (n, g, k') = k_read K (fd s) g k1 in
      out k' = out k1 \<and> inp k' = (if 0 \<le> n \<and> k_frame_size K \<le> nat n then inp k1 @ [g] else inp k1)"
    using assms(1) unfolding observed_def by blast
  then have "out k2 = out k1 \<and> inp k2 = (if 0 \<le> n \<and> k_frame_size K \<le> nat n then inp k1 @ [f] else inp k1)"
    by (simp add: rd)
  with assms(2) False rd 1 show ?thesis by (auto simp: uds_can_recv_def sel not_less split: if_splits)
qed (use assms(2) in \<open>auto simp: uds_can_recv_def\<close>)

lemma observed_classic:
  assumes "observed K slp inp out"
  shows "tp_observed (classic_codec blank) classic_view (uds_can_send K (Some s)) (\<lambda>f. uds_can_recv K (Some s) f t) slp inp out"
proof unfold_locales
  show "inp (slp x k) = inp k" "out (slp x k) = out k" for x k using assms by (simp_all add: observed_def)
qed (use observed_send [OF assms] observed_recv [OF assms] in blast)+

lemma observed_fd:
  assumes "observed K slp inp out"
  shows "tp_observed (fd_codec blank) fd_view (uds_can_send_fd K (Some s)) (\<lambda>f. uds_can_recv_fd K (Some s) f t) slp inp out"
  unfolding uds_can_send_fd_def uds_can_recv_fd_def
proof unfold_locales
  show "inp (slp x k) = inp k" "out (slp x k) = out k" for x k using assms by (simp_all add: observed_def)
qed (use observed_send [OF assms] observed_recv [OF assms] in blast)+

interpretation logged_classic: tp_observed "classic_codec blank" classic_view
  "uds_can_send (logged K) (Some s)" "\<lambda>f. uds_can_recv (logged K) (Some s) f t" "log_sleep slp" log_in log_out
  by (rule observed_classic [OF logged_observed])

interpretation logged_fd: tp_observed "fd_codec blank" fd_view
  "uds_can_send_fd (logged K) (Some s)" "\<lambda>f. uds_can_recv_fd (logged K) (Some s) f t" "log_sleep slp" log_in log_out
  by (rule observed_fd [OF logged_observed])

section \<open>The entry points\<close>

lemma send_wire:
  assumes "reads_whole (\<lambda>f. length (can_data f) = 8) K" "observed K slp inp out"
  shows "\<exists>rc k' fs. uds_tp_send K slp blank (Some s) tx (Some d) (length d) pcfg k = Some (rc, k') \<and>
    out k' = out k @ fs \<and> prefix fs (classic.segments blank tx d) \<and> (rc = UDS_TP_OK \<longrightarrow> fs = classic.segments blank tx d)"
proof -
  from send_safe [OF assms(1)] obtain rc k' where
    r: "uds_tp_send K slp blank (Some s) tx (Some d) (length d) pcfg k = Some (rc, k')" by blast
  show ?thesis
  proof (cases "d = [] \<or> length d > UDS_TP_MAX_PDU_LEN \<or> pcfg = None \<or> timeout_ms (the pcfg) = 0")
    case True
    then have "uds_tp_send K slp blank (Some s) tx (Some d) (length d) pcfg k = Some (UDS_TP_ERR_PARAM, k)"
      by (auto simp: uds_tp_send_def)
    then show ?thesis by simp
  next
    case False
    then have d: "d \<noteq> []" "length d \<le> cd_max (classic_codec blank)" by (simp_all add: classic_codec_def)
    from r False have "tp_send_pdu (classic_codec blank) (uds_can_send K (Some s))
        (\<lambda>f. uds_can_recv K (Some s) f (unat (timeout_ms (the pcfg)))) slp tx (Some d) (length d) k = Some (rc, k')"
      by (auto simp: uds_tp_send_def split: if_splits)
    from tp_observed.send_pdu_out [OF observed_classic [OF assms(2)] d this] r show ?thesis by blast
  qed
qed

lemma send_fd_wire:
  assumes "reads_whole (\<lambda>f. length (fd_data f) = 64) K" "observed K slp inp out"
  shows "\<exists>rc k' fs. uds_tp_send_fd K slp blank (Some s) tx (Some d) (length d) pcfg k = Some (rc, k') \<and>
    out k' = out k @ fs \<and> prefix fs (fd.segments blank tx d) \<and> (rc = UDS_TP_OK \<longrightarrow> fs = fd.segments blank tx d)"
proof -
  from send_fd_safe [OF assms(1)] obtain rc k' where
    r: "uds_tp_send_fd K slp blank (Some s) tx (Some d) (length d) pcfg k = Some (rc, k')" by blast
  show ?thesis
  proof (cases "d = [] \<or> length d > UDS_TP_CANFD_MAX_PDU_LEN \<or> pcfg = None \<or> timeout_ms (the pcfg) = 0")
    case True
    then have "\<exists>rc. rc \<noteq> UDS_TP_OK \<and> uds_tp_send_fd K slp blank (Some s) tx (Some d) (length d) pcfg k = Some (rc, k)"
      by (auto simp: uds_tp_send_fd_def UDS_TP_CANFD_MAX_PDU_LEN_def fd_consts)
    then show ?thesis by force
  next
    case False
    then have d: "d \<noteq> []" "length d \<le> cd_max (fd_codec blank)"
      by (simp_all add: fd_codec_def UDS_TP_CANFD_MAX_PDU_LEN_def)
    from r False have "tp_send_pdu (fd_codec blank) (uds_can_send_fd K (Some s))
        (\<lambda>f. uds_can_recv_fd K (Some s) f (unat (timeout_ms (the pcfg)))) slp tx (Some d) (length d) k = Some (rc, k')"
      by (auto simp: uds_tp_send_fd_def split: if_splits)
    from tp_observed.send_pdu_out [OF observed_fd [OF assms(2)] d this] r show ?thesis by blast
  qed
qed

lemma recv_wire:
  assumes "reads_whole (\<lambda>f. length (can_data f) = 8) K" "observed K slp inp out" "n \<le> length buf" "n < 2 ^ 32"
  shows "\<exists>rc buf' l' k' m. uds_tp_recv K blank (Some s) tx (Some buf) n (Some l) (Some cfg) k =
      Some (rc, Some buf', Some l', k') \<and>
    out k' = out k @ replicate m (classic.fc_frame blank tx UDS_TP_FC_CTS (block_size cfg) (st_min cfg)) \<and>
    (rc = UDS_TP_OK \<longrightarrow> l' \<le> n \<and> (\<exists>fs. inp k' = inp k @ fs \<and>
      reassemble UDS_TP_CF_DATA_BYTES (map classic_view fs) = Some (take l' buf') \<and>
      m = grants_of (block_size cfg) (map classic_view fs)))"
proof -
  from recv_safe [OF assms(1,3,4), of blank s tx l "Some cfg" k] obtain rc buf' l' k' where
    r: "uds_tp_recv K blank (Some s) tx (Some buf) n (Some l) (Some cfg) k = Some (rc, Some buf', Some l', k')"
    "rc = UDS_TP_OK \<longrightarrow> l' \<le> n" by (metis (no_types, lifting))
  show ?thesis
  proof (cases "n = 0 \<or> timeout_ms cfg = 0")
    case True
    then have "uds_tp_recv K blank (Some s) tx (Some buf) n (Some l) (Some cfg) k = Some (UDS_TP_ERR_PARAM, Some buf, Some l, k)"
      by (auto simp: uds_tp_recv_def)
    then show ?thesis by (auto intro!: exI [of _ 0])
  next
    case False
    with r(1) have "tp_recv_pdu (classic_codec blank) (\<lambda>t n. t > of_nat n) (uds_can_send K (Some s))
        (\<lambda>f. uds_can_recv K (Some s) f (unat (timeout_ms cfg))) tx (Some buf) n (Some l) cfg k = Some (rc, Some buf', Some l', k')"
      by (simp add: uds_tp_recv_def)
    from tp_observed.recv_pdu_wire [OF observed_classic [OF assms(2)] this] r show ?thesis
      unfolding codec_sizes by metis
  qed
qed

lemma recv_fd_wire:
  assumes "reads_whole (\<lambda>f. length (fd_data f) = 64) K" "observed K slp inp out" "n \<le> length buf"
  shows "\<exists>rc buf' l' k' m. uds_tp_recv_fd K blank (Some s) tx (Some buf) n (Some l) (Some cfg) k =
      Some (rc, Some buf', Some l', k') \<and>
    out k' = out k @ replicate m (fd.fc_frame blank tx UDS_TP_FC_CTS (block_size cfg) (st_min cfg)) \<and>
    (rc = UDS_TP_OK \<longrightarrow> l' \<le> n \<and> (\<exists>fs. inp k' = inp k @ fs \<and>
      reassemble UDS_TP_CANFD_CF_DATA_BYTES (map fd_view fs) = Some (take l' buf') \<and>
      m = grants_of (block_size cfg) (map fd_view fs)))"
proof -
  from recv_fd_safe [OF assms(1,3), of blank s tx l "Some cfg" k] obtain rc buf' l' k' where
    r: "uds_tp_recv_fd K blank (Some s) tx (Some buf) n (Some l) (Some cfg) k = Some (rc, Some buf', Some l', k')"
    "rc = UDS_TP_OK \<longrightarrow> l' \<le> n" by (metis (no_types, lifting))
  show ?thesis
  proof (cases "n = 0 \<or> timeout_ms cfg = 0")
    case True
    then have "uds_tp_recv_fd K blank (Some s) tx (Some buf) n (Some l) (Some cfg) k = Some (UDS_TP_ERR_PARAM, Some buf, Some l, k)"
      by (auto simp: uds_tp_recv_fd_def)
    then show ?thesis by (auto intro!: exI [of _ 0])
  next
    case False
    with r(1) have "tp_recv_pdu (fd_codec blank) (\<lambda>t n. unat t > n) (uds_can_send_fd K (Some s))
        (\<lambda>f. uds_can_recv_fd K (Some s) f (unat (timeout_ms cfg))) tx (Some buf) n (Some l) cfg k = Some (rc, Some buf', Some l', k')"
      by (simp add: uds_tp_recv_fd_def)
    from tp_observed.recv_pdu_wire [OF observed_fd [OF assms(2)] this] r show ?thesis
      unfolding codec_sizes by metis
  qed
qed

lemma segments_say:
  "d \<noteq> [] \<Longrightarrow> length d \<le> 4095 \<Longrightarrow>
    reassemble UDS_TP_CF_DATA_BYTES (map classic_view (classic.segments blank tx d)) = Some d"
  "d \<noteq> [] \<Longrightarrow> length d < 2 ^ 32 \<Longrightarrow>
    reassemble UDS_TP_CANFD_CF_DATA_BYTES (map fd_view (fd.segments blank' tx d)) = Some d"
  using classic_viewed.reassemble_segments [of d blank tx] fd_viewed.reassemble_segments [of d blank' tx]
  unfolding codec_sizes by (simp_all add: tp_consts)

section \<open>Properties\<close>

text \<open>
  C12. The sender never says anything but its PDU. Whatever the peer answers and whatever the system
  calls return, the frames \<open>uds_tp_send\<close> and \<open>uds_tp_send_fd\<close> give to the kernel are a prefix of one
  fixed sequence, and on success they are the whole of it; a reference reassembler reads the PDU, and
  nothing else, out of that sequence. So an aborted, refused or stalled transfer leaves an incomplete
  PDU on the bus, never a wrong one.
\<close>

theorem tp_send_prefix:
  assumes "reads_whole (\<lambda>f. length (can_data f) = 8) K" "observed K slp inp out"
    and "reads_whole (\<lambda>f. length (fd_data f) = 64) KF" "observed KF slpf inpf outf"
    and "d \<noteq> []" "length d \<le> 4095" "e \<noteq> []" "length e < 2 ^ 32"
  shows "(\<exists>frames. reassemble UDS_TP_CF_DATA_BYTES (map classic_view frames) = Some d \<and>
      (\<forall>pcfg k. \<exists>rc k' sent. uds_tp_send K slp blank (Some s) tx (Some d) (length d) pcfg k = Some (rc, k') \<and>
        out k' = out k @ sent \<and> prefix sent frames \<and> (rc = UDS_TP_OK \<longrightarrow> sent = frames))) \<and>
    (\<exists>frames. reassemble UDS_TP_CANFD_CF_DATA_BYTES (map fd_view frames) = Some e \<and>
      (\<forall>pcfg k. \<exists>rc k' sent. uds_tp_send_fd KF slpf blankf (Some s) tx (Some e) (length e) pcfg k = Some (rc, k') \<and>
        outf k' = outf k @ sent \<and> prefix sent frames \<and> (rc = UDS_TP_OK \<longrightarrow> sent = frames)))"
  using segments_say(1) [OF assms(5,6)] segments_say(2) [OF assms(7,8)]
    send_wire [OF assms(1,2)] send_fd_wire [OF assms(3,4)] by blast

text \<open>A peer that says WAIT for ever: an error, and no more than a prefix on the bus.\<close>

theorem tp_send_prefix_witness:
  "\<exists>frames rc k' sent. reassemble 7 (map classic_view frames) = Some (replicate 100 7) \<and>
    uds_tp_send (logged (repeating_kernel 16 \<lparr>can_id = 1, can_dlc = 3, can_data = [0x31, 0, 0, 0, 0, 0, 0, 0]\<rparr>)) (log_sleep (\<lambda>_ k. k))
      \<lparr>can_id = 0, can_dlc = 0, can_data = []\<rparr> (Some \<lparr>fd = 3\<rparr>) 0x681 (Some (replicate 100 7)) 100
      (Some \<lparr>timeout_ms = 100, block_size = 0, st_min = 0\<rparr>)
      (\<lparr>vc_in = [], vc_out = [], vc_open = 1, vc_filters = [], vc_slept = 0\<rparr>, [], []) = Some (rc, k') \<and>
    log_out k' = sent \<and> prefix sent frames"
proof -
  let ?c = "\<lparr>can_id = 1, can_dlc = 3, can_data = [0x31, 0, 0, 0, 0, 0, 0, 0]\<rparr>"
    and ?f = "\<lparr>fd_can_id = 1, fd_len = 64, fd_data = replicate 64 0\<rparr>"
  have c: "reads_whole (\<lambda>f. length (can_data f) = 8) (logged (repeating_kernel 16 ?c))"
    by (rule logged_whole, rule repeating_whole) simp
  have f: "reads_whole (\<lambda>f. length (fd_data f) = 64) (logged (repeating_kernel 72 ?f))"
    by (rule logged_whole, rule repeating_whole) simp
  note T = tp_send_prefix [OF c logged_observed [where slp = "\<lambda>_ k. k"] f logged_observed [where slp = "\<lambda>_ k. k"], where d = "replicate 100 7"
    and e = "[1]" and blank = "\<lparr>can_id = 0, can_dlc = 0, can_data = []\<rparr>" and s = "\<lparr>fd = 3\<rparr>" and tx = "0x681", THEN conjunct1]
  obtain frames where fr: "reassemble UDS_TP_CF_DATA_BYTES (map classic_view frames) = Some (replicate 100 7)"
    "\<forall>pcfg k. \<exists>rc k' sent. uds_tp_send (logged (repeating_kernel 16 ?c)) (log_sleep (\<lambda>_ k. k)) \<lparr>can_id = 0, can_dlc = 0, can_data = []\<rparr>
        (Some \<lparr>fd = 3\<rparr>) 0x681 (Some (replicate 100 7)) 100 pcfg k = Some (rc, k') \<and>
      log_out k' = log_out k @ sent \<and> prefix sent frames \<and> (rc = UDS_TP_OK \<longrightarrow> sent = frames)"
    using T by auto
  let ?k = "(\<lparr>vc_in = [], vc_out = [], vc_open = 1, vc_filters = [], vc_slept = 0\<rparr>, [], []) :: (can_frame, can_frame vcan) log_state"
  have "log_out ?k = []" by (simp add: log_out_def)
  with fr(1) fr(2) [rule_format, of "Some \<lparr>timeout_ms = 100, block_size = 0, st_min = 0\<rparr>" ?k] show ?thesis
    by (auto simp: tp_consts)
qed

text \<open>
  C11. The receiver reports what it was sent. \<open>reassemble\<close>, a function of the bytes of the frames,
  says which PDU a sequence of frames makes: a Single Frame, or a First Frame and Consecutive Frames
  with the right sequence numbers that supply exactly the announced length. Whatever arrives, when
  \<open>uds_tp_recv\<close> or \<open>uds_tp_recv_fd\<close> succeeds, the frames it took from the kernel make exactly the bytes it
  reports, and it has sent one CTS for the First Frame and one for each further block it took; when it
  fails, it has sent nothing but such CTS frames.
\<close>

theorem tp_recv_refines:
  assumes "reads_whole (\<lambda>f. length (can_data f) = 8) K" "observed K slp inp out"
    and "reads_whole (\<lambda>f. length (fd_data f) = 64) KF" "observed KF slpf inpf outf"
    and "n \<le> length buf" "n < 2 ^ 32"
  shows "\<exists>cts ctsf.
    uds_tp_decode_fc (Some cts) (Some UDS_TP_FC_WAIT) (Some 0) (Some 0) =
      Some (UDS_TP_OK, Some UDS_TP_FC_CTS, Some (block_size cfg), Some (st_min cfg)) \<and>
    uds_tp_decode_fc_fd (Some ctsf) (Some UDS_TP_FC_WAIT) (Some 0) (Some 0) =
      Some (UDS_TP_OK, Some UDS_TP_FC_CTS, Some (block_size cfg), Some (st_min cfg)) \<and>
    (\<forall>k. \<exists>rc buf' l' k' m. uds_tp_recv K blank (Some s) tx (Some buf) n (Some l) (Some cfg) k =
        Some (rc, Some buf', Some l', k') \<and> out k' = out k @ replicate m cts \<and>
      (rc = UDS_TP_OK \<longrightarrow> l' \<le> n \<and> (\<exists>fs. inp k' = inp k @ fs \<and>
        reassemble UDS_TP_CF_DATA_BYTES (map classic_view fs) = Some (take l' buf') \<and>
        m = grants_of (block_size cfg) (map classic_view fs)))) \<and>
    (\<forall>k. \<exists>rc buf' l' k' m. uds_tp_recv_fd KF blankf (Some s) tx (Some buf) n (Some l) (Some cfg) k =
        Some (rc, Some buf', Some l', k') \<and> outf k' = outf k @ replicate m ctsf \<and>
      (rc = UDS_TP_OK \<longrightarrow> l' \<le> n \<and> (\<exists>fs. inpf k' = inpf k @ fs \<and>
        reassemble UDS_TP_CANFD_CF_DATA_BYTES (map fd_view fs) = Some (take l' buf') \<and>
        m = grants_of (block_size cfg) (map fd_view fs))))"
proof (rule exI [of _ "classic.fc_frame blank tx UDS_TP_FC_CTS (block_size cfg) (st_min cfg)"],
    rule exI [of _ "fd.fc_frame blankf tx UDS_TP_FC_CTS (block_size cfg) (st_min cfg)"], intro conjI allI)
  show "uds_tp_decode_fc (Some (classic.fc_frame blank tx UDS_TP_FC_CTS (block_size cfg) (st_min cfg)))
      (Some UDS_TP_FC_WAIT) (Some 0) (Some 0) = Some (UDS_TP_OK, Some UDS_TP_FC_CTS, Some (block_size cfg), Some (st_min cfg))"
    using classic.fc(2) [of blank tx UDS_TP_FC_CTS "block_size cfg" "st_min cfg" UDS_TP_FC_WAIT 0 0] by (simp add: classic_codec_def)
  show "uds_tp_decode_fc_fd (Some (fd.fc_frame blankf tx UDS_TP_FC_CTS (block_size cfg) (st_min cfg)))
      (Some UDS_TP_FC_WAIT) (Some 0) (Some 0) = Some (UDS_TP_OK, Some UDS_TP_FC_CTS, Some (block_size cfg), Some (st_min cfg))"
    using fd.fc(2) [of blankf tx UDS_TP_FC_CTS "block_size cfg" "st_min cfg" UDS_TP_FC_WAIT 0 0] by (simp add: fd_codec_def)
qed (rule recv_wire [OF assms(1,2,5,6)], rule recv_fd_wire [OF assms(3,4,5)])

text \<open>A Single Frame with a TesterPresent request.\<close>

theorem tp_recv_refines_witness:
  "\<exists>fs m buf' k'. uds_tp_recv (logged (repeating_kernel 16 \<lparr>can_id = 1, can_dlc = 3, can_data = [0x02, 0x3E, 0, 0, 0, 0, 0, 0]\<rparr>))
      \<lparr>can_id = 0, can_dlc = 0, can_data = []\<rparr> (Some \<lparr>fd = 3\<rparr>) 0x681 (Some (replicate 4 9)) 4 (Some 0)
      (Some \<lparr>timeout_ms = 100, block_size = 1, st_min = 0\<rparr>)
      (\<lparr>vc_in = [], vc_out = [], vc_open = 1, vc_filters = [], vc_slept = 0\<rparr>, [], []) = Some (UDS_TP_OK, Some buf', Some 2, k') \<and>
    log_in k' = fs \<and> reassemble 7 (map classic_view fs) = Some (take 2 buf') \<and> m = grants_of 1 (map classic_view fs)"
proof -
  let ?c = "\<lparr>can_id = 1, can_dlc = 3, can_data = [0x02, 0x3E, 0, 0, 0, 0, 0, 0]\<rparr>"
    and ?f = "\<lparr>fd_can_id = 1, fd_len = 64, fd_data = replicate 64 0\<rparr>"
    and ?k = "(\<lparr>vc_in = [], vc_out = [], vc_open = 1, vc_filters = [], vc_slept = 0\<rparr>, [], []) :: (can_frame, can_frame vcan) log_state"
    and ?cfg = "\<lparr>timeout_ms = 100, block_size = 1, st_min = 0\<rparr>"
  have c: "reads_whole (\<lambda>f. length (can_data f) = 8) (logged (repeating_kernel 16 ?c))"
    by (rule logged_whole, rule repeating_whole) simp
  have f: "reads_whole (\<lambda>f. length (fd_data f) = 64) (logged (repeating_kernel 72 ?f))"
    by (rule logged_whole, rule repeating_whole) simp
  let ?r = "uds_tp_recv (logged (repeating_kernel 16 ?c)) \<lparr>can_id = 0, can_dlc = 0, can_data = []\<rparr> (Some \<lparr>fd = 3\<rparr>) 0x681
      (Some (replicate 4 9)) 4 (Some 0) (Some ?cfg) ?k"
  have ok: "\<exists>b k'. ?r = Some (UDS_TP_OK, Some b, Some 2, k')"
    by (simp add: uds_tp_recv_def tp_recv_pdu_def uds_can_recv_def logged_def repeating_kernel_def vcan_kernel_def
        classic_codec_def uds_tp_frame_type_def uds_tp_decode_sf_def frame_type_of_byte_def mem_simps tp_consts Let_def mem_cpy_def)
  have p: "4 \<le> length (replicate 4 (9 :: u8))" "(4 :: nat) < 2 ^ 32" by simp_all
  note T = tp_recv_refines [OF c logged_observed [where slp = "\<lambda>_ k. k"] f logged_observed [where slp = "\<lambda>_ k. k"] p,
    where s = "\<lparr>fd = 3\<rparr>" and blank = "\<lparr>can_id = 0, can_dlc = 0, can_data = []\<rparr>" and tx = "0x681" and cfg = ?cfg and l = 0]
  obtain rc buf' l' k' m where r: "?r = Some (rc, Some buf', Some l', k')" and
    ok': "rc = UDS_TP_OK \<longrightarrow> l' \<le> 4 \<and> (\<exists>fs. log_in k' = log_in ?k @ fs \<and>
        reassemble UDS_TP_CF_DATA_BYTES (map classic_view fs) = Some (take l' buf') \<and>
        m = grants_of (block_size ?cfg) (map classic_view fs))"
    using T by blast
  from ok r have "rc = UDS_TP_OK" "l' = 2" by auto
  with r ok' show ?thesis by (auto simp: log_in_def tp_consts)
qed

end
