(* ===== verification/IsoTpKept.thy ===== *)
theory IsoTpKept
  imports IsoTpWire
begin

text \<open>
  What a transfer leaves alone. A relation between kernel states that is reflexive, transitive and kept
  by every call of the transport layer is kept by its functions, however they end. \<open>kept_by\<close> states the
  condition on a kernel; the histories of an observed kernel only grow is the instance the theories of
  the simulator use.
\<close>

section \<open>Partial results\<close>

text \<open>\<open>yields Q m\<close>: what \<open>m\<close> returns, when it returns, satisfies \<open>Q\<close>; with a rule for each construct of the loops.\<close>

definition yields :: "('a \<Rightarrow> bool) \<Rightarrow> 'a option \<Rightarrow> bool" where
  "yields Q m \<longleftrightarrow> (\<forall>y. m = Some y \<longrightarrow> Q y)"

lemma yields_some: "Q y \<Longrightarrow> yields Q (Some y)"
  by (simp add: yields_def)

lemma yields_bind: "(\<And>x. m = Some x \<Longrightarrow> yields Q (f x)) \<Longrightarrow> yields Q (m \<bind> f)"
  by (auto simp: yields_def bind_eq_Some_conv)

lemma yields_if: "(b \<Longrightarrow> yields Q x) \<Longrightarrow> (\<not> b \<Longrightarrow> yields Q y) \<Longrightarrow> yields Q (if b then x else y)"
  by simp

lemma yields_prod: "(\<And>a b. p = (a, b) \<Longrightarrow> yields Q (f a b)) \<Longrightarrow> yields Q (case p of (a, b) \<Rightarrow> f a b)"
  by (cases p) simp

lemma yields_let: "(\<And>x. x = a \<Longrightarrow> yields Q (f x)) \<Longrightarrow> yields Q (Let a f)"
  by simp

lemmas yields_rules = yields_some yields_bind yields_if yields_prod yields_let

lemma yieldsD: "m = Some y \<Longrightarrow> yields Q m \<Longrightarrow> Q y"
  by (simp add: yields_def)

section \<open>Relations kept by the calls\<close>

locale tp_kept =
  fixes snd_f :: "'f ptr \<Rightarrow> 'k \<Rightarrow> UdsCanError \<times> 'k"
    and rcv_f :: "'f ptr \<Rightarrow> 'k \<Rightarrow> UdsCanError \<times> 'f ptr \<times> 'k"
    and slp :: "timespec \<Rightarrow> 'k \<Rightarrow> 'k"
    and R :: "'k \<Rightarrow> 'k \<Rightarrow> bool"
  assumes keep_refl [simp]: "R k k"
    and keep_trans: "R k k1 \<Longrightarrow> R k1 k2 \<Longrightarrow> R k k2"
    and keep_snd: "snd_f f k = (rc, k') \<Longrightarrow> R k k'"
    and keep_rcv: "rcv_f g k = (rc, g', k') \<Longrightarrow> R k k'"
    and keep_slp: "R k (slp t k)"
begin

lemma keep_stmin: "R k0 k \<Longrightarrow> R k0 (apply_stmin slp st k)"
  by (auto simp: apply_stmin_def intro: keep_slp keep_trans)

lemma keep_snd':
  "snd_f f k = (rc, k') \<Longrightarrow> R k0 k \<Longrightarrow> R k0 k'" "(rc, k') = snd_f f k \<Longrightarrow> R k0 k \<Longrightarrow> R k0 k'"
  by (metis keep_snd keep_trans)+

lemma keep_rcv':
  "rcv_f g k = (rc, g', k') \<Longrightarrow> R k0 k \<Longrightarrow> R k0 k'" "(rc, g', k') = rcv_f g k \<Longrightarrow> R k0 k \<Longrightarrow> R k0 k'"
  by (metis keep_rcv keep_trans)+

lemmas keep_calls = keep_refl keep_snd' keep_rcv' keep_stmin

lemma keep_recv_fc: "tp_recv_fc cd rcv_f v k = Some (rc, v', k') \<Longrightarrow> R k0 k \<Longrightarrow> R k0 k'"
  by (auto simp: tp_recv_fc_def bind_eq_Some_conv split: prod.splits if_splits intro: keep_calls)

lemma keep_wait_loop: "tp_wait_loop cd rcv_f n v k = Some (rc, v', k') \<Longrightarrow> R k0 k \<Longrightarrow> R k0 k'"
proof (induction "Suc UDS_TP_MAX_WAIT_FRAMES - n" arbitrary: n v k rule: less_induct)
  case less
  show ?case
  proof (cases "fst (snd v) = Some UDS_TP_FC_WAIT \<and> \<not> Suc n > UDS_TP_MAX_WAIT_FRAMES")
    case False
    with less.prems show ?thesis by (subst (asm) tp_wait_loop.simps) (auto split: if_splits)
  next
    case True
    with less.prems obtain rc1 v1 k1 where r: "tp_recv_fc cd rcv_f v k = Some (rc1, v1, k1)"
      by (subst (asm) tp_wait_loop.simps) (auto split: option.splits)
    from True have "Suc UDS_TP_MAX_WAIT_FRAMES - Suc n < Suc UDS_TP_MAX_WAIT_FRAMES - n" by linarith
    from less.hyps [OF this, of v1 k1] less.prems True r keep_recv_fc [OF r] show ?thesis
      by (subst (asm) tp_wait_loop.simps) (auto split: if_splits)
  qed
qed

lemma keep_send_block:
  assumes "tp_send_block cd snd_f slp tx data len bs st pos sn cnt g k = Some (rc, pos', sn', g', k')"
    and "R k0 k"
  shows "R k0 k'"
proof -
  have "snd_f = snd_f \<longrightarrow> slp = slp \<longrightarrow> R k (snd (snd (snd (snd (rc, pos', sn', g', k')))))"
  proof (rule tp_send_block.raw_induct [where P = "\<lambda>cd s w tx data len bs st pos sn cnt g k y.
      s = snd_f \<longrightarrow> w = slp \<longrightarrow> R k (snd (snd (snd (snd y))))", OF _ assms(1)], intro impI, goal_cases)
    case (1 loop cd s w tx data len bs st pos sn cnt g k y)
    then have IH: "R k0 k1 \<Longrightarrow> yields (\<lambda>y. R k0 (snd (snd (snd (snd y))))) (loop cd s w tx data len bs st pos sn cnt g k1)"
      for pos sn cnt g k0 k1 by (auto simp: yields_def intro: keep_trans)
    show ?case
      by (rule yieldsD [OF 1(2)], intro yields_rules IH) (auto 0 8 simp: 1(3,4) intro: keep_calls)
  qed
  with assms(2) show ?thesis by (auto intro: keep_trans)
qed

lemma keep_send_loop:
  assumes "tp_send_loop cd snd_f rcv_f slp tx data len pos sn g k = Some (rc, k')"
    and "R k0 k"
  shows "R k0 k'"
proof -
  have "snd_f = snd_f \<longrightarrow> rcv_f = rcv_f \<longrightarrow> slp = slp \<longrightarrow> R k (snd (rc, k'))"
  proof (rule tp_send_loop.raw_induct [where P = "\<lambda>cd s r w tx data len pos sn g k y.
      s = snd_f \<longrightarrow> r = rcv_f \<longrightarrow> w = slp \<longrightarrow> R k (snd y)", OF _ assms(1)], intro impI, goal_cases)
    case (1 loop cd s r w tx data len pos sn g k y)
    then have IH: "R k0 k1 \<Longrightarrow> yields (\<lambda>y. R k0 (snd y)) (loop cd s r w tx data len pos sn g k1)" for pos sn g k0 k1
      by (auto simp: yields_def intro: keep_trans)
    show ?case
      by (rule yieldsD [OF 1(2)], intro yields_rules IH)
         (auto 0 8 simp: 1(3-5) intro: keep_refl keep_recv_fc keep_wait_loop keep_send_block)
  qed
  with assms(2) show ?thesis by (auto intro: keep_trans)
qed

lemma keep_send_pdu:
  assumes "tp_send_pdu cd snd_f rcv_f slp tx data len k = Some (rc, k')"
    and "R k0 k"
  shows "R k0 k'"
proof -
  from assms(2) have "yields (\<lambda>y. R k0 (snd y)) (tp_send_pdu cd snd_f rcv_f slp tx data len k)"
    unfolding tp_send_pdu_def
    by (intro yields_rules) (auto simp: yields_def intro: keep_calls keep_send_loop)
  from yieldsD [OF assms(1) this] show ?thesis by simp
qed

lemma keep_send_cts: "tp_send_cts cd snd_f tx cfg g k = Some (rc, g', k') \<Longrightarrow> R k0 k \<Longrightarrow> R k0 k'"
  by (auto simp: tp_send_cts_def bind_eq_Some_conv Let_def split: prod.splits if_splits intro: keep_calls)

lemma keep_recv_loop:
  assumes "tp_recv_loop cd snd_f rcv_f tx cfg n tot buf fc g received sn cnt k = Some (rc, buf', k')"
    and "R k0 k"
  shows "R k0 k'"
proof -
  have "snd_f = snd_f \<longrightarrow> rcv_f = rcv_f \<longrightarrow> R k (snd (snd (rc, buf', k')))"
  proof (rule tp_recv_loop.raw_induct [where P = "\<lambda>cd s r tx cfg n tot buf fc g received sn cnt k y.
      s = snd_f \<longrightarrow> r = rcv_f \<longrightarrow> R k (snd (snd y))", OF _ assms(1)], intro impI, goal_cases)
    case (1 loop cd s r tx cfg n tot buf fc g received sn cnt k y)
    then have IH: "R k0 k1 \<Longrightarrow> yields (\<lambda>y. R k0 (snd (snd y))) (loop cd s r tx cfg n tot buf fc g received sn cnt k1)"
      for buf fc g received sn cnt k0 k1 by (auto simp: yields_def intro: keep_trans)
    show ?case
      by (rule yieldsD [OF 1(2)], intro yields_rules IH)
         (auto 0 8 simp: 1(3,4) bind_eq_Some_conv intro: keep_calls keep_send_cts split: if_splits)
  qed
  with assms(2) show ?thesis by (auto intro: keep_trans)
qed

lemma keep_recv_pdu:
  assumes "tp_recv_pdu cd too_long snd_f rcv_f tx buf n l cfg k = Some (rc, buf', l', k')"
    and "R k0 k"
  shows "R k0 k'"
proof -
  from assms(2) have "yields (\<lambda>y. R k0 (snd (snd (snd y)))) (tp_recv_pdu cd too_long snd_f rcv_f tx buf n l cfg k)"
    unfolding tp_recv_pdu_def
    by (intro yields_rules) (auto 0 8 intro: keep_calls keep_send_cts keep_recv_loop)
  from yieldsD [OF assms(1) this] show ?thesis by simp
qed

end

section \<open>Relations kept by a kernel\<close>

definition kernel_keeps :: "('f, 'k) can_kernel \<Rightarrow> (timespec \<Rightarrow> 'k \<Rightarrow> 'k) \<Rightarrow> ('k \<Rightarrow> 'k \<Rightarrow> bool) \<Rightarrow> bool" where
  "kernel_keeps K slp R \<longleftrightarrow> (\<forall>k. R k k) \<and> (\<forall>k k1 k2. R k k1 \<longrightarrow> R k1 k2 \<longrightarrow> R k k2) \<and>
     (\<forall>s f k. R k (snd (k_write K s f k))) \<and> (\<forall>s sec usec k. R k (snd (k_select K s sec usec k))) \<and>
     (\<forall>s f k. R k (snd (snd (k_read K s f k)))) \<and> (\<forall>t k. R k (slp t k))"

lemma kernel_keepsD:
  assumes "kernel_keeps K slp R"
  shows "R k k" "R k k1 \<Longrightarrow> R k1 k2 \<Longrightarrow> R k k2" "k_write K s f k = (n, k1) \<Longrightarrow> R k k1"
    "k_select K s sec usec k = (n, k1) \<Longrightarrow> R k k1" "k_read K s f k = (n, g, k1) \<Longrightarrow> R k k1" "R k (slp t k)"
  using assms unfolding kernel_keeps_def by (metis snd_conv)+

lemma can_kept:
  assumes "kernel_keeps K slp R"
  shows "tp_kept (uds_can_send K sock) (\<lambda>f. uds_can_recv K sock f t) slp R"
proof
  note D = kernel_keepsD [OF assms]
  show "R k k" for k by (rule D(1))
  show "R k k2" if "R k k1" "R k1 k2" for k k1 k2 using that by (rule D(2))
  show "R k (slp t k)" for t k by (rule D(6))
  show "R k k'" if "uds_can_send K sock f k = (rc, k')" for f k rc k'
    using that by (auto simp: uds_can_send_def intro: D(1) D(3) split: option.splits if_splits prod.splits)
  show "R k k'" if "uds_can_recv K sock g t k = (rc, g', k')" for g k rc g' k'
    using that
    by (auto simp: uds_can_recv_def Let_def intro: D(1) D(4) D(5) D(2) [OF D(4) D(5)] split: option.splits if_splits prod.splits)
qed

lemma tp_send_keeps:
  assumes "kernel_keeps K slp R" "uds_tp_send K slp blank sock tx data len cfg k = Some (rc, k')"
  shows "R k k'"
  using assms(2) kernel_keepsD(1) [OF assms(1)]
  by (auto simp: uds_tp_send_def split: if_splits dest!: tp_kept.keep_send_pdu [OF can_kept [OF assms(1)]])

lemma tp_recv_keeps:
  assumes "kernel_keeps K slp R" "uds_tp_recv K blank sock tx buf n l cfg k = Some (rc, buf', l', k')"
  shows "R k k'"
  using assms(2) kernel_keepsD(1) [OF assms(1)]
  by (auto simp: uds_tp_recv_def split: if_splits dest!: tp_kept.keep_recv_pdu [OF can_kept [OF assms(1)]])

section \<open>Histories grow\<close>

definition grows :: "('k \<Rightarrow> 'f list) \<Rightarrow> ('k \<Rightarrow> 'f list) \<Rightarrow> 'k \<Rightarrow> 'k \<Rightarrow> bool" where
  "grows inp out k k' \<longleftrightarrow> prefix (inp k) (inp k') \<and> prefix (out k) (out k')"

lemma observed_grows:
  assumes "observed K slp inp out"
  shows "kernel_keeps K slp (grows inp out)"
proof -
  have "prefix (inp k) (inp (snd (snd (k_read K s f k)))) \<and> out (snd (snd (k_read K s f k))) = out k" for s f k
  proof -
    have "let (n, g, k') = k_read K s f k in
        out k' = out k \<and> inp k' = (if 0 \<le> n \<and> k_frame_size K \<le> nat n then inp k @ [g] else inp k)"
      using assms unfolding observed_def by blast
    then show ?thesis by (cases "k_read K s f k") (auto split: if_splits)
  qed
  with assms show ?thesis
    by (auto simp: kernel_keeps_def observed_def grows_def intro: prefix_order.trans)
qed

interpretation logged_kept: tp_kept "uds_can_send (logged K) (Some s)" "\<lambda>f. uds_can_recv (logged K) (Some s) f t"
  "log_sleep slp" "grows log_in log_out"
  by (rule can_kept [OF observed_grows [OF logged_observed]])

end
