(* ===== verification/EcuSim.thy ===== *)
theory EcuSim
  imports Session Security DataServices Dtc FlashServices IsoTp
begin

text \<open>
  The ECU simulator, \<open>src/ecusim/ecusim.c\<close>: the state of one simulated ECU, the dispatcher that
  routes a request to its service, the default data, and the life cycle (init, run, stop, cleanup).
  The proofs about the dispatcher are in \<open>Dispatch\<close>, those about the life cycle in \<open>EcuRun\<close>.
\<close>

section \<open>State\<close>

definition ECUSIM_MAX_PDU :: nat where "ECUSIM_MAX_PDU = 4095"
definition ECUSIM_MAX_DIDS :: nat where "ECUSIM_MAX_DIDS = 16"
definition ECUSIM_MAX_DTCS :: nat where "ECUSIM_MAX_DTCS = 8"

text \<open>
  The arrays \<open>did_entries\<close>, \<open>did_data\<close> and \<open>dtc_entries\<close> of the C structure are reached through
  the two registries only: the registries own them here.
\<close>

record EcuSimulator =
  sim_sock :: UdsCanSocket
  sim_ecu_id :: u8
  sim_req_can_id :: u32
  sim_resp_can_id :: u32
  sim_session :: UdsCoreSession
  sim_security :: UdsCoreSecurity
  sim_did_reg :: UdsDidRegistry
  sim_did_count :: nat
  sim_dtc_reg :: UdsDtcRegistry
  sim_dtc_count :: nat
  sim_flash :: UdsFlashMemory
  sim_xfer :: UdsXferSession
  sim_running :: int
  sim_verbose :: bool

section \<open>The dispatcher\<close>

definition build_nrc :: "u8 \<Rightarrow> u8 \<Rightarrow> outp \<Rightarrow> outp option" where
  "build_nrc sid nrc out = do { out \<leftarrow> put_resp 0 [0x7F, sid, nrc] out; set_resp_len 3 out }"

text \<open>
  A case of the \<open>switch\<close> ends in a \<open>return\<close> (\<open>Inl\<close>) or in a \<open>break\<close> with the code of the service
  (\<open>Inr\<close>). \<open>reject\<close> is \<open>build_nrc(...); return;\<close>. \<open>call\<close> runs a service on a part of the simulator,
  given by its address: \<open>upd\<close> puts the part back.
\<close>

type_synonym flow = "((EcuSimulator \<times> outp) + (UdsCoreError \<times> EcuSimulator \<times> outp)) option"

definition reject :: "u8 \<Rightarrow> UdsNrc \<Rightarrow> EcuSimulator \<Rightarrow> outp \<Rightarrow> flow" where
  "reject sid k sim out = do { out \<leftarrow> build_nrc sid (nrc_code k) out; Some (Inl (sim, out)) }"

definition call :: "('s \<Rightarrow> EcuSimulator) \<Rightarrow> 's result \<Rightarrow> flow" where
  "call upd r = do { (rc, s, out) \<leftarrow> r; Some (Inr (rc, upd s, out)) }"

definition at :: "('s \<Rightarrow> EcuSimulator \<Rightarrow> EcuSimulator) \<Rightarrow> EcuSimulator \<Rightarrow> 's ptr \<Rightarrow> EcuSimulator" where
  "at f sim p = (case p of None \<Rightarrow> sim | Some s \<Rightarrow> f s sim)"

abbreviation "put_session \<equiv> \<lambda>s. sim_session_update (\<lambda>_. s)"
abbreviation "put_security \<equiv> \<lambda>s. sim_security_update (\<lambda>_. s)"
abbreviation "put_dids \<equiv> \<lambda>s. sim_did_reg_update (\<lambda>_. s)"
abbreviation "put_dtcs \<equiv> \<lambda>s. sim_dtc_reg_update (\<lambda>_. s)"
abbreviation "put_flash \<equiv> \<lambda>s. sim_flash_update (\<lambda>_. s)"
abbreviation "put_xfer \<equiv> \<lambda>s. sim_xfer_update (\<lambda>_. s)"

text \<open>
  The cases. \<open>req\<close> holds the \<open>req_len\<close> bytes of the request and nothing else, so that reading past
  the request is a fault; \<open>req + k\<close> is \<open>drop k req\<close>.
\<close>

definition on_dsc :: "clock \<Rightarrow> EcuSimulator \<Rightarrow> u8 list \<Rightarrow> nat \<Rightarrow> outp \<Rightarrow> flow" where
  "on_dsc clk sim req resp_sz out =
     (if length req < 2 then reject 0x10 UDS_NRC_INCORRECT_MSG_LEN_OR_FORMAT sim out
      else do {
        ty \<leftarrow> mem_get (Some req) 1;
        call (at put_session sim) (uds_core_dsc (clk 0) ty (Some (sim_session sim)) resp_sz out) })"

definition on_tester_present :: "clock \<Rightarrow> EcuSimulator \<Rightarrow> u8 list \<Rightarrow> nat \<Rightarrow> outp \<Rightarrow> flow" where
  "on_tester_present clk sim req resp_sz out =
     (if length req < 2 then reject 0x3E UDS_NRC_INCORRECT_MSG_LEN_OR_FORMAT sim out
      else do {
        sub \<leftarrow> mem_get (Some req) 1;
        call (at put_session sim) (uds_core_tester_present (clk 0) sub (Some (sim_session sim)) resp_sz out) })"

text \<open>After an accepted key the unlocked level is copied into the session.\<close>

definition on_security :: "clock \<Rightarrow> (nat \<Rightarrow> int) \<Rightarrow> EcuSimulator \<Rightarrow> u8 list \<Rightarrow> nat \<Rightarrow> outp \<Rightarrow> flow" where
  "on_security clk rnd sim req resp_sz out =
     (if length req < 2 then reject 0x27 UDS_NRC_INCORRECT_MSG_LEN_OR_FORMAT sim out
      else do {
        sub \<leftarrow> mem_get (Some req) 1;
        if sub AND 0x01 \<noteq> 0 then
          call (at put_security sim) (uds_core_sec_request_seed clk rnd sub (Some (sim_security sim)) resp_sz out)
        else if length req < 2 + UDS_CORE_SEED_LEN
        then reject 0x27 UDS_NRC_INCORRECT_MSG_LEN_OR_FORMAT sim out
        else do {
          (rc, p, out) \<leftarrow> uds_core_sec_send_key clk sub (Some (drop 2 req)) (length req - 2)
                            (Some (sim_security sim)) resp_sz out;
          let sim = at put_security sim p;
          let sim = (if rc = UDS_CORE_OK
                     then sim\<lparr>sim_session := (sim_session sim)\<lparr>security_level := unlocked_level (sim_security sim)\<rparr>\<rparr>
                     else sim);
          Some (Inr (rc, sim, out)) } })"

text \<open>The loop that fills \<open>did_list\<close>.\<close>

fun fill_did_list :: "u8 list ptr \<Rightarrow> nat \<Rightarrow> nat \<Rightarrow> u16 list option" where
  "fill_did_list req 0 i = Some []"
| "fill_did_list req (Suc k) i = do {
     h \<leftarrow> mem_get req (1 + i * 2);
     l \<leftarrow> mem_get req (2 + i * 2);
     ds \<leftarrow> fill_did_list req k (Suc i);
     Some (be16 h l # ds) }"

definition on_read_did :: "EcuSimulator \<Rightarrow> u8 list \<Rightarrow> nat \<Rightarrow> outp \<Rightarrow> flow" where
  "on_read_did sim req resp_sz out =
     (if length req < 3 \<or> (length req - 1) mod 2 \<noteq> 0
      then reject 0x22 UDS_NRC_INCORRECT_MSG_LEN_OR_FORMAT sim out
      else
        let n_dids = (length req - 1) div 2 in
        if n_dids > 16 then reject 0x22 UDS_NRC_REQUEST_OUT_OF_RANGE sim out
        else do {
          dl \<leftarrow> fill_did_list (Some req) n_dids 0;
          call (at put_dids sim) (uds_svc_read_did (Some dl) n_dids (Some (sim_did_reg sim)) resp_sz out) })"

definition on_write_did :: "EcuSimulator \<Rightarrow> u8 list \<Rightarrow> nat \<Rightarrow> outp \<Rightarrow> flow" where
  "on_write_did sim req resp_sz out =
     (if length req < 4 then reject 0x2E UDS_NRC_INCORRECT_MSG_LEN_OR_FORMAT sim out
      else do {
        h \<leftarrow> mem_get (Some req) 1;
        l \<leftarrow> mem_get (Some req) 2;
        let sec_ok = uds_core_sec_is_unlocked (Some (sim_security sim)) 0x01;
        call (at put_dids sim)
          (uds_svc_write_did (be16 h l) (Some (drop 3 req)) (length req - 3)
             (session_code (sess_type (sim_session sim))) sec_ok (Some (sim_did_reg sim)) resp_sz out) })"

text \<open>A positive reset puts the session and the security state back to their initial values.\<close>

definition on_ecu_reset :: "clock \<Rightarrow> EcuSimulator \<Rightarrow> u8 list \<Rightarrow> nat \<Rightarrow> outp \<Rightarrow> flow" where
  "on_ecu_reset clk sim req resp_sz out =
     (if length req < 2 then reject 0x11 UDS_NRC_INCORRECT_MSG_LEN_OR_FORMAT sim out
      else do {
        ty \<leftarrow> mem_get (Some req) 1;
        (rc, _, out) \<leftarrow> uds_svc_ecu_reset ty () resp_sz out;
        let sim = (if rc = UDS_CORE_OK
                   then at put_security
                          (at put_session sim (uds_core_session_init (clk 0) (Some (sim_session sim)) (sim_ecu_id sim) None))
                          (uds_core_security_init (Some (sim_security sim)))
                   else sim);
        Some (Inr (rc, sim, out)) })"

definition on_comm_control :: "EcuSimulator \<Rightarrow> u8 list \<Rightarrow> nat \<Rightarrow> outp \<Rightarrow> flow" where
  "on_comm_control sim req resp_sz out =
     (if length req < 3 then reject 0x28 UDS_NRC_INCORRECT_MSG_LEN_OR_FORMAT sim out
      else do {
        ct \<leftarrow> mem_get (Some req) 1;
        cm \<leftarrow> mem_get (Some req) 2;
        call (\<lambda>_. sim) (uds_svc_comm_control ct cm () resp_sz out) })"

definition on_clear_dtc :: "EcuSimulator \<Rightarrow> u8 list \<Rightarrow> nat \<Rightarrow> outp \<Rightarrow> flow" where
  "on_clear_dtc sim req resp_sz out =
     (if length req < 4 then reject 0x14 UDS_NRC_INCORRECT_MSG_LEN_OR_FORMAT sim out
      else do {
        b1 \<leftarrow> mem_get (Some req) 1;
        b2 \<leftarrow> mem_get (Some req) 2;
        b3 \<leftarrow> mem_get (Some req) 3;
        let group = push_bit 16 (ucast b1) OR push_bit 8 (ucast b2) OR ucast b3;
        call (at put_dtcs sim) (uds_svc_clear_dtc group (Some (sim_dtc_reg sim)) resp_sz out) })"

definition on_read_dtc :: "EcuSimulator \<Rightarrow> u8 list \<Rightarrow> nat \<Rightarrow> outp \<Rightarrow> flow" where
  "on_read_dtc sim req resp_sz out =
     (if length req < 2 then reject 0x19 UDS_NRC_INCORRECT_MSG_LEN_OR_FORMAT sim out
      else do {
        sub \<leftarrow> mem_get (Some req) 1;
        if (sub = 0x01 \<or> sub = 0x02) \<and> length req < 3
        then reject 0x19 UDS_NRC_INCORRECT_MSG_LEN_OR_FORMAT sim out
        else
          let dtc_req_data = (if length req > 2 then Some (drop 2 req) else None);
              dtc_req_len = (if length req > 2 then length req - 2 else 0)
          in call (at put_dtcs sim)
               (uds_svc_read_dtc sub dtc_req_data dtc_req_len (Some (sim_dtc_reg sim)) resp_sz out) })"

definition put_transfer :: "EcuSimulator \<Rightarrow> xfer_state \<Rightarrow> EcuSimulator" where
  "put_transfer sim st = at put_flash (at put_xfer sim (fst st)) (snd st)"

definition on_request_download :: "EcuSimulator \<Rightarrow> u8 list \<Rightarrow> nat \<Rightarrow> outp \<Rightarrow> flow" where
  "on_request_download sim req resp_sz out =
     (if length req < 3 then reject 0x34 UDS_NRC_INCORRECT_MSG_LEN_OR_FORMAT sim out
      else do {
        fmt \<leftarrow> mem_get (Some req) 2;
        call (put_transfer sim)
          (uds_svc_request_download fmt (Some (drop 3 req)) (length req - 3)
             (Some (sim_xfer sim), Some (sim_flash sim)) resp_sz out) })"

definition on_request_upload :: "EcuSimulator \<Rightarrow> u8 list \<Rightarrow> nat \<Rightarrow> outp \<Rightarrow> flow" where
  "on_request_upload sim req resp_sz out =
     (if length req < 3 then reject 0x35 UDS_NRC_INCORRECT_MSG_LEN_OR_FORMAT sim out
      else do {
        fmt \<leftarrow> mem_get (Some req) 2;
        call (put_transfer sim)
          (uds_svc_request_upload fmt (Some (drop 3 req)) (length req - 3)
             (Some (sim_xfer sim), Some (sim_flash sim)) resp_sz out) })"

definition on_transfer_data :: "EcuSimulator \<Rightarrow> u8 list \<Rightarrow> nat \<Rightarrow> outp \<Rightarrow> flow" where
  "on_transfer_data sim req resp_sz out =
     (if length req < 2 then reject 0x36 UDS_NRC_INCORRECT_MSG_LEN_OR_FORMAT sim out
      else do {
        seq \<leftarrow> mem_get (Some req) 1;
        call (put_transfer sim)
          (uds_svc_transfer_data seq (Some (drop 2 req)) (length req - 2)
             (Some (sim_xfer sim), Some (sim_flash sim)) resp_sz out) })"

definition on_transfer_exit :: "EcuSimulator \<Rightarrow> nat \<Rightarrow> outp \<Rightarrow> flow" where
  "on_transfer_exit sim resp_sz out =
     call (at put_xfer sim) (uds_svc_transfer_exit (Some (sim_xfer sim)) resp_sz out)"

definition dispatch_switch ::
  "clock \<Rightarrow> (nat \<Rightarrow> int) \<Rightarrow> EcuSimulator \<Rightarrow> u8 \<Rightarrow> u8 list \<Rightarrow> nat \<Rightarrow> outp \<Rightarrow> flow" where
  "dispatch_switch clk rnd sim sid req resp_sz out =
     (if sid = 0x10 then on_dsc clk sim req resp_sz out
      else if sid = 0x3E then on_tester_present clk sim req resp_sz out
      else if sid = 0x27 then on_security clk rnd sim req resp_sz out
      else if sid = 0x22 then on_read_did sim req resp_sz out
      else if sid = 0x2E then on_write_did sim req resp_sz out
      else if sid = 0x11 then on_ecu_reset clk sim req resp_sz out
      else if sid = 0x28 then on_comm_control sim req resp_sz out
      else if sid = 0x14 then on_clear_dtc sim req resp_sz out
      else if sid = 0x19 then on_read_dtc sim req resp_sz out
      else if sid = 0x34 then on_request_download sim req resp_sz out
      else if sid = 0x35 then on_request_upload sim req resp_sz out
      else if sid = 0x36 then on_transfer_data sim req resp_sz out
      else if sid = 0x37 then on_transfer_exit sim resp_sz out
      else reject sid UDS_NRC_SERVICE_NOT_SUPPORTED sim out)"

text \<open>The simulator, the response buffer and the length of the response (0 for none).\<close>

definition ecusim_dispatch ::
  "clock \<Rightarrow> (nat \<Rightarrow> int) \<Rightarrow> EcuSimulator \<Rightarrow> u8 list \<Rightarrow> u8 list \<Rightarrow> nat \<Rightarrow> (EcuSimulator \<times> u8 list \<times> nat) option" where
  "ecusim_dispatch clk rnd sim req resp resp_sz =
     (if length req = 0 then Some (sim, resp, 0)
      else do {
        sid \<leftarrow> mem_get (Some req) 0;
        r \<leftarrow> dispatch_switch clk rnd sim sid req resp_sz (mk_out resp 0 0);
        (sim, out) \<leftarrow>
          (case r of
             Inl (sim, out) \<Rightarrow> Some (sim, out)
           | Inr (rc, sim, out) \<Rightarrow> do {
               nrc \<leftarrow> o_nrc out;
               if rc \<noteq> UDS_CORE_OK \<and> nrc \<noteq> 0 then do {
                 out \<leftarrow> build_nrc sid nrc out;
                 Some (sim, out) }
               else Some (sim, out) });
        b \<leftarrow> o_resp out;
        l \<leftarrow> o_len out;
        Some (sim, b, l) })"

section \<open>Default data\<close>

definition ascii :: "string \<Rightarrow> u8 list" where
  "ascii s = map of_char s"

definition DID_ECU_PART_NUMBER :: u16 where "DID_ECU_PART_NUMBER = 0xF187"
definition DID_HW_VERSION :: u16 where "DID_HW_VERSION = 0xF191"
definition DID_SW_VERSION :: u16 where "DID_SW_VERSION = 0xF189"
definition DID_VIN :: u16 where "DID_VIN = 0xF190"
definition DID_ODOMETER :: u16 where "DID_ODOMETER = 0x0101"
definition DTC_BATTERY_VOLTAGE :: u32 where "DTC_BATTERY_VOLTAGE = 0x010001"
definition DTC_COMM_TIMEOUT :: u32 where "DTC_COMM_TIMEOUT = 0x010002"
definition UDS_DTC_STATUS_PENDING_DTC :: u8 where "UDS_DTC_STATUS_PENDING_DTC = 0x04"
definition UDS_DTC_STATUS_CONFIRMED_DTC :: u8 where "UDS_DTC_STATUS_CONFIRMED_DTC = 0x08"
definition UDS_DTC_STATUS_TEST_FAILED_SINCE_CLEAR :: u8 where "UDS_DTC_STATUS_TEST_FAILED_SINCE_CLEAR = 0x20"

lemmas default_ids = DID_ECU_PART_NUMBER_def DID_HW_VERSION_def DID_SW_VERSION_def DID_VIN_def DID_ODOMETER_def
  DTC_BATTERY_VOLTAGE_def DTC_COMM_TIMEOUT_def UDS_DTC_STATUS_PENDING_DTC_def UDS_DTC_STATUS_CONFIRMED_DTC_def
  UDS_DTC_STATUS_TEST_FAILED_SINCE_CLEAR_def

text \<open>
  An entry of the table: its content is copied to the front of its 32-byte buffer, which
  \<open>memset\<close> has cleared. Every default is readable in the default session and, where it is
  writable at all, writable from the extended session on.
\<close>

definition default_did :: "u16 \<Rightarrow> u8 list \<Rightarrow> bool \<Rightarrow> bool \<Rightarrow> UdsDidEntry" where
  "default_did did content wr sec =
     \<lparr>did_id = did, did_data = Some (splice 0 content (replicate 32 0)), data_len = length content, writable = wr,
      min_session = session_code UDS_SESSION_DEFAULT, min_write_session = session_code UDS_SESSION_EXTENDED,
      requires_security = sec\<rparr>"

definition zero_did :: UdsDidEntry where
  "zero_did = \<lparr>did_id = 0, did_data = None, data_len = 0, writable = False, min_session = 0, min_write_session = 0,
     requires_security = False\<rparr>"

definition default_dids :: "UdsDidEntry list" where
  "default_dids =
     [default_did DID_ECU_PART_NUMBER (ascii ''UDS-SIM-0001'') True False,
      default_did DID_HW_VERSION (ascii ''HW-1.0'') False False,
      default_did DID_SW_VERSION (ascii ''SW-1.0.0'') False False,
      default_did DID_VIN (ascii ''1HGCM82633A123456'') True True,
      default_did DID_ODOMETER [0x00, 0x00, 0x12, 0x34] True False]"

definition zero_dtc :: UdsDtcEntry where
  "zero_dtc = \<lparr>dtc_code = 0, dtc_status = 0, snapshot_data = replicate 16 0, snapshot_len = 0\<rparr>"

definition default_dtcs :: "UdsDtcEntry list" where
  "default_dtcs =
     [zero_dtc\<lparr>dtc_code := DTC_BATTERY_VOLTAGE,
        dtc_status := UDS_DTC_STATUS_CONFIRMED_DTC OR UDS_DTC_STATUS_TEST_FAILED_SINCE_CLEAR\<rparr>,
      zero_dtc\<lparr>dtc_code := DTC_COMM_TIMEOUT, dtc_status := UDS_DTC_STATUS_PENDING_DTC\<rparr>]"

definition ecusim_populate_defaults :: "EcuSimulator \<Rightarrow> EcuSimulator" where
  "ecusim_populate_defaults sim =
     (let dids = default_dids @ replicate (ECUSIM_MAX_DIDS - length default_dids) zero_did;
          sim = sim\<lparr>sim_did_count := length default_dids\<rparr>;
          sim = at put_dids sim (uds_did_registry_init (Some (sim_did_reg sim)) (Some dids) (sim_did_count sim));
          dtcs = default_dtcs @ replicate (ECUSIM_MAX_DTCS - length default_dtcs) zero_dtc;
          sim = sim\<lparr>sim_dtc_count := length default_dtcs\<rparr>
      in at put_dtcs sim (uds_dtc_registry_init (Some (sim_dtc_reg sim)) (Some dtcs) (sim_dtc_count sim)))"

section \<open>Life cycle\<close>

text \<open>
  \<open>memset(sim, 0, sizeof(*sim))\<close>. The session type 0 is not a value of its enum; it is overwritten
  by \<open>uds_core_session_init\<close> before it is read.
\<close>

definition zero_flash :: UdsFlashMemory where
  "zero_flash = \<lparr>fl_data = (\<lambda>_. 0), fl_regions = replicate UDS_FLASH_MAX_REGIONS \<lparr>base_address = 0, rg_size = 0, protected = False\<rparr>,
     region_count = 0, initialized = False\<rparr>"

definition zero_simulator :: EcuSimulator where
  "zero_simulator = \<lparr>sim_sock = \<lparr>fd = 0\<rparr>, sim_ecu_id = 0, sim_req_can_id = 0, sim_resp_can_id = 0,
     sim_session = \<lparr>ecu_id = 0, sess_type = UDS_SESSION_DEFAULT, cfg = \<lparr>p2_ms = 0, p2_star_ms = 0, s3_ms = 0\<rparr>,
       security_level = 0, last_activity = \<lparr>tv_sec = 0, tv_nsec = 0\<rparr>\<rparr>,
     sim_security = zero_security, sim_did_reg = \<lparr>did_entries = None, did_count = 0\<rparr>, sim_did_count = 0,
     sim_dtc_reg = \<lparr>dtc_entries = None, dtc_count = 0\<rparr>, sim_dtc_count = 0, sim_flash = zero_flash,
     sim_xfer = zero_xfer, sim_running = 0, sim_verbose = False\<rparr>"

definition ecusim_init ::
  "('f, 'k) can_kernel \<Rightarrow> timespec \<Rightarrow> EcuSimulator ptr \<Rightarrow> u8 \<Rightarrow> string ptr \<Rightarrow> 'k \<Rightarrow> (int \<times> EcuSimulator ptr \<times> 'k) option" where
  "ecusim_init K now psim eid ifname k =
     (if psim = None \<or> ifname = None then Some (-1, psim, k)
      else do {
        let sim = zero_simulator\<lparr>sim_ecu_id := eid, sim_req_can_id := uds_can_req_id eid,
                    sim_resp_can_id := uds_can_resp_id eid, sim_running := 1\<rparr>;
        let sim = at put_session sim (uds_core_session_init now (Some (sim_session sim)) eid None);
        let sim = at put_security sim (uds_core_security_init (Some (sim_security sim)));
        fl \<leftarrow> uds_flash_init (Some (sim_flash sim))
               (Some [\<lparr>base_address = 0x00000000, rg_size = 256 * 1024, protected = False\<rparr>]) 1;
        let sim = at put_flash sim fl;
        let sim = at put_xfer sim (uds_xfer_init (Some (sim_xfer sim)));
        let sim = ecusim_populate_defaults sim;
        let (rc, sock, k) = uds_can_open K (Some (sim_sock sim)) ifname k;
        let sim = at (\<lambda>s. sim_sock_update (\<lambda>_. s)) sim sock;
        if rc \<noteq> UDS_CAN_OK then Some (-1, Some sim, k)
        else do {
          (rc, k) \<leftarrow> uds_can_set_filter K (Some (sim_sock sim))
                      (Some [\<lparr>flt_can_id = sim_req_can_id sim, flt_can_mask = 0x7FF\<rparr>]) 1 k;
          if rc \<noteq> UDS_CAN_OK then
            (let (sock, k) = uds_can_close K (Some (sim_sock sim)) k
             in Some (-1, Some (at (\<lambda>s. sim_sock_update (\<lambda>_. s)) sim sock), k))
          else Some (0, Some sim, k) } })"

definition ecusim_stop :: "EcuSimulator ptr \<Rightarrow> EcuSimulator ptr" where
  "ecusim_stop psim = (case psim of None \<Rightarrow> None | Some sim \<Rightarrow> Some (sim\<lparr>sim_running := 0\<rparr>))"

definition ecusim_cleanup :: "('f, 'k) can_kernel \<Rightarrow> EcuSimulator ptr \<Rightarrow> 'k \<Rightarrow> EcuSimulator ptr \<times> 'k" where
  "ecusim_cleanup K psim k =
     (case psim of None \<Rightarrow> (None, k)
      | Some sim \<Rightarrow>
          let (sock, k) = uds_can_close K (Some (sim_sock sim)) k
          in (Some (at (\<lambda>s. sim_sock_update (\<lambda>_. s)) sim sock), k))"

text \<open>
  What the loop takes from its environment besides the CAN system calls: clock, \<open>rand()\<close> and
  \<open>nanosleep\<close>, as functions of the kernel state, and whether \<open>ecusim_stop\<close> has been called on this
  simulator (from a signal handler or another thread) by the time \<open>running\<close> is tested.
\<close>

record 'k sim_env =
  env_clock :: "'k \<Rightarrow> clock"
  env_rand :: "'k \<Rightarrow> nat \<Rightarrow> int"
  env_sleep :: "timespec \<Rightarrow> 'k \<Rightarrow> 'k"
  env_stopped :: "'k \<Rightarrow> bool"

definition sim_tp_cfg :: UdsTpConfig where
  "sim_tp_cfg = \<lparr>timeout_ms = 100, block_size = 0, st_min = 0\<rparr>"

text \<open>
  One round of the loop: receive a request, dispatch it, send the response. The dispatcher and the
  sender get exactly the \<open>req_len\<close> and \<open>resp_len\<close> bytes of their buffers, so that reading past them is a
  fault. The messages of the verbose mode are not modelled. \<open>blank\<close> is the content of an
  uninitialised frame.
\<close>

definition ecusim_round ::
  "(can_frame, 'k) can_kernel \<Rightarrow> 'k sim_env \<Rightarrow> can_frame \<Rightarrow> EcuSimulator \<Rightarrow> u8 list \<Rightarrow> u8 list \<Rightarrow> 'k \<Rightarrow>
   (EcuSimulator \<times> u8 list \<times> u8 list \<times> 'k) option" where
  "ecusim_round K env blank sim req_buf resp_buf k = do {
     (rc, req_buf, req_len, k) \<leftarrow>
       uds_tp_recv K blank (Some (sim_sock sim)) (sim_resp_can_id sim) (Some req_buf) ECUSIM_MAX_PDU (Some 0)
         (Some sim_tp_cfg) k;
     req_buf \<leftarrow> req_buf;
     req_len \<leftarrow> req_len;
     if rc = UDS_TP_ERR_TIMEOUT \<or> rc = UDS_TP_ERR_RECV then Some (sim, req_buf, resp_buf, k)
     else if rc \<noteq> UDS_TP_OK then Some (sim, req_buf, resp_buf, k)
     else do {
       req \<leftarrow> mem_read (Some req_buf) 0 req_len;
       (sim, resp_buf, resp_len) \<leftarrow>
         ecusim_dispatch (env_clock env k) (env_rand env k) sim req resp_buf ECUSIM_MAX_PDU;
       if resp_len > 0 then do {
         resp \<leftarrow> mem_read (Some resp_buf) 0 resp_len;
         (rc, k) \<leftarrow> uds_tp_send K (env_sleep env) blank (Some (sim_sock sim)) (sim_resp_can_id sim)
                     (Some resp) resp_len (Some sim_tp_cfg) k;
         Some (sim, req_buf, resp_buf, k) }
       else Some (sim, req_buf, resp_buf, k) } }"

partial_function (option) ecusim_loop ::
  "(can_frame, 'k) can_kernel \<Rightarrow> 'k sim_env \<Rightarrow> can_frame \<Rightarrow> EcuSimulator \<Rightarrow> u8 list \<Rightarrow> u8 list \<Rightarrow> 'k \<Rightarrow>
   (EcuSimulator \<times> 'k) option" where
  "ecusim_loop K env blank sim req_buf resp_buf k =
     (let sim = (if env_stopped env k then sim\<lparr>sim_running := 0\<rparr> else sim) in
      if sim_running sim \<noteq> 0 then do {
        (sim, req_buf, resp_buf, k) \<leftarrow> ecusim_round K env blank sim req_buf resp_buf k;
        ecusim_loop K env blank sim req_buf resp_buf k }
      else Some (sim, k))"

text \<open>The two local buffers have \<open>ECUSIM_MAX_PDU\<close> uninitialised bytes.\<close>

definition ecusim_run ::
  "(can_frame, 'k) can_kernel \<Rightarrow> 'k sim_env \<Rightarrow> can_frame \<Rightarrow> u8 list \<Rightarrow> u8 list \<Rightarrow> EcuSimulator ptr \<Rightarrow> 'k \<Rightarrow>
   (EcuSimulator ptr \<times> 'k) option" where
  "ecusim_run K env blank req_buf resp_buf psim k =
     (case psim of None \<Rightarrow> Some (None, k)
      | Some sim \<Rightarrow> do {
          (sim, k) \<leftarrow> ecusim_loop K env blank sim req_buf resp_buf k;
          Some (Some sim, k) })"

end
