(* ===== verification/Dispatch.thy ===== *)
theory Dispatch
  imports EcuSim
begin

text \<open>
  The dispatcher of the ECU simulator relies on its services through the contracts
  \<open>positive_service\<close> and \<open>answering_service\<close> only. Each case is shown to keep the invariant of the
  simulator, to change only the part of the state its service owns, to leave a well-formed answer, and
  which requests may get none; the properties of \<open>ecusim_dispatch\<close> follow.
\<close>

section \<open>What a case of the switch leaves behind\<close>

text \<open>
  \<open>handled I n b sid r\<close>: the flow \<open>r\<close> is no fault, its simulator satisfies \<open>I\<close>, and its response is a
  rejection that is already built, a positive response of at most \<open>n\<close> bytes, or an error code.
\<close>

definition handled :: "(EcuSimulator \<Rightarrow> bool) \<Rightarrow> nat \<Rightarrow> u8 list \<Rightarrow> u8 \<Rightarrow> flow \<Rightarrow> bool" where
  "handled I n b sid r \<longleftrightarrow> (\<exists>sim b'. length b' = length b \<and> I sim \<and>
     ((\<exists>k. r = Some (Inl (sim, mk_out b' 3 0)) \<and> take 3 b' = [0x7F, sid, nrc_code k]) \<or>
      (\<exists>l. r = Some (Inr (UDS_CORE_OK, sim, mk_out b' l 0)) \<and> l \<le> n \<and> (0 < l \<longrightarrow> b' ! 0 = sid + 0x40)) \<or>
      (\<exists>rc c. r = Some (Inr (rc, sim, mk_out b' 0 c)) \<and> rc \<noteq> UDS_CORE_OK)))"

text \<open>The three kinds of answer: none, a negative response, a positive response.\<close>

definition answered :: "u8 \<Rightarrow> u8 list \<Rightarrow> nat \<Rightarrow> bool" where
  "answered sid b l \<longleftrightarrow> l = 0 \<or> (\<exists>c. c \<noteq> 0 \<and> take l b = [0x7F, sid, c]) \<or> (0 < l \<and> b ! 0 = sid + 0x40)"

lemma build_nrc_mk:
  "3 \<le> length b \<Longrightarrow> build_nrc sid c (mk_out b l x) = Some (mk_out (splice 0 [0x7F, sid, c] b) 3 x)"
  by (simp add: build_nrc_def mem_simps)

lemma handled_mono: "handled I n b sid r \<Longrightarrow> (\<And>sim. I sim \<Longrightarrow> J sim) \<Longrightarrow> handled J n b sid r"
  unfolding handled_def by blast

lemma handled_reject: "I sim \<Longrightarrow> 3 \<le> length b \<Longrightarrow> handled I n b sid (reject sid k sim (mk_out b 0 0))"
  by (simp add: handled_def reject_def build_nrc_mk)

lemma handled_if:
  "(c \<Longrightarrow> handled I n b sid p) \<Longrightarrow> (\<not> c \<Longrightarrow> handled I n b sid q) \<Longrightarrow> handled I n b sid (if c then p else q)"
  by simp

context positive_service
begin

text \<open>A case that calls the service, and one that goes on with its result.\<close>

lemma handled_then:
  assumes "inv s" "n \<le> length b"
    and "\<And>rc s' out'. svc s n (mk_out b 0 0) = Some (rc, s', out') \<Longrightarrow> inv s' \<Longrightarrow> I (upd rc s')"
  shows "handled I n b sid (do { (rc, s', out) \<leftarrow> svc s n (mk_out b 0 0); Some (Inr (rc, upd rc s', out)) })"
  using assms(1,2)
proof (cases rule: answer [where l = 0])
  case (ok s' b' l')
  with assms(3) [OF ok(1,2)] show ?thesis
    by (auto simp: handled_def intro!: exI [of _ "upd UDS_CORE_OK s'"])
next
  case (nrc s' b' c')
  with assms(3) [OF nrc(1,2)] show ?thesis
    by (auto simp: handled_def intro!: exI [of _ "upd UDS_CORE_ERR_NRC s'"])
next
  case (silent rc s' b')
  with assms(3) [OF silent(1,2)] show ?thesis
    by (auto simp: handled_def intro!: exI [of _ "upd rc s'"])
qed

lemma handled_call:
  assumes "inv s" "n \<le> length b"
    and "\<And>rc s' out'. svc s n (mk_out b 0 0) = Some (rc, s', out') \<Longrightarrow> inv s' \<Longrightarrow> I (upd s')"
  shows "handled I n b sid (call upd (svc s n (mk_out b 0 0)))"
  unfolding call_def by (rule handled_then [where upd = "\<lambda>_. upd"]) (use assms in auto)

end

text \<open>The dispatcher around a case.\<close>

lemma dispatch_handled:
  assumes "handled I n b sid (dispatch_switch clk rnd sim sid (sid # rest) n (mk_out b 0 0))"
    "3 \<le> n" "n \<le> length b"
  shows "\<exists>sim' b' l'. ecusim_dispatch clk rnd sim (sid # rest) b n = Some (sim', b', l') \<and> I sim' \<and>
    length b' = length b \<and> l' \<le> n \<and> answered sid b' l'"
proof -
  have z: "nrc_code k \<noteq> 0" for k by (cases k) simp_all
  from assms(1) consider
      (rejected) sim' b' k where "dispatch_switch clk rnd sim sid (sid # rest) n (mk_out b 0 0) = Some (Inl (sim', mk_out b' 3 0))"
        "take 3 b' = [0x7F, sid, nrc_code k]" "length b' = length b" "I sim'"
    | (ok) sim' b' l where "dispatch_switch clk rnd sim sid (sid # rest) n (mk_out b 0 0) = Some (Inr (UDS_CORE_OK, sim', mk_out b' l 0))"
        "l \<le> n" "0 < l \<longrightarrow> b' ! 0 = sid + 0x40" "length b' = length b" "I sim'"
    | (failed) sim' b' rc c where "dispatch_switch clk rnd sim sid (sid # rest) n (mk_out b 0 0) = Some (Inr (rc, sim', mk_out b' 0 c))"
        "rc \<noteq> UDS_CORE_OK" "length b' = length b" "I sim'"
    unfolding handled_def by blast
  then show ?thesis
  proof cases
    case rejected
    with assms(2) z [of k] show ?thesis by (auto simp: ecusim_dispatch_def mem_simps answered_def)
  next
    case ok
    then show ?thesis by (auto simp: ecusim_dispatch_def mem_simps answered_def)
  next
    case failed
    with assms(2,3) show ?thesis
      by (cases "c = 0") (auto simp: ecusim_dispatch_def mem_simps answered_def build_nrc_mk)
  qed
qed

section \<open>The invariant of the simulator\<close>

text \<open>
  Every component satisfies its own invariant, and the security level of the session is either
  cleared or the level that is unlocked.
\<close>

definition sim_inv :: "EcuSimulator \<Rightarrow> bool" where
  "sim_inv sim \<longleftrightarrow> sec_inv (sim_security sim) \<and> did_reg_inv (sim_did_reg sim) \<and> dtc_reg_inv (sim_dtc_reg sim) \<and>
     flash_inv (sim_flash sim) \<and> xfer_inv (sim_flash sim) (sim_xfer sim) \<and>
     (security_level (sim_session sim) = 0 \<or> security_level (sim_session sim) = unlocked_level (sim_security sim))"

lemma at_simps [simp]: "at f sim None = sim" "at f sim (Some s) = f s sim"
  by (simp_all add: at_def)

lemma at_ptr_inv: "ptr_inv P p \<Longrightarrow> I sim \<Longrightarrow> (\<And>s. P s \<Longrightarrow> I (f s sim)) \<Longrightarrow> I (at f sim p)"
  by (cases p) simp_all

section \<open>The cases\<close>

text \<open>What the services with a security or session state do to the levels.\<close>

lemma dsc_level:
  "uds_core_dsc now ty (Some s) n out = Some (rc, p, out') \<Longrightarrow>
   \<exists>s'. p = Some s' \<and> (security_level s' = security_level s \<or> security_level s' = 0)"
  by (auto simp: uds_core_dsc_def Let_def split: if_splits option.splits dest!: ret_state)

lemma tester_present_level:
  "uds_core_tester_present now sub (Some s) n out = Some (rc, p, out') \<Longrightarrow>
   p = Some s \<or> p = Some (s\<lparr>last_activity := now\<rparr>)"
  by (auto simp: uds_core_tester_present_def Let_def Option.bind_eq_Some_conv split: if_splits dest!: ret_state)

lemma check_locked_unlocked: "check_locked t sec = (r, sec') \<Longrightarrow> unlocked_level sec' = unlocked_level sec"
  by (auto simp: check_locked_def Let_def split: if_splits)

lemma request_seed_unlocked:
  "uds_core_sec_request_seed clk rnd sub (Some sec) n out = Some (rc, p, out') \<Longrightarrow>
   \<exists>sec'. p = Some sec' \<and> unlocked_level sec' = unlocked_level sec"
  by (auto simp: uds_core_sec_request_seed_def Let_def split: if_splits prod.splits
      dest!: ret_state check_locked_unlocked)

lemma send_key_unlocked:
  "uds_core_sec_send_key clk sub key m (Some sec) n out = Some (rc, p, out') \<Longrightarrow>
   \<exists>sec'. p = Some sec' \<and> (rc = UDS_CORE_OK \<longrightarrow> unlocked_level sec' = sub - 1) \<and>
     (rc \<noteq> UDS_CORE_OK \<longrightarrow> unlocked_level sec' = unlocked_level sec)"
  by (auto simp: uds_core_sec_send_key_def Let_def Option.bind_eq_Some_conv split: if_splits prod.splits
      dest!: ret_state check_locked_unlocked)


text \<open>The reading services and the transfer services, as far as the parts they leave alone.\<close>

lemma read_did_state: "uds_svc_read_did dl m p n out = Some (rc, p', out') \<Longrightarrow> p' = p"
  by (auto simp: uds_svc_read_did_def Option.bind_eq_Some_conv split: option.splits if_splits)

lemma report_dtcs_state: "report_dtcs sel hdr reg n out = Some (rc, p', out') \<Longrightarrow> p' = Some reg"
  by (auto simp: report_dtcs_def Option.bind_eq_Some_conv split: if_splits)

lemma read_dtc_state: "uds_svc_read_dtc sub d m p n out = Some (rc, p', out') \<Longrightarrow> p' = p"
  by (auto simp: uds_svc_read_dtc_def Option.bind_eq_Some_conv split: option.splits if_splits
      dest!: ret_state report_dtcs_state)

lemma request_upload_flash:
  assumes "uds_svc_request_upload fmt d m (px, pf) n out = Some (rc, st', out')"
  shows "snd st' = pf"
proof (cases "px = None \<or> pf = None \<or> d = None \<or> null_out out \<or> (\<exists>x. px = Some x \<and> xf_mode x \<noteq> UDS_XFER_IDLE)
    \<or> (\<forall>a k. parse_addr_len_fmt fmt d m \<noteq> Some (Some (a, k)))")
  case True
  with assms show ?thesis
    by (auto simp: uds_svc_request_upload_def Option.bind_eq_Some_conv split: option.splits if_splits
        dest!: ret_state)
next
  case False
  then obtain x a k where "px = Some x" "parse_addr_len_fmt fmt d m = Some (Some (a, k))" by auto
  with assms False show ?thesis
    by (auto simp: uds_svc_request_upload_def Option.bind_eq_Some_conv split: if_splits dest!: ret_state)
qed

lemma read_dtc_no_data: "uds_svc_read_dtc sub None 0 = uds_svc_read_dtc sub (Some []) 0"
proof -
  have "req_status_mask None 0 = req_status_mask (Some []) 0" by (simp add: req_status_mask_def)
  then show ?thesis by (intro ext) (simp only: uds_svc_read_dtc_def)
qed

lemma fill_did_list_total:
  "2 * (i + k) < length req \<Longrightarrow> \<exists>dl. fill_did_list (Some req) k i = Some dl \<and> length dl = k"
proof (induction k arbitrary: i)
  case (Suc k)
  from Suc.IH [of "Suc i"] Suc.prems obtain dl where "fill_did_list (Some req) k (Suc i) = Some dl" "length dl = k"
    by auto
  with Suc.prems show ?case by (auto simp: mem_simps)
qed simp

text \<open>
  Which parts of the simulator a service may change, by its identifier.
\<close>

definition owns :: "u8 \<Rightarrow> EcuSimulator \<Rightarrow> EcuSimulator \<Rightarrow> bool" where
  "owns sid sim sim' \<longleftrightarrow>
     (sid \<notin> {0x10, 0x3E, 0x27, 0x11} \<longrightarrow> sim_session sim' = sim_session sim) \<and>
     (sid \<notin> {0x27, 0x11} \<longrightarrow> sim_security sim' = sim_security sim) \<and>
     (sid \<noteq> 0x2E \<longrightarrow> sim_did_reg sim' = sim_did_reg sim) \<and>
     (sid \<noteq> 0x14 \<longrightarrow> sim_dtc_reg sim' = sim_dtc_reg sim) \<and>
     (sid \<notin> {0x34, 0x36} \<longrightarrow> sim_flash sim' = sim_flash sim) \<and>
     (sid \<notin> {0x34, 0x35, 0x36, 0x37} \<longrightarrow> sim_xfer sim' = sim_xfer sim) \<and>
     sim_sock sim' = sim_sock sim \<and> sim_ecu_id sim' = sim_ecu_id sim \<and> sim_req_can_id sim' = sim_req_can_id sim \<and>
     sim_resp_can_id sim' = sim_resp_can_id sim \<and> sim_running sim' = sim_running sim \<and>
     sim_verbose sim' = sim_verbose sim"

lemma owns_refl [simp]: "owns sid sim sim"
  by (simp add: owns_def)

definition serves :: "u8 \<Rightarrow> EcuSimulator \<Rightarrow> EcuSimulator \<Rightarrow> bool" where
  "serves sid sim sim' \<longleftrightarrow> sim_inv sim' \<and> owns sid sim sim'"

lemma serves_refl: "sim_inv sim \<Longrightarrow> serves sid sim sim"
  by (simp add: serves_def)

lemmas serves_defs = serves_def owns_def sim_inv_def

lemma handled_guard:
  assumes "sim_inv sim" "3 \<le> length b" "\<not> c \<Longrightarrow> handled (serves sid sim) n b sid q"
  shows "handled (serves sid sim) n b sid (if c then reject sid k sim (mk_out b 0 0) else q)"
  using assms by (simp add: handled_reject serves_refl)

text \<open>
  The situation in which every case runs: a well-formed simulator and a response buffer with room
  for a negative response.
\<close>

definition ready :: "EcuSimulator \<Rightarrow> nat \<Rightarrow> u8 list \<Rightarrow> bool" where
  "ready sim n b \<longleftrightarrow> sim_inv sim \<and> 3 \<le> n \<and> n \<le> length b"

lemma guarded:
  "ready sim n b \<Longrightarrow> (\<not> c \<Longrightarrow> handled (serves sid sim) n b sid q) \<Longrightarrow>
   handled (serves sid sim) n b sid (if c then reject sid k sim (mk_out b 0 0) else q)"
  by (rule handled_guard) (simp_all add: ready_def)

lemmas ready_defs = ready_def serves_defs

lemma on_dsc_handled:
  assumes "ready sim n b"
  shows "handled (serves 0x10 sim) n b 0x10 (on_dsc clk sim req n (mk_out b 0 0))"
  unfolding on_dsc_def using assms
  by (intro guarded, assumption)
     (auto simp: mem_simps ready_defs intro!: dsc_pos.handled_call dest!: dsc_level)

lemma on_tester_present_handled:
  assumes "ready sim n b"
  shows "handled (serves 0x3E sim) n b 0x3E (on_tester_present clk sim req n (mk_out b 0 0))"
  unfolding on_tester_present_def using assms
  by (intro guarded, assumption)
     (auto simp: mem_simps ready_defs intro!: tester_present_pos.handled_call dest!: tester_present_level)

lemma on_read_did_handled:
  assumes "ready sim n b"
  shows "handled (serves 0x22 sim) n b 0x22 (on_read_did sim req n (mk_out b 0 0))"
proof -
  have "handled (serves 0x22 sim) n b 0x22
      (do { dl \<leftarrow> fill_did_list (Some req) k 0;
            call (at put_dids sim) (uds_svc_read_did (Some dl) k (Some (sim_did_reg sim)) n (mk_out b 0 0)) })"
    if "2 * k < length req" for k
  proof -
    from that fill_did_list_total [of 0 k req] obtain dl where
      dl: "fill_did_list (Some req) k 0 = Some dl" "k = length dl" by auto
    have "handled (serves 0x22 sim) n b 0x22
        (call (at put_dids sim) (uds_svc_read_did (Some dl) (length dl) (Some (sim_did_reg sim)) n (mk_out b 0 0)))"
      using assms by (intro read_did_pos.handled_call) (auto simp: ready_defs dest!: read_did_state)
    with dl show ?thesis by simp
  qed
  from this [of "(length req - 1) div 2"] assms show ?thesis
    unfolding on_read_did_def Let_def by (intro guarded) auto
qed

lemma on_write_did_handled:
  assumes "ready sim n b"
  shows "handled (serves 0x2E sim) n b 0x2E (on_write_did sim req n (mk_out b 0 0))"
proof -
  have "handled (serves 0x2E sim) n b 0x2E
      (call (at put_dids sim) (uds_svc_write_did did (Some dl) (length dl) s u (Some (sim_did_reg sim)) n (mk_out b 0 0)))"
    for did dl s u
    using assms
    by (intro write_did_pos.handled_call) (simp_all add: ready_defs at_def ptr_inv_def split: option.splits)
  from this [of _ "drop 3 req"] assms show ?thesis
    unfolding on_write_did_def by (intro guarded) (simp_all add: mem_simps)
qed

lemma on_ecu_reset_handled:
  assumes "ready sim n b"
  shows "handled (serves 0x11 sim) n b 0x11 (on_ecu_reset clk sim req n (mk_out b 0 0))"
proof -
  have "handled (serves 0x11 sim) n b 0x11
      (do { (rc, s', out) \<leftarrow> uds_svc_ecu_reset ty () n (mk_out b 0 0);
            Some (Inr (rc,
              (if rc = UDS_CORE_OK
               then at put_security
                      (at put_session sim (uds_core_session_init (clk 0) (Some (sim_session sim)) (sim_ecu_id sim) None))
                      (uds_core_security_init (Some (sim_security sim)))
               else sim), out)) })" for ty
    using assms by (intro ecu_reset_pos.handled_then)
      (auto simp: ready_defs uds_core_session_init_def uds_core_security_init_def)
  with assms show ?thesis
    unfolding on_ecu_reset_def by (intro guarded) (simp_all add: mem_simps Let_def)
qed

lemma on_comm_control_handled:
  assumes "ready sim n b"
  shows "handled (serves 0x28 sim) n b 0x28 (on_comm_control sim req n (mk_out b 0 0))"
  unfolding on_comm_control_def using assms
  by (intro guarded, assumption) (auto simp: mem_simps ready_def serves_refl intro!: comm_control_pos.handled_call)

lemma on_clear_dtc_handled:
  assumes "ready sim n b"
  shows "handled (serves 0x14 sim) n b 0x14 (on_clear_dtc sim req n (mk_out b 0 0))"
proof -
  have "handled (serves 0x14 sim) n b 0x14
      (call (at put_dtcs sim) (uds_svc_clear_dtc g (Some (sim_dtc_reg sim)) n (mk_out b 0 0)))" for g
    using assms
    by (intro clear_dtc_pos.handled_call) (simp_all add: ready_defs at_def ptr_inv_def split: option.splits)
  with assms show ?thesis unfolding on_clear_dtc_def by (intro guarded) (simp_all add: mem_simps)
qed

lemma on_read_dtc_handled:
  assumes "ready sim n b"
  shows "handled (serves 0x19 sim) n b 0x19 (on_read_dtc sim req n (mk_out b 0 0))"
proof -
  have call: "handled (serves 0x19 sim) n b 0x19
      (call (at put_dtcs sim) (uds_svc_read_dtc sub (Some d) (length d) (Some (sim_dtc_reg sim)) n (mk_out b 0 0)))" for sub d
    using assms by (intro read_dtc_pos.handled_call) (auto simp: ready_defs dest!: read_dtc_state)
  have "handled (serves 0x19 sim) n b 0x19
      (call (at put_dtcs sim) (uds_svc_read_dtc sub (if length req > 2 then Some (drop 2 req) else None)
         (if length req > 2 then length req - 2 else 0) (Some (sim_dtc_reg sim)) n (mk_out b 0 0)))" for sub
    using call [of sub "drop 2 req"] call [of sub "[]"] by (simp add: read_dtc_no_data)
  with assms show ?thesis
    unfolding on_read_dtc_def Let_def by (intro guarded) (simp_all add: mem_simps handled_reject serves_refl ready_def)
qed

text \<open>The transfer services work on the pair of transfer session and flash.\<close>

lemma put_transfer_serves:
  assumes "ready sim n b" "xfer_state_inv st" "fst st \<noteq> None" "snd st \<noteq> None" "sid \<in> {0x34, 0x35, 0x36}"
    "sid = 0x35 \<longrightarrow> snd st = Some (sim_flash sim)"
  shows "serves sid sim (put_transfer sim st)"
proof -
  from assms(3,4) obtain x f where "st = (Some x, Some f)" by (cases st) auto
  with assms show ?thesis by (auto simp: put_transfer_def ready_defs)
qed

text \<open>The two pointers stay valid: every result of these services has them.\<close>

lemma xfer_results:
  assumes "flash_inv f" "xfer_inv f x" "n \<le> length b"
  shows "uds_svc_request_download fmt (Some d) (length d) (Some x, Some f) n (mk_out b 0 0) = Some (rc, st', out') \<Longrightarrow>
      fst st' \<noteq> None \<and> snd st' \<noteq> None"
    and "uds_svc_request_upload fmt (Some d) (length d) (Some x, Some f) n (mk_out b 0 0) = Some (rc, st', out') \<Longrightarrow>
      fst st' \<noteq> None \<and> snd st' \<noteq> None"
    and "length d < 2 ^ 32 \<Longrightarrow>
      uds_svc_transfer_data seq (Some d) (length d) (Some x, Some f) n (mk_out b 0 0) = Some (rc, st', out') \<Longrightarrow>
      fst st' \<noteq> None \<and> snd st' \<noteq> None"
  using request_download_safe_keeps [OF assms, of fmt d 0 0] request_upload_safe_keeps [OF assms, of fmt d 0 0]
    transfer_data_safe_keeps [OF _ assms, of d seq 0 0]
  by auto

lemma on_request_download_handled:
  assumes "ready sim n b"
  shows "handled (serves 0x34 sim) n b 0x34 (on_request_download sim req n (mk_out b 0 0))"
proof -
  from assms have inv: "flash_inv (sim_flash sim)" "xfer_inv (sim_flash sim) (sim_xfer sim)" "n \<le> length b"
    by (simp_all add: ready_def sim_inv_def)
  have "handled (serves 0x34 sim) n b 0x34 (call (put_transfer sim)
      (uds_svc_request_download fmt (Some d) (length d) (Some (sim_xfer sim), Some (sim_flash sim)) n (mk_out b 0 0)))" for fmt d
    using inv put_transfer_serves [OF assms] xfer_results(1) [OF inv]
    by (intro request_download_pos.handled_call) auto
  from this [of _ "drop 3 req"] assms show ?thesis
    unfolding on_request_download_def by (intro guarded) (simp_all add: mem_simps)
qed

lemma on_request_upload_handled:
  assumes "ready sim n b"
  shows "handled (serves 0x35 sim) n b 0x35 (on_request_upload sim req n (mk_out b 0 0))"
proof -
  from assms have inv: "flash_inv (sim_flash sim)" "xfer_inv (sim_flash sim) (sim_xfer sim)" "n \<le> length b"
    by (simp_all add: ready_def sim_inv_def)
  have "handled (serves 0x35 sim) n b 0x35 (call (put_transfer sim)
      (uds_svc_request_upload fmt (Some d) (length d) (Some (sim_xfer sim), Some (sim_flash sim)) n (mk_out b 0 0)))" for fmt d
  proof (rule request_upload_pos.handled_call)
    fix rc st' out'
    assume r: "uds_svc_request_upload fmt (Some d) (length d) (Some (sim_xfer sim), Some (sim_flash sim)) n (mk_out b 0 0) =
        Some (rc, st', out')" and "xfer_state_inv st'"
    with request_upload_flash [OF r] xfer_results(2) [OF inv r] show "serves 0x35 sim (put_transfer sim st')"
      by (intro put_transfer_serves [OF assms]) simp_all
  qed (use inv in simp_all)
  from this [of _ "drop 3 req"] assms show ?thesis
    unfolding on_request_upload_def by (intro guarded) (simp_all add: mem_simps)
qed

lemma on_transfer_data_handled:
  assumes "ready sim n b" "length req < 2 ^ 32"
  shows "handled (serves 0x36 sim) n b 0x36 (on_transfer_data sim req n (mk_out b 0 0))"
proof -
  from assms have inv: "flash_inv (sim_flash sim)" "xfer_inv (sim_flash sim) (sim_xfer sim)" "n \<le> length b"
    by (simp_all add: ready_def sim_inv_def)
  have "handled (serves 0x36 sim) n b 0x36 (call (put_transfer sim)
      (uds_svc_transfer_data seq (Some d) (length d) (Some (sim_xfer sim), Some (sim_flash sim)) n (mk_out b 0 0)))"
    if "length d < 2 ^ 32" for seq d
    using inv that put_transfer_serves [OF assms(1)] xfer_results(3) [OF inv that]
    by (intro transfer_data_pos.handled_call) auto
  from this [of "drop 2 req"] assms show ?thesis
    unfolding on_transfer_data_def by (intro guarded) (simp_all add: mem_simps)
qed

lemma on_transfer_exit_handled:
  assumes "ready sim n b"
  shows "handled (serves 0x37 sim) n b 0x37 (on_transfer_exit sim n (mk_out b 0 0))"
  unfolding on_transfer_exit_def using assms
  by (intro transfer_exit_pos.handled_call [where f = "sim_flash sim"])
     (simp_all add: ready_defs at_def ptr_inv_def split: option.splits)

lemma on_security_handled:
  assumes "ready sim n b"
  shows "handled (serves 0x27 sim) n b 0x27 (on_security clk rnd sim req n (mk_out b 0 0))"
proof -
  have seed: "handled (serves 0x27 sim) n b 0x27 (call (at put_security sim)
      (uds_core_sec_request_seed clk rnd sub (Some (sim_security sim)) n (mk_out b 0 0)))" for sub
    using assms by (intro request_seed_pos.handled_call) (auto simp: ready_defs dest!: request_seed_unlocked)
  have key: "handled (serves 0x27 sim) n b 0x27
      (do { (rc, p, out) \<leftarrow> uds_core_sec_send_key clk sub (Some key) (length key) (Some (sim_security sim)) n (mk_out b 0 0);
            Some (Inr (rc, (let sim = at put_security sim p in
               if rc = UDS_CORE_OK
               then sim\<lparr>sim_session := (sim_session sim)\<lparr>security_level := unlocked_level (sim_security sim)\<rparr>\<rparr>
               else sim), out)) })"
    if "key \<noteq> []" for sub key
  proof -
    from that obtain k ks where "key = k # ks" by (cases key) auto
    then have "uds_core_sec_send_key clk sub (Some key) (length key) = uds_core_sec_send_key clk sub (Some (k # ks)) (Suc (length ks))"
      by simp
    then show ?thesis using assms by (simp only:) (intro send_key_pos.handled_then, auto simp: ready_defs Let_def dest!: send_key_unlocked)
  qed
  show ?thesis
    unfolding on_security_def
    by (intro guarded [OF assms])
       (use assms seed key [of "drop 2 req"] in \<open>auto simp: mem_simps Let_def UDS_CORE_SEED_LEN_def handled_reject serves_refl ready_def\<close>)
qed

section \<open>The whole dispatcher\<close>

lemma dispatch_switch_handled:
  assumes "ready sim n b" "length req < 2 ^ 32"
  shows "handled (serves sid sim) n b sid (dispatch_switch clk rnd sim sid req n (mk_out b 0 0))"
proof -
  note r = assms(1)
  have "handled (serves sid sim) n b sid (reject sid k sim (mk_out b 0 0))" for k
    using r by (intro handled_reject) (simp_all add: ready_def serves_refl)
  then show ?thesis
    unfolding dispatch_switch_def
    by (simp add: on_dsc_handled [OF r] on_tester_present_handled [OF r] on_security_handled [OF r]
        on_read_did_handled [OF r] on_write_did_handled [OF r] on_ecu_reset_handled [OF r]
        on_comm_control_handled [OF r] on_clear_dtc_handled [OF r] on_read_dtc_handled [OF r]
        on_request_download_handled [OF r] on_request_upload_handled [OF r]
        on_transfer_data_handled [OF assms] on_transfer_exit_handled [OF r])
qed

lemma dispatch_ok:
  assumes "sim_inv sim" "req \<noteq> []" "length req < 2 ^ 32" "3 \<le> n" "n \<le> length b"
  obtains sim' b' l where "ecusim_dispatch clk rnd sim req b n = Some (sim', b', l)" "serves (hd req) sim sim'"
    "length b' = length b" "l \<le> n" "answered (hd req) b' l"
proof -
  from assms(2) obtain sid rest where [simp]: "req = sid # rest" by (cases req) auto
  from assms have "ready sim n b" by (simp add: ready_def)
  from dispatch_switch_handled [OF this assms(3), where sid = sid]
  have "handled (serves sid sim) n b sid (dispatch_switch clk rnd sim sid (sid # rest) n (mk_out b 0 0))" by simp
  from dispatch_handled [OF this assms(4,5)] that show thesis by auto
qed

section \<open>Requests that are answered\<close>

text \<open>
  \<open>talks r\<close>: the flow \<open>r\<close> leaves something to send. With a response buffer of six bytes or more, a request
  can only stay without an answer when it is a suppressed TesterPresent, when the records it asks for may
  exceed the buffer, or when it is a block of a transfer that brings no data or does not fit.
\<close>

definition talks :: "flow \<Rightarrow> bool" where
  "talks r \<longleftrightarrow> (\<forall>q. r = Some q \<longrightarrow>
     (case q of Inl (sim, out) \<Rightarrow> o_len out \<noteq> Some 0
      | Inr (rc, sim, out) \<Rightarrow> if rc = UDS_CORE_OK then o_len out \<noteq> Some 0 else o_nrc out \<noteq> Some 0))"

fun did_args :: "u8 list \<Rightarrow> u16 list" where
  "did_args (h # l # rest) = be16 h l # did_args rest"
| "did_args _ = []"

definition may_stay_silent :: "EcuSimulator \<Rightarrow> u8 list \<Rightarrow> nat \<Rightarrow> bool" where
  "may_stay_silent sim req n \<longleftrightarrow> n < 6 \<or>
     (case req of [] \<Rightarrow> True
      | sid # args \<Rightarrow>
          if sid = 0x3E then args \<noteq> [] \<and> hd args = 0x80
          else if sid = 0x22 then n < 1 + sum_list (map (did_size (sim_did_reg sim)) (did_args args))
          else if sid = 0x19 then n < 3 + 4 * dtc_count (sim_dtc_reg sim)
          else if sid = 0x36 then quiet_block (length args - 1) (Some (sim_xfer sim), Some (sim_flash sim)) n
          else False)"

lemma fill_did_list_args:
  "length args = 2 * (i + k) \<Longrightarrow> fill_did_list (Some (sid # args)) k i = Some (did_args (drop (2 * i) args))"
proof (induction k arbitrary: i)
  case (Suc k)
  then have "drop (2 * i) args = args ! (2 * i) # args ! Suc (2 * i) # drop (2 * Suc i) args"
    by (simp add: Cons_nth_drop_Suc)
  with Suc show ?case by (simp add: mem_simps mult.commute [of i])
qed simp

named_theorems talks_intros "rules for talks"

lemma talks_reject [talks_intros]: "talks (reject sid k sim out)"
  by (auto simp: talks_def reject_def build_nrc_def set_resp_len_def Option.bind_eq_Some_conv)

lemma talks_if [talks_intros]: "(c \<Longrightarrow> talks p) \<Longrightarrow> (\<not> c \<Longrightarrow> talks q) \<Longrightarrow> talks (if c then p else q)"
  by simp

lemma talks_bind [talks_intros]: "(\<And>y. m = Some y \<Longrightarrow> talks (f y)) \<Longrightarrow> talks (m \<bind> f)"
  by (cases m) (simp_all add: talks_def)

context answering_service
begin

lemma talks_then:
  assumes "inv s" "n \<le> length b" "\<not> quiet s n"
  shows "talks (do { (rc, s', out) \<leftarrow> svc s n (mk_out b 0 0); Some (Inr (rc, upd rc s', out)) })"
  using speaks [OF assms] by (auto simp: talks_def speaks_def Option.bind_eq_Some_conv)

lemma talks_call:
  assumes "inv s" "n \<le> length b" "\<not> quiet s n"
  shows "talks (call upd (svc s n (mk_out b 0 0)))"
  unfolding call_def by (rule talks_then [OF assms])

end

lemma dispatch_talks:
  assumes "talks (dispatch_switch clk rnd sim sid (sid # rest) n (mk_out b 0 0))"
    and "ecusim_dispatch clk rnd sim (sid # rest) b n = Some (sim', b', l)"
  shows "0 < l"
  using assms
  by (fastforce simp: talks_def ecusim_dispatch_def mem_simps build_nrc_def set_resp_len_def Option.bind_eq_Some_conv
      split: sum.splits prod.splits if_splits)

lemma on_services_talk:
  assumes "ready sim n b" "6 \<le> n"
  shows "talks (on_dsc clk sim req n (mk_out b 0 0))" "talks (on_ecu_reset clk sim req n (mk_out b 0 0))"
    "talks (on_comm_control sim req n (mk_out b 0 0))" "talks (on_clear_dtc sim req n (mk_out b 0 0))"
    "talks (on_write_did sim req n (mk_out b 0 0))" "talks (on_request_download sim req n (mk_out b 0 0))"
    "talks (on_request_upload sim req n (mk_out b 0 0))" "talks (on_transfer_exit sim n (mk_out b 0 0))"
proof -
  from assms have n: "n \<le> length b" "sec_inv (sim_security sim)" "did_reg_inv (sim_did_reg sim)" "dtc_reg_inv (sim_dtc_reg sim)"
    "flash_inv (sim_flash sim)" "xfer_inv (sim_flash sim) (sim_xfer sim)"
    by (simp_all add: ready_def sim_inv_def)
  have drop: "length req - k = length (drop k req)" for k by simp
  note go = talks_intros dsc_speaks.talks_call ecu_reset_speaks.talks_then comm_control_speaks.talks_call
    clear_dtc_speaks.talks_call write_did_speaks.talks_call request_download_speaks.talks_call
    request_upload_speaks.talks_call transfer_exit_speaks.talks_call [where f = "sim_flash sim"]
  show "talks (on_dsc clk sim req n (mk_out b 0 0))"
    unfolding on_dsc_def by (rule go | (use n assms(2) in simp; fail))+
  show "talks (on_ecu_reset clk sim req n (mk_out b 0 0))"
    unfolding on_ecu_reset_def Let_def by (rule go | (use n assms(2) in simp; fail))+
  show "talks (on_comm_control sim req n (mk_out b 0 0))"
    unfolding on_comm_control_def by (rule go | (use n assms(2) in simp; fail))+
  show "talks (on_clear_dtc sim req n (mk_out b 0 0))"
    unfolding on_clear_dtc_def Let_def by (rule go | (use n assms(2) in simp; fail))+
  show "talks (on_write_did sim req n (mk_out b 0 0))"
    unfolding on_write_did_def Let_def drop by (rule go | (use n assms(2) in simp; fail))+
  show "talks (on_request_download sim req n (mk_out b 0 0))"
    unfolding on_request_download_def drop by (rule go | (use n assms(2) in simp; fail))+
  show "talks (on_request_upload sim req n (mk_out b 0 0))"
    unfolding on_request_upload_def drop by (rule go | (use n assms(2) in simp; fail))+
  show "talks (on_transfer_exit sim n (mk_out b 0 0))"
    unfolding on_transfer_exit_def by (rule go | (use n assms(2) in simp; fail))+
qed


lemma on_tester_present_talks:
  assumes "ready sim n b" "6 \<le> n" "\<not> (tl req \<noteq> [] \<and> hd (tl req) = 0x80)"
  shows "talks (on_tester_present clk sim req n (mk_out b 0 0))"
proof -
  have "mem_get (Some req) 1 = Some v \<Longrightarrow> \<not> length req < 2 \<Longrightarrow> v \<noteq> 0x80" for v
    using assms(3) by (cases req; cases "tl req") (auto simp: mem_get_def)
  then show ?thesis
    unfolding on_tester_present_def using assms(1,2)
    by (intro talks_intros tester_present_speaks.talks_call) (simp_all add: ready_def)
qed

lemma on_security_talks:
  assumes "ready sim n b" "6 \<le> n"
  shows "talks (on_security clk rnd sim req n (mk_out b 0 0))"
proof -
  from assms(1) have n: "n \<le> length b" "sec_inv (sim_security sim)" by (simp_all add: ready_def sim_inv_def)
  have seed: "talks (call (at put_security sim) (uds_core_sec_request_seed clk rnd sub (Some (sim_security sim)) n (mk_out b 0 0)))" for sub
    using n assms(2) by (intro request_seed_speaks.talks_call) simp_all
  have key: "talks (do { (rc, p, out) \<leftarrow> uds_core_sec_send_key clk sub (Some key) (length key) (Some (sim_security sim)) n (mk_out b 0 0);
        Some (Inr (rc, f rc p, out)) })" if "key \<noteq> []" for sub key f
  proof -
    from that obtain k ks where k: "key = k # ks" by (cases key) auto
    show ?thesis
      using send_key_speaks.talks_then [of "Some (sim_security sim)" n b clk sub k ks f] n assms(2) unfolding k by simp
  qed
  have drop: "length req - 2 = length (drop 2 req)" by simp
  show ?thesis
    unfolding on_security_def Let_def drop
    by (intro talks_intros seed key) (simp add: UDS_CORE_SEED_LEN_def)
qed

lemma on_read_did_talks:
  assumes "ready sim n b" "1 + sum_list (map (did_size (sim_did_reg sim)) (did_args args)) \<le> n"
  shows "talks (on_read_did sim (sid # args) n (mk_out b 0 0))"
proof -
  from assms(1) have n: "n \<le> length b" "did_reg_inv (sim_did_reg sim)" by (simp_all add: ready_def sim_inv_def)
  have "talks (do { dl \<leftarrow> fill_did_list (Some (sid # args)) (length args div 2) 0;
      call (at put_dids sim) (uds_svc_read_did (Some dl) (length args div 2) (Some (sim_did_reg sim)) n (mk_out b 0 0)) })"
    if even: "length args mod 2 = 0" "2 \<le> length args"
  proof -
    have fill: "fill_did_list (Some (sid # args)) (length args div 2) 0 = Some (did_args args)"
      using fill_did_list_args [of args 0 "length args div 2" sid] even by auto
    with fill_did_list_total [of 0 "length args div 2" "sid # args"] even have len: "length (did_args args) = length args div 2" by auto
    with even obtain d dl where dl: "did_args args = d # dl" by (cases "did_args args") auto
    have "talks (call (at put_dids sim) (uds_svc_read_did (Some (did_args args)) (length args div 2) (Some (sim_did_reg sim)) n (mk_out b 0 0)))"
      using read_did_speaks.talks_call [of "Some (sim_did_reg sim)" n b d dl "at put_dids sim"] n assms(2)
      unfolding len [symmetric] by (simp add: dl)
    then show ?thesis by (simp only: fill Option.bind.bind_lunit)
  qed
  then show ?thesis unfolding on_read_did_def Let_def by (intro talks_if talks_reject) auto
qed

lemma on_read_dtc_talks:
  assumes "ready sim n b" "6 \<le> n" "3 + 4 * dtc_count (sim_dtc_reg sim) \<le> n"
  shows "talks (on_read_dtc sim req n (mk_out b 0 0))"
proof -
  from assms(1) have n: "n \<le> length b" "dtc_reg_inv (sim_dtc_reg sim)" by (simp_all add: ready_def sim_inv_def)
  have call: "talks (call (at put_dtcs sim) (uds_svc_read_dtc sub (Some d) (length d) (Some (sim_dtc_reg sim)) n (mk_out b 0 0)))" for sub d
    using n assms(2,3) by (intro read_dtc_speaks.talks_call) simp_all
  have "talks (call (at put_dtcs sim) (uds_svc_read_dtc sub (if length req > 2 then Some (drop 2 req) else None)
      (if length req > 2 then length req - 2 else 0) (Some (sim_dtc_reg sim)) n (mk_out b 0 0)))" for sub
    using call [of sub "drop 2 req"] call [of sub "[]"] by (simp add: read_dtc_no_data)
  then show ?thesis unfolding on_read_dtc_def Let_def by (intro talks_intros)
qed

lemma on_transfer_data_talks:
  assumes "ready sim n b" "length req < 2 ^ 32" "\<not> quiet_block (length req - 2) (Some (sim_xfer sim), Some (sim_flash sim)) n"
  shows "talks (on_transfer_data sim req n (mk_out b 0 0))"
proof -
  from assms(1) have inv: "flash_inv (sim_flash sim)" "xfer_inv (sim_flash sim) (sim_xfer sim)" "n \<le> length b"
    by (simp_all add: ready_def sim_inv_def)
  have drop: "length req - 2 = length (drop 2 req)" by simp
  show ?thesis
    unfolding on_transfer_data_def drop
    by (intro talks_intros transfer_data_speaks.talks_call) (use assms inv in \<open>simp_all\<close>)
qed

lemma dispatch_switch_talks:
  assumes "ready sim n b" "length (sid # args) < 2 ^ 32" "\<not> may_stay_silent sim (sid # args) n"
  shows "talks (dispatch_switch clk rnd sim sid (sid # args) n (mk_out b 0 0))"
proof -
  from assms(3) have n: "6 \<le> n" by (simp add: may_stay_silent_def)
  note r = assms(1)
  show ?thesis
    unfolding dispatch_switch_def using assms(3) n
    by (intro talks_intros on_services_talk [OF r n] on_tester_present_talks [OF r n] on_security_talks [OF r n]
        on_read_did_talks [OF r] on_read_dtc_talks [OF r n] on_transfer_data_talks [OF r assms(2)])
      (auto simp: may_stay_silent_def)
qed

lemma dispatch_answers:
  assumes "sim_inv sim" "length req < 2 ^ 32" "n \<le> length b" "\<not> may_stay_silent sim req n"
    and "ecusim_dispatch clk rnd sim req b n = Some (sim', b', l)"
  shows "0 < l"
proof -
  from assms(4) obtain sid args where req: "req = sid # args" "6 \<le> n" by (cases req) (auto simp: may_stay_silent_def)
  with assms(1,3) have "ready sim n b" by (simp add: ready_def)
  from dispatch_switch_talks [OF this] assms(2,4) dispatch_talks assms(5) show ?thesis unfolding req(1) by metis
qed

section \<open>A simulator at the start\<close>

text \<open>
  What \<open>ecusim_init\<close> leaves behind for ECU \<open>eid\<close> on descriptor \<open>s\<close> (shown in \<open>EcuRun\<close>): default
  session, locked, the default data, an erased flash of one region, no transfer.
\<close>

definition boot_sim :: "timespec \<Rightarrow> u8 \<Rightarrow> int \<Rightarrow> EcuSimulator" where
  "boot_sim now eid s =
     \<lparr>sim_sock = \<lparr>fd = s\<rparr>, sim_ecu_id = eid, sim_req_can_id = uds_can_req_id eid, sim_resp_can_id = uds_can_resp_id eid,
      sim_session = \<lparr>ecu_id = eid, sess_type = UDS_SESSION_DEFAULT, cfg = UDS_CORE_SESSION_DEFAULT_CONFIG,
        security_level = 0, last_activity = now\<rparr>,
      sim_security = zero_security,
      sim_did_reg = \<lparr>did_entries = Some (default_dids @ replicate 11 zero_did), did_count = 5\<rparr>, sim_did_count = 5,
      sim_dtc_reg = \<lparr>dtc_entries = Some (default_dtcs @ replicate 6 zero_dtc), dtc_count = 2\<rparr>, sim_dtc_count = 2,
      sim_flash = \<lparr>fl_data = patch 0 (replicate UDS_FLASH_MAX_SIZE UDS_FLASH_ERASE_VALUE) (\<lambda>_. 0),
        fl_regions = \<lparr>base_address = 0, rg_size = 262144, protected = False\<rparr> #
          replicate 7 \<lparr>base_address = 0, rg_size = 0, protected = False\<rparr>,
        region_count = 1, initialized = True\<rparr>,
      sim_xfer = zero_xfer, sim_running = 1, sim_verbose = False\<rparr>"

lemma default_did_wf: "length content \<le> 32 \<Longrightarrow> did_entry_wf (default_did d content wr sec)"
  by (simp add: did_entry_wf_def default_did_def)

lemma default_dids_wf: "e \<in> set default_dids \<Longrightarrow> did_entry_wf e"
  by (auto simp: default_dids_def ascii_def intro!: default_did_wf)

lemma boot_sim_inv: "sim_inv (boot_sim now eid s)"
proof -
  have "did_entry_wf zero_did" by (simp add: did_entry_wf_def zero_did_def)
  then have "did_reg_inv (sim_did_reg (boot_sim now eid s))"
    using default_dids_wf by (auto simp: boot_sim_def did_reg_inv_def default_dids_def)
  then show ?thesis
    by (simp add: sim_inv_def boot_sim_def dtc_reg_inv_def default_dtcs_def flash_inv_def regions_of_def
        UDS_FLASH_MAX_SIZE_def)
qed

section \<open>Properties\<close>

text \<open>
  C6. The dispatcher is safe, and what it says is well formed. On a simulator that satisfies its
  invariant, for any request (of any length, any content, any reading of the clock and of
  \<open>rand()\<close>) and any response buffer with room for a negative response, it performs no access
  outside of the request, the response buffer or the data of the ECU; the invariant holds
  afterwards; an answer fits the buffer and is a negative response \<open>7F sid nrc\<close> with a non-zero
  code, or starts with \<open>sid + 0x40\<close>; and a service changes only the part of the simulator that
  belongs to it. There is an answer to every request, except to those of \<open>may_stay_silent\<close>: the empty
  request, a TesterPresent with the suppress bit, a request for data identifiers or trouble codes
  whose records may not fit the buffer, a TransferData block that brings no data to a download or
  does not fit on an upload, and any request when the buffer has less than six bytes.
\<close>

theorem dispatch_safe:
  assumes "sim_inv sim" "length req < 2 ^ 32" "3 \<le> n" "n \<le> length b"
  shows "\<exists>sim' b' l. ecusim_dispatch clk rnd sim req b n = Some (sim', b', l) \<and>
    sim_inv sim' \<and> length b' = length b \<and> l \<le> n \<and>
    (req = [] \<longrightarrow> l = 0 \<and> sim' = sim) \<and>
    (req \<noteq> [] \<longrightarrow> answered (hd req) b' l \<and> owns (hd req) sim sim') \<and>
    (\<not> may_stay_silent sim req n \<longrightarrow> 0 < l)"
proof (cases "req = []")
  case True
  with assms show ?thesis by (simp add: ecusim_dispatch_def may_stay_silent_def)
next
  case False
  with assms dispatch_answers [OF assms(1,2,4), of clk rnd] show ?thesis
    by (rule_tac dispatch_ok [of sim req n b clk rnd]) (auto simp: serves_def)
qed

theorem dispatch_safe_witness:
  "\<exists>sim' b' l. ecusim_dispatch (\<lambda>_. \<lparr>tv_sec = 0, tv_nsec = 0\<rparr>) (\<lambda>_. 0) (boot_sim \<lparr>tv_sec = 0, tv_nsec = 0\<rparr> 1 3)
      [0x22, 0xF1, 0x90] (replicate 4095 0) 4095 = Some (sim', b', l) \<and> sim_inv sim' \<and> answered 0x22 b' l \<and> 0 < l"
proof -
  have "\<not> may_stay_silent (boot_sim \<lparr>tv_sec = 0, tv_nsec = 0\<rparr> 1 3) [0x22, 0xF1, 0x90] 4095"
    by (simp add: may_stay_silent_def did_size_def did_lookup_def boot_sim_def default_dids_def default_did_def
        default_ids ascii_def be16_def)
  then show ?thesis
    using dispatch_safe [OF boot_sim_inv, where req = "[0x22, 0xF1, 0x90]" and n = 4095 and b = "replicate 4095 0"]
    by simp metis
qed

text \<open>The shortest request of each service, by its identifier.\<close>

definition min_request :: "u8 \<Rightarrow> nat option" where
  "min_request sid = map_of [(0x10, 2), (0x3E, 2), (0x27, 2), (0x22, 3), (0x2E, 4), (0x11, 2), (0x28, 3),
     (0x14, 4), (0x19, 2), (0x34, 3), (0x35, 3), (0x36, 2), (0x37, 1)] sid"

text \<open>
  C34. Requests that reach no service. A service identifier the simulator does not implement is
  answered \<open>7F sid 11\<close> (serviceNotSupported), a request that is shorter than its service needs
  \<open>7F sid 13\<close> (incorrectMessageLengthOrInvalidFormat); in both cases nothing of the simulator
  changes and the rest of the response buffer is untouched.
\<close>

theorem dispatch_refuses:
  assumes "req \<noteq> []" "3 \<le> length b"
    and "case min_request (hd req) of None \<Rightarrow> nrc = 0x11 | Some m \<Rightarrow> length req < m \<and> nrc = 0x13"
  shows "ecusim_dispatch clk rnd sim req b n = Some (sim, [0x7F, hd req, nrc] @ drop 3 b, 3)"
proof -
  from assms(1) obtain sid rest where req: "req = sid # rest" by (cases req) auto
  have drop3: "drop (Suc (Suc (Suc 0))) b = drop 3 b" by (simp add: numeral_3_eq_3)
  have "dispatch_switch clk rnd sim sid req n (mk_out b 0 0) =
      Some (Inl (sim, mk_out ([0x7F, sid, nrc] @ drop 3 b) 3 0))"
    using assms(2,3) unfolding req min_request_def dispatch_switch_def
    by (auto simp: reject_def build_nrc_mk splice_def drop3 on_dsc_def on_tester_present_def on_security_def
        on_read_did_def on_write_did_def on_ecu_reset_def on_comm_control_def on_clear_dtc_def
        on_read_dtc_def on_request_download_def on_request_upload_def on_transfer_data_def split: if_splits)
  then show ?thesis by (simp add: ecusim_dispatch_def req mem_simps)
qed

theorem dispatch_refuses_witness:
  "ecusim_dispatch (\<lambda>_. \<lparr>tv_sec = 0, tv_nsec = 0\<rparr>) (\<lambda>_. 0) (boot_sim \<lparr>tv_sec = 0, tv_nsec = 0\<rparr> 1 3)
      [0x2E, 0xF1, 0x90] [0, 0, 0, 9] 4 =
    Some (boot_sim \<lparr>tv_sec = 0, tv_nsec = 0\<rparr> 1 3, [0x7F, 0x2E, 0x13, 9], 3)"
  by (subst dispatch_refuses [where nrc = "0x13"]) (simp_all add: min_request_def)

end
