(* ===== verification/EcuTrace.thy ===== *)
theory EcuTrace
  imports Dispatch
begin

text \<open>
  The ECU simulator over whole conversations: what a request can do to the data identifiers and to
  the security state, and what an attacker or a tester sees over a sequence of requests. A run is an
  inductive relation over the exchanges (request and response) of \<open>ecusim_dispatch\<close>.
\<close>

section \<open>One exchange\<close>

lemma dispatch_result:
  assumes "ecusim_dispatch clk rnd sim (sid # rest) b n = Some (sim', b', l)"
  obtains (returned) out where
      "dispatch_switch clk rnd sim sid (sid # rest) n (mk_out b 0 0) = Some (Inl (sim', out))"
  | (ok) c where
      "dispatch_switch clk rnd sim sid (sid # rest) n (mk_out b 0 0) = Some (Inr (UDS_CORE_OK, sim', mk_out b' l c))"
  | (failed) rc out where
      "dispatch_switch clk rnd sim sid (sid # rest) n (mk_out b 0 0) = Some (Inr (rc, sim', out))" "rc \<noteq> UDS_CORE_OK"
proof -
  have mk: "o_resp out = Some b' \<Longrightarrow> o_len out = Some l \<Longrightarrow> o_nrc out = Some c \<Longrightarrow> out = mk_out b' l c" for out c
    by (simp add: mk_out_def)
  obtain r where r: "dispatch_switch clk rnd sim sid (sid # rest) n (mk_out b 0 0) = Some r"
    using assms by (cases "dispatch_switch clk rnd sim sid (sid # rest) n (mk_out b 0 0)")
      (simp_all add: ecusim_dispatch_def mem_simps)
  show thesis
  proof (cases r)
    case (Inl p)
    then obtain s out where [simp]: "r = Inl (s, out)" by (cases p) simp
    from assms r have "sim' = s" by (auto simp: ecusim_dispatch_def mem_simps Option.bind_eq_Some_conv)
    with r returned show thesis by simp
  next
    case (Inr p)
    then obtain rc s out where "r = Inr (rc, s, out)" by (cases p) auto
    with assms r have "sim' = s" "rc = UDS_CORE_OK \<Longrightarrow> \<exists>c. out = mk_out b' l c"
      by (auto simp: ecusim_dispatch_def mem_simps Option.bind_eq_Some_conv split: if_splits intro: mk)
    with r \<open>r = Inr (rc, s, out)\<close> ok failed show thesis by (cases "rc = UDS_CORE_OK") auto
  qed
qed


lemma dispatch_step:
  assumes "sim_inv sim" "length req < 2 ^ 32" "3 \<le> n" "n \<le> length b"
    "ecusim_dispatch clk rnd sim req b n = Some (sim', b', l)"
  shows "sim_inv sim'" "req = [] \<longrightarrow> sim' = sim" "req \<noteq> [] \<longrightarrow> owns (hd req) sim sim'" "l \<le> length b'"
    "length b' = length b"
proof -
  have "sim_inv sim' \<and> (req = [] \<longrightarrow> sim' = sim) \<and> (req \<noteq> [] \<longrightarrow> owns (hd req) sim sim') \<and> l \<le> length b' \<and>
      length b' = length b"
  proof (cases "req = []")
    case True
    with assms show ?thesis by (simp add: ecusim_dispatch_def)
  next
    case False
    from dispatch_ok [OF assms(1) False assms(2-4), of clk rnd] obtain sim1 b1 l1 where
      1: "ecusim_dispatch clk rnd sim req b n = Some (sim1, b1, l1)" "serves (hd req) sim sim1"
        "length b1 = length b" "l1 \<le> n" by blast
    from 1(1) assms(5) have "sim1 = sim'" "b1 = b'" "l1 = l" by simp_all
    with 1(2-4) False assms(4) show ?thesis unfolding serves_def by simp
  qed
  then show "sim_inv sim'" "req = [] \<longrightarrow> sim' = sim" "req \<noteq> [] \<longrightarrow> owns (hd req) sim sim'" "l \<le> length b'"
    "length b' = length b"
    by simp_all
qed

section \<open>Writing a data identifier\<close>

lemma on_write_did_cases:
  assumes "sim_inv sim" "n \<le> length b" "on_write_did sim req n (mk_out b 0 0) = Some r"
  obtains (kept) out where "r = Inl (sim, out)"
  | (refused) rc out where "r = Inr (rc, sim, out)"
  | (granted) e did sim' out where "r = Inr (UDS_CORE_OK, sim', out)" "4 \<le> length req"
      "did = be16 (req ! 1) (req ! 2)" "did_lookup (sim_did_reg sim) did = Some e"
      "write_granted e (session_code (sess_type (sim_session sim)))
         (uds_core_sec_is_unlocked (Some (sim_security sim)) 1) (length req - 3)"
      "did_lookup (sim_did_reg sim') = (did_lookup (sim_did_reg sim))(did \<mapsto> written e (drop 3 req))"
proof (cases "length req < 4")
  case True
  with assms(3) kept show thesis by (auto simp: on_write_did_def reject_def Option.bind_eq_Some_conv)
next
  case False
  define did where "did = be16 (req ! 1) (req ! 2)"
  define sec where "sec = uds_core_sec_is_unlocked (Some (sim_security sim)) 1"
  define s where "s = session_code (sess_type (sim_session sim))"
  have eq: "on_write_did sim req n (mk_out b 0 0) = call (at put_dids sim)
      (uds_svc_write_did did (Some (drop 3 req)) (length (drop 3 req)) s sec (Some (sim_did_reg sim)) n (mk_out b 0 0))"
    using False by (simp add: on_write_did_def mem_simps did_def sec_def s_def)
  have same: "put_dids (sim_did_reg sim) sim = sim" by simp
  from assms(1) have "did_reg_inv (sim_did_reg sim)" by (simp add: sim_inv_def)
  from this assms(2) show thesis
  proof (cases rule: write_did_cases [where did = did and dl = "drop 3 req" and sess = s and unlocked = sec and l = 0 and c = 0])
    case refused
    with assms(3) that(2) show thesis by (auto simp: eq call_def)
  next
    case (granted e reg')
    with assms(3) False that(3) [OF _ _ did_def] show thesis
      by (auto simp: eq call_def sec_def s_def)
  qed
qed

lemma dispatch_did_change:
  assumes "sim_inv sim" "length req < 2 ^ 32" "3 \<le> n" "n \<le> length b"
    and "ecusim_dispatch clk rnd sim req b n = Some (sim', b', l)"
    and "did_lookup (sim_did_reg sim') d \<noteq> did_lookup (sim_did_reg sim) d"
  shows "\<exists>e. 4 \<le> length req \<and> hd req = 0x2E \<and> d = be16 (req ! 1) (req ! 2) \<and>
    did_lookup (sim_did_reg sim) d = Some e \<and> writable e \<and>
    min_write_session e \<le> session_code (sess_type (sim_session sim)) \<and>
    (requires_security e \<longrightarrow> uds_core_sec_is_unlocked (Some (sim_security sim)) 1) \<and>
    length req - 3 = data_len e \<and>
    did_lookup (sim_did_reg sim') = (did_lookup (sim_did_reg sim))(d \<mapsto> written e (drop 3 req))"
proof -
  from dispatch_step(2) [OF assms(1-5)] assms(6) have ne: "req \<noteq> []" by blast
  with dispatch_step(3) [OF assms(1-5)] have "owns (hd req) sim sim'" by blast
  then have sid: "hd req = 0x2E" using assms(6) unfolding owns_def by metis
  with ne obtain rest where req: "req = 0x2E # rest" by (cases req) auto
  from assms(5) have d: "ecusim_dispatch clk rnd sim (0x2E # rest) b n = Some (sim', b', l)" by (simp add: req)
  have switch: "dispatch_switch clk rnd sim 0x2E (0x2E # rest) n out = on_write_did sim req n out" for out
    by (simp add: dispatch_switch_def req)
  from d obtain r where r: "on_write_did sim req n (mk_out b 0 0) = Some r" "\<exists>out rc. r = Inl (sim', out) \<or> r = Inr (rc, sim', out)"
    by (cases rule: dispatch_result) (auto simp: switch)
  from assms(1,4) r(1) show ?thesis
  proof (cases rule: on_write_did_cases)
    case (granted e did sim1 out)
    with r(2) assms(6) sid show ?thesis by (auto simp: write_granted_def split: if_splits)
  qed (use r(2) assms(6) in auto)
qed

section \<open>Seeds and keys\<close>

lemma check_locked_kept:
  "check_locked t sec = (r, sec') \<Longrightarrow> seed sec' = seed sec \<and> seed_valid sec' = seed_valid sec \<and>
     pending_level sec' = pending_level sec \<and> unlocked_level sec' = unlocked_level sec"
  by (auto simp: check_locked_def Let_def split: if_splits)

text \<open>No new challenge and no new level.\<close>

definition no_grant :: "UdsCoreSecurity \<Rightarrow> UdsCoreSecurity \<Rightarrow> bool" where
  "no_grant sec sec' \<longleftrightarrow> (seed_valid sec' \<longrightarrow> seed_valid sec \<and> seed sec' = seed sec \<and> pending_level sec' = pending_level sec) \<and>
     (unlocked_level sec' = unlocked_level sec \<or> unlocked_level sec' = 0)"

lemma no_grant_refl [simp]: "no_grant sec sec"
  by (simp add: no_grant_def)

lemma no_grant_zero [simp]: "no_grant sec zero_security"
  by (simp add: no_grant_def zero_security_def)

lemma request_seed_out:
  assumes "n \<le> length b" "uds_core_sec_request_seed clk rnd sub (Some sec) n (mk_out b 0 0) = Some (rc, p, out)"
  obtains (kept) sec' where "p = Some sec'" "no_grant sec sec'"
  | (issued) sec' b' l where "p = Some sec'" "rc = UDS_CORE_OK" "out = mk_out b' l 0"
      "take l b' = [0x67, sub] @ seed sec'" "pending_level sec' = sub" "unlocked_level sec' = unlocked_level sec"
proof (cases "sub AND 1 \<noteq> 0 \<and> 6 \<le> n")
  case False
  with assms(2) kept show thesis
    by (auto simp: uds_core_sec_request_seed_def UDS_CORE_SEED_LEN_def mem_simps split: if_splits)
next
  case True
  obtain r x where r: "check_locked (clk 0) sec = (r, x)" by (cases "check_locked (clk 0) sec")
  have eq: "uds_core_sec_request_seed clk rnd sub (Some sec) n (mk_out b 0 0) =
    (if r then ret_nrc UDS_NRC_EXCEEDED_NUMBER_OF_ATTEMPTS (Some x) (mk_out b 0 0)
     else if unlocked_level x = sub then ret_ok [0x67, sub, 0, 0, 0, 0] (Some x) (mk_out b 0 0)
     else ret_ok (0x67 # sub # map (\<lambda>i. word_of_int (rnd i)) [0 ..< UDS_CORE_SEED_LEN])
       (Some (x\<lparr>seed := map (\<lambda>i. word_of_int (rnd i)) [0 ..< UDS_CORE_SEED_LEN], seed_valid := True,
          pending_level := sub, seed_ts := clk 1\<rparr>)) (mk_out b 0 0))"
    using request_seed_eq [OF assms(1) True [THEN conjunct2] True [THEN conjunct1], of clk rnd sec 0 0] by (simp add: r Let_def)
  from check_locked_kept [OF r] have x: "no_grant sec x" "unlocked_level x = unlocked_level sec"
    by (simp_all add: no_grant_def)
  show thesis
  proof (cases "r \<or> unlocked_level x = sub")
    case True
    with assms \<open>sub AND 1 \<noteq> 0 \<and> 6 \<le> n\<close> kept [OF _ x(1)] show thesis
      by (auto simp: eq mem_simps split: if_splits)
  next
    case False
    let ?s = "map (\<lambda>i. word_of_int (rnd i)) [0 ..< UDS_CORE_SEED_LEN] :: u8 list"
    let ?x = "x\<lparr>seed := ?s, seed_valid := True, pending_level := sub, seed_ts := clk 1\<rparr>"
    have len: "length (0x67 # sub # ?s) \<le> length b" using assms(1) True by (simp add: UDS_CORE_SEED_LEN_def)
    from assms(2) False have res: "p = Some ?x" "rc = UDS_CORE_OK"
      "out = mk_out (splice 0 (0x67 # sub # ?s) b) (length (0x67 # sub # ?s)) 0"
      unfolding eq ret_ok_mk [OF len] by auto
    have "take (length (0x67 # sub # ?s)) (splice 0 (0x67 # sub # ?s) b) = [0x67, sub] @ seed ?x"
      by (subst take_splice0) simp
    from issued [OF res this] x(2) show thesis by simp
  qed
qed

lemma send_key_out:
  assumes "sec_inv sec" "key \<noteq> []" "n \<le> length b"
    "uds_core_sec_send_key clk sub (Some key) (length key) (Some sec) n (mk_out b 0 0) = Some (rc, p, out)"
  obtains (kept) sec' where "p = Some sec'" "no_grant sec sec'" "rc \<noteq> UDS_CORE_OK"
  | (granted) sec' b' l where "p = Some sec'" "rc = UDS_CORE_OK" "out = mk_out b' l 0" "take l b' = [0x67, sub]"
      "seed_valid sec" "pending_level sec = sub - 1" "key = xor_key (seed sec)" "\<not> seed_valid sec'"
      "unlocked_level sec' = sub - 1"
proof (cases "sub = 0 \<or> sub AND 1 \<noteq> 0 \<or> n < 2")
  case True
  from assms(2) have "0 < length key" by simp
  from send_key_early [OF this True, of clk key sec b 0 0] assms(4) kept show thesis
    by (auto simp: mem_simps split: if_splits)
next
  case False
  then have sub: "sub \<noteq> 0" "sub AND 1 = 0" "2 \<le> n" by auto
  obtain r x where r: "check_locked (clk 0) sec = (r, x)" by (cases "check_locked (clk 0) sec")
  from check_locked_kept [OF r] have x: "seed x = seed sec" "seed_valid x = seed_valid sec"
    "pending_level x = pending_level sec" "unlocked_level x = unlocked_level sec" by simp_all
  have len: "length (seed sec) = UDS_CORE_SEED_LEN" "0 < length key" using assms by (simp_all add: sec_inv_def)
  note eq = send_key_eq [OF len(1) order_refl len(2) assms(3) sub(3,1,2), of clk 0 0, unfolded r Let_def prod.case]
  show thesis
  proof (cases "\<not> r \<and> seed_valid x \<and> pending_level x = sub - 1 \<and> \<not> seed_expired (clk 1) x \<and>
      length key = UDS_CORE_SEED_LEN \<and> take UDS_CORE_SEED_LEN key = xor_key (seed x)")
    case True
    let ?x = "x\<lparr>seed_valid := False, fail_count := 0, unlocked_level := sub - 1\<rparr>"
    have "length [0x67, sub] \<le> length b" using sub(3) assms(3) by simp
    from assms(4) True have res: "p = Some ?x" "rc = UDS_CORE_OK" "out = mk_out (splice 0 [0x67, sub] b) (length [0x67, sub]) 0"
      unfolding eq ret_ok_mk [OF \<open>length [0x67, sub] \<le> length b\<close>] by auto
    have "take (length [0x67, sub]) (splice 0 [0x67, sub] b) = [0x67, sub]" by (rule take_splice0)
    moreover have "key = xor_key (seed sec)" using True x(1) take_all [of key UDS_CORE_SEED_LEN] by simp
    ultimately show thesis using granted [OF res] True x by simp
  next
    case False
    with assms(4) have "\<exists>sec'. p = Some sec' \<and> no_grant sec sec' \<and> rc \<noteq> UDS_CORE_OK"
      unfolding eq using x by (auto simp: mem_simps no_grant_def split: if_splits)
    with kept show thesis by blast
  qed
qed

text \<open>The two cases of the dispatcher that touch the security state.\<close>

lemma on_ecu_reset_security:
  assumes "on_ecu_reset clk sim req n out = Some r"
  shows "\<exists>sim'. (\<exists>out'. r = Inl (sim', out') \<or> (\<exists>rc. r = Inr (rc, sim', out'))) \<and>
    (sim_security sim' = sim_security sim \<or> sim_security sim' = zero_security)"
  using assms
  by (auto simp: on_ecu_reset_def reject_def Option.bind_eq_Some_conv uds_core_session_init_def
      uds_core_security_init_def split: if_splits)

definition sec_progress :: "UdsCoreSecurity \<Rightarrow> u8 list \<times> u8 list \<Rightarrow> UdsCoreSecurity \<Rightarrow> bool" where
  "sec_progress sec ex sec' \<longleftrightarrow> no_grant sec sec' \<or>
     (\<exists>sub. snd ex = [0x67, sub] @ seed sec' \<and> pending_level sec' = sub \<and> unlocked_level sec' = unlocked_level sec) \<or>
     (\<exists>sub. seed_valid sec \<and> pending_level sec = sub - 1 \<and> ex = ([0x27, sub] @ xor_key (seed sec), [0x67, sub]) \<and>
        \<not> seed_valid sec' \<and> unlocked_level sec' = sub - 1)"

lemma on_security_progress:
  assumes "sim_inv sim" "n \<le> length b" "on_security clk rnd sim (0x27 # rest) n (mk_out b 0 0) = Some r"
  shows "(\<exists>out sim'. (r = Inl (sim', out) \<or> (\<exists>rc. r = Inr (rc, sim', out))) \<and>
      no_grant (sim_security sim) (sim_security sim')) \<or>
    (\<exists>sim' b' l c. r = Inr (UDS_CORE_OK, sim', mk_out b' l c) \<and>
      sec_progress (sim_security sim) (0x27 # rest, take l b') (sim_security sim'))"
proof (cases "rest = [] \<or> (hd rest AND 1 = 0 \<and> length rest < 5)")
  case True
  have "req = 0x27 # rest \<Longrightarrow> length req < 2 \<or> (req ! 1 AND 1 = 0 \<and> length req < 6)" for req
    using True by (auto simp: hd_conv_nth)
  with assms(3) show ?thesis
    by (intro disjI1) (auto simp: on_security_def reject_def Option.bind_eq_Some_conv UDS_CORE_SEED_LEN_def mem_simps
        split: if_splits)
next
  case False
  then obtain sub key where rest: "rest = sub # key" by (cases rest) auto
  show ?thesis
  proof (cases "sub AND 1 = 0")
    case False
    with rest assms(3) obtain rc p out where
      run: "uds_core_sec_request_seed clk rnd sub (Some (sim_security sim)) n (mk_out b 0 0) = Some (rc, p, out)"
        "r = Inr (rc, at put_security sim p, out)"
      by (auto simp: on_security_def mem_simps call_def Option.bind_eq_Some_conv)
    from assms(2) run(1) show ?thesis
    proof (cases rule: request_seed_out)
      case (issued sec' b' l)
      with run(2) show ?thesis by (intro disjI2) (auto simp: sec_progress_def)
    qed (use run(2) in auto)
  next
    case True
    with False rest have key: "key \<noteq> []" "4 \<le> length key" by auto
    with True rest assms(3) obtain rc p out where
      run: "uds_core_sec_send_key clk sub (Some key) (length key) (Some (sim_security sim)) n (mk_out b 0 0) = Some (rc, p, out)"
        "r = Inr (rc, (let sim = at put_security sim p in
               if rc = UDS_CORE_OK
               then sim\<lparr>sim_session := (sim_session sim)\<lparr>security_level := unlocked_level (sim_security sim)\<rparr>\<rparr>
               else sim), out)"
      by (auto simp: on_security_def mem_simps Let_def Option.bind_eq_Some_conv UDS_CORE_SEED_LEN_def)
    from assms(1) have "sec_inv (sim_security sim)" by (simp add: sim_inv_def)
    from this key(1) assms(2) run(1) show ?thesis
    proof (cases rule: send_key_out)
      case (granted sec' b' l)
      with run(2) rest show ?thesis by (intro disjI2) (auto simp: sec_progress_def Let_def)
    qed (use run(2) in \<open>auto simp: Let_def\<close>)
  qed
qed

section \<open>Conversations\<close>

text \<open>An exchange is a request with its response, and a run the exchanges in the order they happened.\<close>

type_synonym exchange = "u8 list \<times> u8 list"

inductive ecu_step :: "EcuSimulator \<Rightarrow> exchange \<Rightarrow> EcuSimulator \<Rightarrow> bool" where
  exchange: "length req < 2 ^ 32 \<Longrightarrow> 3 \<le> n \<Longrightarrow> n \<le> length b \<Longrightarrow>
    ecusim_dispatch clk rnd sim req b n = Some (sim', b', l) \<Longrightarrow> ecu_step sim (req, take l b') sim'"

inductive ecu_run :: "EcuSimulator \<Rightarrow> exchange list \<Rightarrow> EcuSimulator \<Rightarrow> bool" for sim0 where
  no_exchange: "ecu_run sim0 [] sim0"
| one_more: "ecu_run sim0 tr sim \<Longrightarrow> ecu_step sim e sim' \<Longrightarrow> ecu_run sim0 (tr @ [e]) sim'"

lemma ecu_stepE:
  assumes "ecu_step sim e sim'"
  obtains req n b clk rnd b' l where "e = (req, take l b')" "length req < 2 ^ 32" "3 \<le> n" "n \<le> length b"
    "ecusim_dispatch clk rnd sim req b n = Some (sim', b', l)"
  using assms by (auto elim: ecu_step.cases)

lemma ecu_step_inv: "ecu_step sim e sim' \<Longrightarrow> sim_inv sim \<Longrightarrow> sim_inv sim'"
  by (erule ecu_stepE) (rule dispatch_step(1))

lemma ecu_run_inv: "ecu_run sim0 tr sim \<Longrightarrow> sim_inv sim0 \<Longrightarrow> sim_inv sim"
  by (induction rule: ecu_run.induct) (simp_all add: ecu_step_inv)

lemma ecu_step_progress:
  assumes "ecu_step sim ex sim'" "sim_inv sim"
  shows "sec_progress (sim_security sim) ex (sim_security sim')"
  using assms(1)
proof (cases rule: ecu_stepE)
  case (1 req n b clk rnd b' l)
  note step = dispatch_step [OF assms(2) 1(2-5)]
  show ?thesis
  proof (cases "req = [] \<or> hd req \<notin> {0x27, 0x11}")
    case True
    then have "sim_security sim' = sim_security sim" using step(2,3) unfolding owns_def by metis
    then show ?thesis by (simp add: sec_progress_def)
  next
    case False
    then obtain sid rest where req: "req = sid # rest" "sid = 0x27 \<or> sid = 0x11" by (cases req) auto
    from 1(5) have d: "ecusim_dispatch clk rnd sim (sid # rest) b n = Some (sim', b', l)" by (simp add: req)
    from req(2) show ?thesis
    proof
      assume sid: "sid = 0x27"
      have switch: "dispatch_switch clk rnd sim sid (sid # rest) n out = on_security clk rnd sim (0x27 # rest) n out" for out
        by (simp add: dispatch_switch_def sid)
      from d obtain r where r: "on_security clk rnd sim (0x27 # rest) n (mk_out b 0 0) = Some r"
        "(\<exists>out. r = Inl (sim', out)) \<or> (\<exists>rc out. r = Inr (rc, sim', out) \<and>
           (rc = UDS_CORE_OK \<longrightarrow> (\<exists>c. out = mk_out b' l c)))"
        by (cases rule: dispatch_result) (auto simp: switch)
      from on_security_progress [OF assms(2) 1(4) r(1)] r(2) show ?thesis
        by (auto simp: 1(1) req(1) sid sec_progress_def)
    next
      assume sid: "sid = 0x11"
      have switch: "dispatch_switch clk rnd sim sid (sid # rest) n out = on_ecu_reset clk sim (sid # rest) n out" for out
        by (simp add: dispatch_switch_def sid)
      from d obtain r where r: "on_ecu_reset clk sim (sid # rest) n (mk_out b 0 0) = Some r"
        "\<exists>out rc. r = Inl (sim', out) \<or> r = Inr (rc, sim', out)"
        by (cases rule: dispatch_result) (auto simp: switch)
      from on_ecu_reset_security [OF r(1)] r(2) show ?thesis by (auto simp: sec_progress_def)
    qed
  qed
qed

text \<open>
  \<open>challenged tr s\<close>: the ECU has answered a level 1 requestSeed with the seed \<open>s\<close>.
  \<open>authenticated tr\<close>: after such an answer the tester has sent the key of that seed and the ECU has
  accepted it.
\<close>

definition challenged :: "exchange list \<Rightarrow> u8 list \<Rightarrow> bool" where
  "challenged tr s \<longleftrightarrow> (\<exists>req. (req, [0x67, 0x01] @ s) \<in> set tr)"

definition authenticated :: "exchange list \<Rightarrow> bool" where
  "authenticated tr \<longleftrightarrow> (\<exists>tr1 s tr2. tr = tr1 @ [([0x27, 0x02] @ xor_key s, [0x67, 0x02])] @ tr2 \<and> challenged tr1 s)"

lemma challenged_mono: "challenged tr s \<Longrightarrow> challenged (tr @ tr') s"
  by (auto simp: challenged_def)

lemma authenticated_mono: "authenticated tr \<Longrightarrow> authenticated (tr @ [e])"
  unfolding authenticated_def by (metis append.assoc append_Cons)

lemma authenticated_now:
  "challenged tr s \<Longrightarrow> authenticated (tr @ [([0x27, 0x02] @ xor_key s, [0x67, 0x02])])"
  unfolding authenticated_def by (metis append_Nil2)

text \<open>The invariant of a run that starts without a level 1 challenge or grant.\<close>

definition auth_inv :: "exchange list \<Rightarrow> UdsCoreSecurity \<Rightarrow> bool" where
  "auth_inv tr sec \<longleftrightarrow> (seed_valid sec \<and> pending_level sec = 1 \<longrightarrow> challenged tr (seed sec)) \<and>
     (unlocked_level sec = 1 \<longrightarrow> authenticated tr)"

lemma auth_inv_step:
  assumes "auth_inv tr sec" "sec_progress sec e sec'"
  shows "auth_inv (tr @ [e]) sec'"
proof -
  from assms(2) consider (none) "no_grant sec sec'"
    | (seed) sub where "snd e = [0x67, sub] @ seed sec'" "pending_level sec' = sub" "unlocked_level sec' = unlocked_level sec"
    | (key) sub where "seed_valid sec" "pending_level sec = sub - 1" "e = ([0x27, sub] @ xor_key (seed sec), [0x67, sub])"
        "\<not> seed_valid sec'" "unlocked_level sec' = sub - 1"
    unfolding sec_progress_def by blast
  then show ?thesis
  proof cases
    case none
    with assms(1) show ?thesis
      by (auto simp: auth_inv_def no_grant_def intro: challenged_mono authenticated_mono)
  next
    case seed
    with assms(1) show ?thesis
      by (cases e) (auto simp: auth_inv_def challenged_def intro: authenticated_mono)
  next
    case key
    show ?thesis
    proof (cases "sub - 1 = 1")
      case True
      then have "sub = 2" by (simp add: diff_eq_eq)
      with assms(1) key authenticated_now [of tr "seed sec"] show ?thesis by (simp add: auth_inv_def)
    qed (use key in \<open>simp add: auth_inv_def\<close>)
  qed
qed

lemma ecu_run_auth:
  assumes "ecu_run sim0 tr sim" "sim_inv sim0" "auth_inv [] (sim_security sim0)"
  shows "auth_inv tr (sim_security sim)"
  using assms
proof (induction rule: ecu_run.induct)
  case (one_more tr sim e sim')
  with ecu_run_inv [OF one_more.hyps(1)] ecu_step_progress [OF one_more.hyps(2)] show ?case
    by (intro auth_inv_step) simp_all
qed simp

section \<open>The way in\<close>

text \<open>The four exchanges of a tester that knows the key algorithm.\<close>

lemma dispatch_okI:
  "dispatch_switch clk rnd sim sid (sid # rest) n (mk_out b 0 0) = Some (Inr (UDS_CORE_OK, sim', mk_out b' l c)) \<Longrightarrow>
   ecusim_dispatch clk rnd sim (sid # rest) b n = Some (sim', b', l)"
  by (simp add: ecusim_dispatch_def mem_simps)

lemma enter_extended:
  assumes "6 \<le> n" "n \<le> length b"
  shows "\<exists>s b'. ecusim_dispatch clk rnd sim [0x10, 0x03] b n = Some (put_session s sim, b', 6) \<and>
    sess_type s = UDS_SESSION_EXTENDED \<and> length b' = length b"
proof -
  let ?s = "(sim_session sim)\<lparr>sess_type := UDS_SESSION_EXTENDED, last_activity := clk 0\<rparr>"
  have "\<exists>b'. on_dsc clk sim [0x10, 0x03] n (mk_out b 0 0) = Some (Inr (UDS_CORE_OK, put_session ?s sim, mk_out b' 6 0)) \<and>
      length b' = length b"
    using assms by (simp add: on_dsc_def mem_simps call_def uds_core_dsc_def session_of_byte_def Let_def)
  then obtain b' where "on_dsc clk sim [0x10, 0x03] n (mk_out b 0 0) = Some (Inr (UDS_CORE_OK, put_session ?s sim, mk_out b' 6 0))"
    "length b' = length b" by blast
  then have "ecusim_dispatch clk rnd sim [0x10, 0x03] b n = Some (put_session ?s sim, b', 6)"
    by (intro dispatch_okI) (simp add: dispatch_switch_def)
  with \<open>length b' = length b\<close> show ?thesis by auto
qed

lemma ask_seed:
  assumes "6 \<le> n" "n \<le> length b" "\<not> locked (sim_security sim)" "unlocked_level (sim_security sim) \<noteq> 1"
  shows "\<exists>sec b'. ecusim_dispatch clk rnd sim [0x27, 0x01] b n = Some (put_security sec sim, b', 6) \<and>
    length b' = length b \<and> take 6 b' = [0x67, 0x01] @ seed sec \<and> seed_valid sec \<and> pending_level sec = 1 \<and>
    \<not> locked sec \<and> length (seed sec) = 4 \<and> seed_ts sec = clk 1 \<and> unlocked_level sec = unlocked_level (sim_security sim)"
proof -
  let ?s = "map (\<lambda>i. word_of_int (rnd i)) [0 ..< UDS_CORE_SEED_LEN] :: u8 list"
  let ?sec = "(sim_security sim)\<lparr>seed := ?s, seed_valid := True, pending_level := 1, seed_ts := clk 1\<rparr>"
  have len: "length (0x67 # 1 # ?s) = 6" by (simp add: UDS_CORE_SEED_LEN_def)
  have "uds_core_sec_request_seed clk rnd 1 (Some (sim_security sim)) n (mk_out b 0 0) =
      ret_ok (0x67 # 1 # ?s) (Some ?sec) (mk_out b 0 0)"
    using assms by (subst request_seed_eq) (simp_all add: check_locked_def Let_def)
  also have "\<dots> = Some (UDS_CORE_OK, Some ?sec, mk_out (splice 0 (0x67 # 1 # ?s) b) 6 0)"
    using assms(1,2) len by (simp only: ret_ok_mk)
  finally have "on_security clk rnd sim [0x27, 0x01] n (mk_out b 0 0) =
      Some (Inr (UDS_CORE_OK, put_security ?sec sim, mk_out (splice 0 (0x67 # 1 # ?s) b) 6 0))"
    by (simp add: on_security_def mem_simps call_def)
  then have "ecusim_dispatch clk rnd sim [0x27, 0x01] b n = Some (put_security ?sec sim, splice 0 (0x67 # 1 # ?s) b, 6)"
    by (intro dispatch_okI) (simp add: dispatch_switch_def)
  moreover have "take 6 (splice 0 (0x67 # 1 # ?s) b) = [0x67, 1] @ seed ?sec"
    by (subst take_splice_prefix) (simp_all add: len [symmetric])
  moreover have "length (splice 0 (0x67 # 1 # ?s) b) = length b"
    using assms(1,2) len by (intro length_splice) simp
  ultimately show ?thesis using assms(3,4)
    by (intro exI [of _ ?sec] exI [of _ "splice 0 (0x67 # 1 # ?s) b"]) (simp_all add: UDS_CORE_SEED_LEN_def)
qed

lemma give_key:
  assumes "2 \<le> n" "n \<le> length b" "seed_valid (sim_security sim)" "pending_level (sim_security sim) = 1"
    "\<not> locked (sim_security sim)" "length (seed (sim_security sim)) = 4"
    "tv_sec (clk 1) - tv_sec (seed_ts (sim_security sim)) < 10"
  shows "\<exists>s sec. ecusim_dispatch clk rnd sim ([0x27, 0x02] @ xor_key (seed (sim_security sim))) b n =
      Some (put_session s (put_security sec sim), splice 0 [0x67, 0x02] b, 2) \<and>
    unlocked_level sec = 1 \<and> sess_type s = sess_type (sim_session sim)"
proof -
  let ?k = "xor_key (seed (sim_security sim))"
  let ?sec = "(sim_security sim)\<lparr>seed_valid := False, fail_count := 0, unlocked_level := 1\<rparr>"
  let ?s = "(sim_session sim)\<lparr>security_level := 1\<rparr>"
  have len: "length ?k = 4" "length [0x67, 0x02] \<le> length b" using assms by simp_all
  have "uds_core_sec_send_key clk 2 (Some ?k) (length ?k) (Some (sim_security sim)) n (mk_out b 0 0) =
      ret_ok [0x67, 0x02] (Some ?sec) (mk_out b 0 0)"
    using assms len
    by (subst send_key_eq) (simp_all add: check_locked_def Let_def seed_expired_def sec_consts)
  then have "on_security clk rnd sim ([0x27, 0x02] @ ?k) n (mk_out b 0 0) =
      Some (Inr (UDS_CORE_OK, put_session ?s (put_security ?sec sim), mk_out (splice 0 [0x67, 0x02] b) 2 0))"
    using len by (simp add: on_security_def mem_simps Let_def UDS_CORE_SEED_LEN_def)
  then have "ecusim_dispatch clk rnd sim ([0x27, 0x02] @ ?k) b n =
      Some (put_session ?s (put_security ?sec sim), splice 0 [0x67, 0x02] b, 2)"
    by (simp only: append_Cons append_Nil) (rule dispatch_okI, simp add: dispatch_switch_def)
  then show ?thesis by (intro exI [of _ ?s] exI [of _ ?sec]) simp
qed

lemma store_data:
  assumes "sim_inv sim" "3 \<le> n" "n \<le> length b" "did_lookup (sim_did_reg sim) did = Some e" "data \<noteq> []"
    "write_granted e (session_code (sess_type (sim_session sim)))
       (uds_core_sec_is_unlocked (Some (sim_security sim)) 1) (length data)"
  shows "\<exists>reg. ecusim_dispatch clk rnd sim ([0x2E, byte_of 1 did, byte_of 0 did] @ data) b n =
      Some (put_dids reg sim, splice 0 [0x6E, byte_of 1 did, byte_of 0 did] b, 3) \<and>
    did_lookup reg = (did_lookup (sim_did_reg sim))(did \<mapsto> written e data)"
proof -
  from assms(1) have inv: "did_reg_inv (sim_did_reg sim)" by (simp add: sim_inv_def)
  have eq: "on_write_did sim ([0x2E, byte_of 1 did, byte_of 0 did] @ data) n (mk_out b 0 0) = call (at put_dids sim)
      (uds_svc_write_did did (Some data) (length data) (session_code (sess_type (sim_session sim)))
        (uds_core_sec_is_unlocked (Some (sim_security sim)) 1) (Some (sim_did_reg sim)) n (mk_out b 0 0))"
    using assms(5) by (simp add: on_write_did_def mem_simps Suc_le_eq not_less)
  from inv assms(3) obtain reg where
    "uds_svc_write_did did (Some data) (length data) (session_code (sess_type (sim_session sim)))
       (uds_core_sec_is_unlocked (Some (sim_security sim)) 1) (Some (sim_did_reg sim)) n (mk_out b 0 0) =
     Some (UDS_CORE_OK, Some reg, mk_out (splice 0 [0x6E, byte_of 1 did, byte_of 0 did] b) 3 0)"
    "did_lookup reg = (did_lookup (sim_did_reg sim))(did \<mapsto> written e data)"
  proof (cases rule: write_did_cases [where did = did and dl = data and
      sess = "session_code (sess_type (sim_session sim))" and
      unlocked = "uds_core_sec_is_unlocked (Some (sim_security sim)) 1" and l = 0 and c = 0])
    case (refused rc c')
    with assms(2,4,6) show thesis by (cases "rc = UDS_CORE_ERR_NRC") auto
  next
    case (granted e' reg')
    with assms(4) that show thesis by simp
  qed
  then have "on_write_did sim ([0x2E, byte_of 1 did, byte_of 0 did] @ data) n (mk_out b 0 0) =
      Some (Inr (UDS_CORE_OK, put_dids reg sim, mk_out (splice 0 [0x6E, byte_of 1 did, byte_of 0 did] b) 3 0))"
    unfolding eq by (simp add: call_def)
  then have "ecusim_dispatch clk rnd sim ([0x2E, byte_of 1 did, byte_of 0 did] @ data) b n =
      Some (put_dids reg sim, splice 0 [0x6E, byte_of 1 did, byte_of 0 did] b, 3)"
    by (simp only: append_Cons append_Nil) (rule dispatch_okI, simp add: dispatch_switch_def)
  with \<open>did_lookup reg = _\<close> show ?thesis by blast
qed

lemma ecu_run_snoc:
  "ecu_run sim0 tr sim \<Longrightarrow> length req < 2 ^ 32 \<Longrightarrow> 3 \<le> n \<Longrightarrow> n \<le> length b \<Longrightarrow>
   ecusim_dispatch clk rnd sim req b n = Some (sim', b', l) \<Longrightarrow> r = take l b' \<Longrightarrow> ecu_run sim0 (tr @ [(req, r)]) sim'"
  by (simp only:) (rule ecu_run.one_more, assumption, rule ecu_step.exchange)

lemma boot_vin:
  "did_lookup (sim_did_reg (boot_sim now eid s)) DID_VIN = Some (default_did DID_VIN (ascii ''1HGCM82633A123456'') True True)"
  by (simp add: did_lookup_def boot_sim_def default_dids_def default_did_def default_ids)

lemma boot_odometer:
  "did_lookup (sim_did_reg (boot_sim now eid s)) DID_ODOMETER = Some (default_did DID_ODOMETER [0, 0, 0x12, 0x34] True False)"
  by (simp add: did_lookup_def boot_sim_def default_dids_def default_did_def default_ids)

lemma boot_simps:
  "\<not> locked (sim_security (boot_sim now eid s))" "unlocked_level (sim_security (boot_sim now eid s)) = 0"
  "\<not> seed_valid (sim_security (boot_sim now eid s))"
  by (simp_all add: boot_sim_def zero_security_def)

lemma default_did_simps [simp]:
  "did_id (default_did d c w q) = d" "data_len (default_did d c w q) = length c" "writable (default_did d c w q) = w"
  "requires_security (default_did d c w q) = q" "min_write_session (default_did d c w q) = session_code UDS_SESSION_EXTENDED"
  "length c \<le> 32 \<Longrightarrow> did_value (default_did d c w q) = c" "length c \<le> 32 \<Longrightarrow> did_backed (default_did d c w q)"
  by (simp_all add: default_did_def did_value_def did_backed_def)

lemma length_ascii [simp]: "length (ascii s) = length s"
  by (simp add: ascii_def)

lemma way_in:
  assumes "sim_inv sim" "\<not> locked (sim_security sim)" "unlocked_level (sim_security sim) \<noteq> 1" "6 \<le> n" "n \<le> length b"
    and "did_lookup (sim_did_reg sim) did = Some e" "writable e" "min_write_session e \<le> session_code UDS_SESSION_EXTENDED"
    and "did_backed e" "length data = data_len e" "data \<noteq> []" "tv_sec (clk3 1) - tv_sec (clk2 1) < 10"
  shows "\<exists>sim1 b1 sim2 b2 sim3 b3 sim4 b4 e'.
    ecusim_dispatch clk1 rnd1 sim [0x10, 0x03] b n = Some (sim1, b1, 6) \<and>
    ecusim_dispatch clk2 rnd2 sim1 [0x27, 0x01] b1 n = Some (sim2, b2, 6) \<and>
    ecusim_dispatch clk3 rnd3 sim2 ([0x27, 0x02] @ xor_key (drop 2 (take 6 b2))) b2 n = Some (sim3, b3, 2) \<and>
    take 2 b3 = [0x67, 0x02] \<and>
    ecusim_dispatch clk4 rnd4 sim3 ([0x2E, byte_of 1 did, byte_of 0 did] @ data) b3 n = Some (sim4, b4, 3) \<and>
    take 3 b4 = [0x6E, byte_of 1 did, byte_of 0 did] \<and>
    did_lookup (sim_did_reg sim4) did = Some e' \<and> did_value e' = data"
proof -
  obtain s1 b1 where 1: "ecusim_dispatch clk1 rnd1 sim [0x10, 0x03] b n = Some (put_session s1 sim, b1, 6)"
    "sess_type s1 = UDS_SESSION_EXTENDED" "length b1 = length b"
    using enter_extended [OF assms(4,5), of clk1 rnd1 sim] by blast
  obtain sec2 b2 where 2: "ecusim_dispatch clk2 rnd2 (put_session s1 sim) [0x27, 0x01] b1 n =
      Some (put_security sec2 (put_session s1 sim), b2, 6)" "length b2 = length b"
    "take 6 b2 = [0x67, 0x01] @ seed sec2" "seed_valid sec2" "pending_level sec2 = 1" "\<not> locked sec2"
    "length (seed sec2) = 4" "seed_ts sec2 = clk2 1"
    using ask_seed [of n b1 "put_session s1 sim" clk2 rnd2] assms(2-5) 1(3) by auto
  let ?sim2 = "put_security sec2 (put_session s1 sim)"
  from 2 assms(4,5,12) obtain s3 sec3 where 3: "ecusim_dispatch clk3 rnd3 ?sim2 ([0x27, 0x02] @ xor_key (seed sec2)) b2 n =
      Some (put_session s3 (put_security sec3 ?sim2), splice 0 [0x67, 0x02] b2, 2)"
    "unlocked_level sec3 = 1" "sess_type s3 = UDS_SESSION_EXTENDED"
    using give_key [of n b2 ?sim2 clk3 rnd3] 1(2) by auto
  let ?sim3 = "put_session s3 (put_security sec3 ?sim2)" and ?b3 = "splice 0 [0x67, 0x02] b2"
  have b3: "length ?b3 = length b" using 2(2) assms(4,5) by (subst length_splice) simp_all
  have inv3: "sim_inv ?sim3"
  proof -
    have "sim_inv (put_session s1 sim)" using dispatch_step(1) [OF assms(1) _ _ _ 1(1)] assms(4,5) by simp
    then have "sim_inv ?sim2" using dispatch_step(1) [OF _ _ _ _ 2(1)] assms(4,5) 1(3) by simp
    then show ?thesis using dispatch_step(1) [OF _ _ _ _ 3(1)] assms(4,5) 2(2,7) by simp
  qed
  have "write_granted e (session_code (sess_type (sim_session ?sim3)))
      (uds_core_sec_is_unlocked (Some (sim_security ?sim3)) 1) (length data)"
    using assms(7,8,10) 3(2,3) by (simp add: write_granted_def uds_core_sec_is_unlocked_def)
  with inv3 assms(4-6,11) b3 obtain reg where 4: "ecusim_dispatch clk4 rnd4 ?sim3 ([0x2E, byte_of 1 did, byte_of 0 did] @ data) ?b3 n =
      Some (put_dids reg ?sim3, splice 0 [0x6E, byte_of 1 did, byte_of 0 did] ?b3, 3)"
    "did_lookup reg did = Some (written e data)"
    using store_data [of ?sim3 n ?b3 did e data clk4 rnd4] by auto
  have "did_value (written e data) = data" using assms(9,10) by (rule did_value_written)
  with 1(1) 2(1,3) 3(1) 4 show ?thesis by auto
qed

section \<open>Properties\<close>

text \<open>
  C13. Data identifiers are written by WriteDataByIdentifier alone, and only when it is granted.
  If a data identifier has another content after a request, then the request was
  \<open>2E did data\<close> for exactly that identifier, the entry was writable, the session level was at
  least the one the entry asks for, security level 1 was unlocked if the entry asks for
  security, the data had the length of the entry, and the new content is that data; every other
  identifier keeps its content.
\<close>

theorem did_change_guarded:
  assumes "sim_inv sim" "length req < 2 ^ 32" "3 \<le> n" "n \<le> length b"
    and "ecusim_dispatch clk rnd sim req b n = Some (sim', b', l)"
    and "did_lookup (sim_did_reg sim') d \<noteq> did_lookup (sim_did_reg sim) d"
  shows "\<exists>e. 4 \<le> length req \<and> hd req = 0x2E \<and> d = be16 (req ! 1) (req ! 2) \<and>
    did_lookup (sim_did_reg sim) d = Some e \<and> writable e \<and>
    min_write_session e \<le> session_code (sess_type (sim_session sim)) \<and>
    (requires_security e \<longrightarrow> uds_core_sec_is_unlocked (Some (sim_security sim)) 1) \<and>
    length req - 3 = data_len e \<and>
    did_lookup (sim_did_reg sim') = (did_lookup (sim_did_reg sim))(d \<mapsto> written e (drop 3 req))"
  by (rule dispatch_did_change [OF assms])

theorem did_change_guarded_witness:
  "\<exists>sim' b' l. ecusim_dispatch (\<lambda>_. \<lparr>tv_sec = 0, tv_nsec = 0\<rparr>) (\<lambda>_. 0)
      (put_session ((sim_session (boot_sim \<lparr>tv_sec = 0, tv_nsec = 0\<rparr> 1 3))\<lparr>sess_type := UDS_SESSION_EXTENDED\<rparr>)
        (boot_sim \<lparr>tv_sec = 0, tv_nsec = 0\<rparr> 1 3))
      ([0x2E, byte_of 1 DID_ODOMETER, byte_of 0 DID_ODOMETER] @ [0, 0, 0, 1]) (replicate 8 0) 8 = Some (sim', b', l) \<and>
    did_lookup (sim_did_reg sim') DID_VIN = did_lookup (sim_did_reg (boot_sim \<lparr>tv_sec = 0, tv_nsec = 0\<rparr> 1 3)) DID_VIN"
proof -
  let ?b = "boot_sim \<lparr>tv_sec = 0, tv_nsec = 0\<rparr> 1 3"
  let ?sim = "put_session ((sim_session ?b)\<lparr>sess_type := UDS_SESSION_EXTENDED\<rparr>) ?b"
  let ?e = "default_did DID_ODOMETER [0, 0, 0x12, 0x34] True False"
  let ?clk = "\<lambda>_. \<lparr>tv_sec = 0, tv_nsec = 0\<rparr>"
  have inv: "sim_inv ?sim" using boot_sim_inv [of "\<lparr>tv_sec = 0, tv_nsec = 0\<rparr>" 1 3] by (simp add: sim_inv_def)
  obtain reg where r: "ecusim_dispatch ?clk (\<lambda>_. 0) ?sim ([0x2E, byte_of 1 DID_ODOMETER, byte_of 0 DID_ODOMETER] @ [0, 0, 0, 1])
      (replicate 8 0) 8 = Some (put_dids reg ?sim, splice 0 [0x6E, byte_of 1 DID_ODOMETER, byte_of 0 DID_ODOMETER] (replicate 8 0), 3)"
    "did_lookup reg = (did_lookup (sim_did_reg ?sim))(DID_ODOMETER \<mapsto> written ?e [0, 0, 0, 1])"
    using store_data [OF inv, of 8 "replicate 8 0" DID_ODOMETER ?e "[0, 0, 0, 1]" ?clk "\<lambda>_. 0"]
    by (auto simp: boot_odometer write_granted_def)
  have "did_value (written ?e [0, 0, 0, 1]) \<noteq> did_value ?e" by (simp add: did_value_written)
  then have "did_lookup (sim_did_reg (put_dids reg ?sim)) DID_ODOMETER \<noteq> did_lookup (sim_did_reg ?sim) DID_ODOMETER"
    using r(2) by (auto simp: boot_odometer)
  from did_change_guarded [OF inv _ _ _ r(1) this] r show ?thesis by (auto simp: default_ids)
qed

lemma protected_data_kept:
  assumes "ecu_run sim0 tr sim" "sim_inv sim0"
    and "unlocked_level (sim_security sim0) \<noteq> 1" "\<not> (seed_valid (sim_security sim0) \<and> pending_level (sim_security sim0) = 1)"
    and "did_lookup (sim_did_reg sim0) d = Some e" "requires_security e"
  shows "authenticated tr \<or> did_lookup (sim_did_reg sim) d = Some e"
proof -
  have start: "auth_inv [] (sim_security sim0)" using assms(3,4) by (auto simp: auth_inv_def)
  from assms(1) show ?thesis
  proof (induction rule: ecu_run.induct)
    case (one_more tr sim ex sim')
    show ?case
    proof (cases "authenticated tr \<or> did_lookup (sim_did_reg sim') d = did_lookup (sim_did_reg sim) d")
      case True
      with one_more.IH show ?thesis by (auto intro: authenticated_mono)
    next
      case False
      note inv = ecu_run_inv [OF one_more.hyps(1) assms(2)]
      from one_more.hyps(2) False inv have "\<exists>e. did_lookup (sim_did_reg sim) d = Some e \<and>
          (requires_security e \<longrightarrow> uds_core_sec_is_unlocked (Some (sim_security sim)) 1)"
        by (elim ecu_stepE) (metis dispatch_did_change)
      with one_more.IH False assms(6) have "unlocked_level (sim_security sim) = 1"
        by (auto simp: uds_core_sec_is_unlocked_def)
      with ecu_run_auth [OF one_more.hyps(1) assms(2) start] False show ?thesis
        by (simp add: auth_inv_def)
    qed
  qed (simp add: assms(5))
qed

text \<open>
  C1. Security-protected data needs the key. In any conversation with an ECU that starts without
  level 1 unlocked and without an open level 1 challenge, whatever is sent, whenever it is sent and
  whatever seeds \<open>rand()\<close> yields: if a data identifier that requires security has been changed, then
  the ECU has answered a requestSeed with some seed before, has later received exactly
  \<open>27 02\<close> with the key of that seed, and has accepted it.
\<close>

theorem protected_data_needs_key:
  assumes "ecu_run sim0 tr sim" "sim_inv sim0"
    and "unlocked_level (sim_security sim0) \<noteq> 1" "\<not> (seed_valid (sim_security sim0) \<and> pending_level (sim_security sim0) = 1)"
    and "did_lookup (sim_did_reg sim0) d = Some e" "requires_security e"
    and "did_lookup (sim_did_reg sim) d \<noteq> Some e"
  shows "authenticated tr"
  using protected_data_kept [OF assms(1-6)] assms(7) by blast

theorem protected_data_needs_key_witness:
  "\<exists>tr sim. ecu_run (boot_sim \<lparr>tv_sec = 0, tv_nsec = 0\<rparr> 1 3) tr sim \<and> length tr = 4 \<and> authenticated tr"
proof -
  let ?b = "boot_sim \<lparr>tv_sec = 0, tv_nsec = 0\<rparr> 1 3" and ?clk = "\<lambda>_. \<lparr>tv_sec = 0, tv_nsec = 0\<rparr>"
  let ?e = "default_did DID_VIN (ascii ''1HGCM82633A123456'') True True"
  note boot = boot_sim_inv [of "\<lparr>tv_sec = 0, tv_nsec = 0\<rparr>" 1 3]
  obtain sim1 b1 sim2 b2 sim3 b3 sim4 b4 e' where
    s: "ecusim_dispatch ?clk (\<lambda>_. 5) ?b [0x10, 0x03] (replicate 8 0) 8 = Some (sim1, b1, 6)"
      "ecusim_dispatch ?clk (\<lambda>_. 5) sim1 [0x27, 0x01] b1 8 = Some (sim2, b2, 6)"
      "ecusim_dispatch ?clk (\<lambda>_. 5) sim2 ([0x27, 0x02] @ xor_key (drop 2 (take 6 b2))) b2 8 = Some (sim3, b3, 2)"
      "ecusim_dispatch ?clk (\<lambda>_. 5) sim3 ([0x2E, byte_of 1 DID_VIN, byte_of 0 DID_VIN] @ replicate 17 0x41) b3 8 = Some (sim4, b4, 3)"
      "did_lookup (sim_did_reg sim4) DID_VIN = Some e'" "did_value e' = replicate 17 0x41"
    using way_in [OF boot boot_simps(1), where n = 8 and b = "replicate 8 0" and did = DID_VIN and e = ?e and
        data = "replicate 17 0x41" and ?clk1.0 = ?clk and ?clk2.0 = ?clk and ?clk3.0 = ?clk and ?clk4.0 = ?clk and
        ?rnd1.0 = "\<lambda>_. 5" and ?rnd2.0 = "\<lambda>_. 5" and ?rnd3.0 = "\<lambda>_. 5" and ?rnd4.0 = "\<lambda>_. 5"]
    by (auto simp: boot_simps boot_vin)
  have k: "length (xor_key (drop 2 (take 6 b2))) \<le> 4" by simp
  have len: "length b1 = 8" "length b2 = 8" "length b3 = 8"
  proof -
    note 1 = dispatch_step [OF boot _ _ _ s(1), simplified]
    note 2 = dispatch_step [OF 1(1) _ _ _ s(2), simplified]
    show "length b1 = 8" using 1 by simp
    then show "length b2 = 8" using 2 by simp
    then show "length b3 = 8" using dispatch_step(5) [OF 2(1) _ _ _ s(3)] k \<open>length b1 = 8\<close> by simp
  qed
  note run = ecu_run_snoc [OF ecu_run_snoc [OF ecu_run_snoc [OF ecu_run_snoc [OF ecu_run.no_exchange _ _ _ s(1) refl]
    _ _ _ s(2) refl] _ _ _ s(3) refl] _ _ _ s(4) refl]
  have "replicate 17 0x41 \<noteq> (ascii ''1HGCM82633A123456'')" by (simp add: ascii_def numeral_eq_Suc)
  with s(5,6) have "did_lookup (sim_did_reg sim4) DID_VIN \<noteq> Some ?e" by auto
  with protected_data_needs_key [OF run boot _ _ boot_vin] len k show ?thesis
    using run by (fastforce simp: boot_simps)
qed

text \<open>
  C21. The way in exists. On an ECU that is not locked out and has not unlocked level 1, a tester
  that enters the extended session, asks for a level 1 seed, returns the key of that seed within ten seconds
  and then writes a data identifier that may be written in the extended session is granted every
  step, whatever seed is drawn and whether or not the identifier requires security, and the
  identifier holds the new data afterwards. This is the rule of the code, where each entry names its
  least session; the requirements of the repository allow writes in the programming session only.
\<close>

theorem tester_can_write:
  assumes "sim_inv sim" "\<not> locked (sim_security sim)" "unlocked_level (sim_security sim) \<noteq> 1" "6 \<le> n" "n \<le> length b"
    and "did_lookup (sim_did_reg sim) did = Some e" "writable e" "min_write_session e \<le> session_code UDS_SESSION_EXTENDED"
    and "did_backed e" "length data = data_len e" "data \<noteq> []" "tv_sec (clk3 1) - tv_sec (clk2 1) < 10"
  shows "\<exists>sim1 b1 sim2 b2 sim3 b3 sim4 b4 e'.
    ecusim_dispatch clk1 rnd1 sim [0x10, 0x03] b n = Some (sim1, b1, 6) \<and>
    ecusim_dispatch clk2 rnd2 sim1 [0x27, 0x01] b1 n = Some (sim2, b2, 6) \<and>
    ecusim_dispatch clk3 rnd3 sim2 ([0x27, 0x02] @ xor_key (drop 2 (take 6 b2))) b2 n = Some (sim3, b3, 2) \<and>
    take 2 b3 = [0x67, 0x02] \<and>
    ecusim_dispatch clk4 rnd4 sim3 ([0x2E, byte_of 1 did, byte_of 0 did] @ data) b3 n = Some (sim4, b4, 3) \<and>
    take 3 b4 = [0x6E, byte_of 1 did, byte_of 0 did] \<and>
    did_lookup (sim_did_reg sim4) did = Some e' \<and> did_value e' = data"
  by (rule way_in [where ?clk2.0 = clk2 and ?clk3.0 = clk3, OF assms])

theorem tester_can_write_witness:
  "\<exists>clk rnd sim3 b3 sim4 b4 e'.
    ecusim_dispatch clk rnd sim3 ([0x2E, byte_of 1 DID_VIN, byte_of 0 DID_VIN] @ replicate 17 0x41) b3 8 = Some (sim4, b4, 3) \<and>
    did_lookup (sim_did_reg sim4) DID_VIN = Some e' \<and> did_value e' = replicate 17 0x41"
proof -
  let ?clk = "\<lambda>_. \<lparr>tv_sec = 0, tv_nsec = 0\<rparr>"
  show ?thesis
    using tester_can_write [OF boot_sim_inv boot_simps(1), where n = 8 and b = "replicate 8 0" and did = DID_VIN and
        data = "replicate 17 0x41" and ?clk1.0 = ?clk and ?clk2.0 = ?clk and ?clk3.0 = ?clk and ?clk4.0 = ?clk and
        e = "default_did DID_VIN (ascii ''1HGCM82633A123456'') True True"]
    by (simp add: boot_simps boot_vin) blast
qed

text \<open>Further exchanges: a reset, and the return to the default session.\<close>

lemma reset_exchange:
  assumes "ty \<in> {1, 2, 3}" "2 \<le> n" "n \<le> length b"
  shows "\<exists>s. ecusim_dispatch clk rnd sim [0x11, ty] b n =
      Some (put_security zero_security (put_session s sim), splice 0 [0x51, ty] b, 2) \<and> sess_type s = UDS_SESSION_DEFAULT"
proof -
  define s where "s = \<lparr>ecu_id = sim_ecu_id sim, sess_type = UDS_SESSION_DEFAULT, cfg = UDS_CORE_SESSION_DEFAULT_CONFIG,
      security_level = 0, last_activity = clk 0\<rparr>"
  have "on_ecu_reset clk sim [0x11, ty] n (mk_out b 0 0) =
      Some (Inr (UDS_CORE_OK, put_security zero_security (put_session s sim), mk_out (splice 0 [0x51, ty] b) 2 0))"
    using assms by (auto simp: on_ecu_reset_def mem_simps uds_svc_ecu_reset_def Let_def uds_core_session_init_def
        uds_core_security_init_def s_def)
  then have "ecusim_dispatch clk rnd sim [0x11, ty] b n =
      Some (put_security zero_security (put_session s sim), splice 0 [0x51, ty] b, 2)"
    by (intro dispatch_okI) (simp add: dispatch_switch_def)
  then show ?thesis by (intro exI [of _ s]) (simp add: s_def)
qed

lemma enter_default:
  assumes "6 \<le> n" "n \<le> length b"
  shows "\<exists>s b'. ecusim_dispatch clk rnd sim [0x10, 0x01] b n = Some (put_session s sim, b', 6) \<and>
    sess_type s = UDS_SESSION_DEFAULT \<and> security_level s = 0 \<and> length b' = length b"
proof -
  let ?s = "(sim_session sim)\<lparr>sess_type := UDS_SESSION_DEFAULT, security_level := 0, last_activity := clk 0\<rparr>"
  have "\<exists>b'. on_dsc clk sim [0x10, 0x01] n (mk_out b 0 0) = Some (Inr (UDS_CORE_OK, put_session ?s sim, mk_out b' 6 0)) \<and>
      length b' = length b"
    using assms by (simp add: on_dsc_def mem_simps call_def uds_core_dsc_def session_of_byte_def Let_def)
  then obtain b' where "on_dsc clk sim [0x10, 0x01] n (mk_out b 0 0) = Some (Inr (UDS_CORE_OK, put_session ?s sim, mk_out b' 6 0))"
    "length b' = length b" by blast
  then have "ecusim_dispatch clk rnd sim [0x10, 0x01] b n = Some (put_session ?s sim, b', 6)"
    by (intro dispatch_okI) (simp add: dispatch_switch_def)
  with \<open>length b' = length b\<close> show ?thesis by auto
qed

text \<open>
  C35. An ECUReset lifts the lockout. Whatever the attempt counter and the lock of the simulator
  say, a positive reset of any of the three types forgets them: the next requestSeed, at any time,
  is answered with a fresh seed. The lockout of 300 seconds therefore does not delay a tester that
  resets the ECU.
\<close>

theorem reset_lifts_lockout:
  assumes "ty \<in> {1, 2, 3}" "6 \<le> n" "n \<le> length b"
  shows "\<exists>sim1 b1 sim2 b2.
    ecusim_dispatch clk1 rnd1 sim [0x11, ty] b n = Some (sim1, b1, 2) \<and> take 2 b1 = [0x51, ty] \<and>
    fail_count (sim_security sim1) = 0 \<and> \<not> locked (sim_security sim1) \<and>
    ecusim_dispatch clk2 rnd2 sim1 [0x27, 0x01] b1 n = Some (sim2, b2, 6) \<and>
    take 6 b2 = [0x67, 0x01] @ seed (sim_security sim2) \<and> seed_valid (sim_security sim2)"
proof -
  from reset_exchange [of ty n b clk1 rnd1 sim] assms obtain s where
    1: "ecusim_dispatch clk1 rnd1 sim [0x11, ty] b n =
      Some (put_security zero_security (put_session s sim), splice 0 [0x51, ty] b, 2)" by auto
  let ?sim1 = "put_security zero_security (put_session s sim)" and ?b1 = "splice 0 [0x51, ty] b"
  have len: "n \<le> length ?b1" using assms(2,3) by (subst length_splice) simp_all
  have fresh: "\<not> locked (sim_security ?sim1)" "unlocked_level (sim_security ?sim1) \<noteq> 1" "fail_count (sim_security ?sim1) = 0"
    by (simp_all add: zero_security_def)
  from ask_seed [OF assms(2) len fresh(1,2), of clk2 rnd2] obtain sec b2 where
    "ecusim_dispatch clk2 rnd2 ?sim1 [0x27, 0x01] ?b1 n = Some (put_security sec ?sim1, b2, 6)"
    "take 6 b2 = [0x67, 0x01] @ seed sec" "seed_valid sec" by blast
  with 1 fresh show ?thesis by auto
qed

theorem reset_lifts_lockout_witness:
  "let sim = (boot_sim \<lparr>tv_sec = 0, tv_nsec = 0\<rparr> 1 3)\<lparr>sim_security := zero_security\<lparr>fail_count := 3, locked := True\<rparr>\<rparr>
   in \<exists>sim1 b1. ecusim_dispatch (\<lambda>_. \<lparr>tv_sec = 1, tv_nsec = 0\<rparr>) (\<lambda>_. 0) sim [0x11, 0x03] (replicate 8 0) 8 = Some (sim1, b1, 2) \<and>
     \<not> locked (sim_security sim1)"
  unfolding Let_def using reset_lifts_lockout [where ty = 3 and n = 8 and b = "replicate 8 0"] by simp metis

text \<open>
  C36. Unlocking survives the session. A return to the default session clears the level that the
  session records, but not the one the services ask for: with level 1 unlocked once, the tester can
  go back to the default session, enter the extended session again, and write protected data without a new seed
  or key.
\<close>

theorem unlock_survives_session:
  assumes "sim_inv sim" "unlocked_level (sim_security sim) = 1" "6 \<le> n" "n \<le> length b"
    and "did_lookup (sim_did_reg sim) did = Some e" "writable e" "min_write_session e \<le> session_code UDS_SESSION_EXTENDED"
    and "length data = data_len e" "data \<noteq> []"
  shows "\<exists>sim1 b1 sim2 b2 sim3 b3.
    ecusim_dispatch clk1 rnd1 sim [0x10, 0x01] b n = Some (sim1, b1, 6) \<and>
    security_level (sim_session sim1) = 0 \<and> uds_core_sec_is_unlocked (Some (sim_security sim1)) 1 \<and>
    ecusim_dispatch clk2 rnd2 sim1 [0x10, 0x03] b1 n = Some (sim2, b2, 6) \<and>
    ecusim_dispatch clk3 rnd3 sim2 ([0x2E, byte_of 1 did, byte_of 0 did] @ data) b2 n = Some (sim3, b3, 3) \<and>
    did_lookup (sim_did_reg sim3) did = Some (written e data)"
proof -
  obtain s1 b1 where 1: "ecusim_dispatch clk1 rnd1 sim [0x10, 0x01] b n = Some (put_session s1 sim, b1, 6)"
    "security_level s1 = 0" "length b1 = length b"
    using enter_default [OF assms(3,4), of clk1 rnd1 sim] by blast
  obtain s2 b2 where 2: "ecusim_dispatch clk2 rnd2 (put_session s1 sim) [0x10, 0x03] b1 n =
      Some (put_session s2 (put_session s1 sim), b2, 6)" "sess_type s2 = UDS_SESSION_EXTENDED" "length b2 = length b"
    using enter_extended [OF assms(3), of b1 clk2 rnd2 "put_session s1 sim"] assms(4) 1(3) by auto
  let ?sim2 = "put_session s2 (put_session s1 sim)"
  have "sim_inv (put_session s1 sim)" using dispatch_step(1) [OF assms(1) _ _ _ 1(1)] assms(3,4) by simp
  then have inv: "sim_inv ?sim2" using dispatch_step(1) [OF _ _ _ _ 2(1)] assms(3,4) 1(3) by simp
  have "write_granted e (session_code (sess_type (sim_session ?sim2)))
      (uds_core_sec_is_unlocked (Some (sim_security ?sim2)) 1) (length data)"
    using assms(2,6-8) 2(2) by (simp add: write_granted_def uds_core_sec_is_unlocked_def)
  with inv assms(3-5,9) 2(3) obtain reg where
    "ecusim_dispatch clk3 rnd3 ?sim2 ([0x2E, byte_of 1 did, byte_of 0 did] @ data) b2 n =
      Some (put_dids reg ?sim2, splice 0 [0x6E, byte_of 1 did, byte_of 0 did] b2, 3)"
    "did_lookup reg did = Some (written e data)"
    using store_data [of ?sim2 n b2 did e data clk3 rnd3] by auto
  with 1(1,2) 2(1) assms(2) show ?thesis by (auto simp: uds_core_sec_is_unlocked_def)
qed

theorem unlock_survives_session_witness:
  "let sim = (boot_sim \<lparr>tv_sec = 0, tv_nsec = 0\<rparr> 1 3)\<lparr>sim_security := zero_security\<lparr>unlocked_level := 1\<rparr>\<rparr>
   in \<exists>sim1 b1. ecusim_dispatch (\<lambda>_. \<lparr>tv_sec = 1, tv_nsec = 0\<rparr>) (\<lambda>_. 0) sim [0x10, 0x01] (replicate 8 0) 8 = Some (sim1, b1, 6) \<and>
     security_level (sim_session sim1) = 0 \<and> uds_core_sec_is_unlocked (Some (sim_security sim1)) 1"
proof -
  let ?sim = "(boot_sim \<lparr>tv_sec = 0, tv_nsec = 0\<rparr> 1 3)\<lparr>sim_security := zero_security\<lparr>unlocked_level := 1\<rparr>\<rparr>"
  have "sim_inv ?sim" using boot_sim_inv [of "\<lparr>tv_sec = 0, tv_nsec = 0\<rparr>" 1 3]
    by (simp add: sim_inv_def boot_sim_def sec_inv_def zero_security_def sec_consts)
  then show ?thesis
    unfolding Let_def
    using unlock_survives_session [where sim = ?sim and n = 8 and b = "replicate 8 0" and did = DID_VIN and
        data = "replicate 17 0x41" and e = "default_did DID_VIN (ascii ''1HGCM82633A123456'') True True"]
    by (simp add: boot_vin) metis
qed

end
