(* ===== verification/EcuRun.thy ===== *)
theory EcuRun
  imports EcuTrace IsoTpLink IsoTpSafe
begin

text \<open>
  The life cycle of the simulator: what \<open>ecusim_init\<close> leaves behind, one round of \<open>ecusim_run\<close> on an
  arbitrary kernel and on a link that delivers, and when the loop ends.
\<close>

section \<open>Initialisation\<close>

lemma populate_defaults_eq:
  "ecusim_populate_defaults sim = sim\<lparr>sim_did_count := 5, sim_dtc_count := 2,
     sim_did_reg := \<lparr>did_entries = Some (default_dids @ replicate 11 zero_did), did_count = 5\<rparr>,
     sim_dtc_reg := \<lparr>dtc_entries = Some (default_dtcs @ replicate 6 zero_dtc), dtc_count = 2\<rparr>\<rparr>"
  by (simp add: ecusim_populate_defaults_def Let_def uds_did_registry_init_def uds_dtc_registry_init_def
      default_dids_def default_dtcs_def ECUSIM_MAX_DIDS_def ECUSIM_MAX_DTCS_def)

lemma flash_boot:
  "uds_flash_init (Some zero_flash) (Some [\<lparr>base_address = 0, rg_size = 256 * 1024, protected = False\<rparr>]) 1 =
   Some (Some (sim_flash (boot_sim now eid s)))"
  by (simp add: uds_flash_init_def zero_flash_def flash_fill_def mem_cpy_def mem_simps boot_sim_def splice_def
      UDS_FLASH_MAX_REGIONS_def numeral_eq_Suc)

text \<open>The part of \<open>ecusim_init\<close> that works on the socket, on the simulator initialised so far.\<close>

definition connect :: "('f, 'k) can_kernel \<Rightarrow> string ptr \<Rightarrow> EcuSimulator \<Rightarrow> 'k \<Rightarrow> (int \<times> EcuSimulator ptr \<times> 'k) option" where
  "connect K ifname sim k =
     (let (rc, sock, k) = uds_can_open K (Some (sim_sock sim)) ifname k;
          sim = at (\<lambda>s. sim_sock_update (\<lambda>_. s)) sim sock in
      if rc \<noteq> UDS_CAN_OK then Some (-1, Some sim, k)
      else do {
        (rc, k) \<leftarrow> uds_can_set_filter K (Some (sim_sock sim))
                    (Some [\<lparr>flt_can_id = sim_req_can_id sim, flt_can_mask = 0x7FF\<rparr>]) 1 k;
        if rc \<noteq> UDS_CAN_OK then
          (let (sock, k) = uds_can_close K (Some (sim_sock sim)) k
           in Some (-1, Some (at (\<lambda>s. sim_sock_update (\<lambda>_. s)) sim sock), k))
        else Some (0, Some sim, k) })"

lemma ecusim_init_connect:
  "ecusim_init K now (Some sim0) eid (Some name) k = connect K (Some name) (boot_sim now eid 0) k"
proof -
  define z where "z = zero_simulator\<lparr>sim_ecu_id := eid, sim_req_can_id := uds_can_req_id eid,
    sim_resp_can_id := uds_can_resp_id eid, sim_running := 1\<rparr>"
  define s where "s = at put_session z (uds_core_session_init now (Some (sim_session z)) eid None)"
  define A where "A = at put_security s (uds_core_security_init (Some (sim_security s)))"
  have "ecusim_init K now (Some sim0) eid (Some name) k =
      do { fl \<leftarrow> uds_flash_init (Some (sim_flash A)) (Some [\<lparr>base_address = 0, rg_size = 256 * 1024, protected = False\<rparr>]) 1;
           connect K (Some name) (ecusim_populate_defaults
             (at put_xfer (at put_flash A fl) (uds_xfer_init (Some (sim_xfer (at put_flash A fl)))))) k }"
    by (simp only: ecusim_init_def connect_def A_def s_def z_def Let_def option.distinct simp_thms if_False)
  moreover have "sim_flash A = zero_flash"
    by (simp add: A_def s_def z_def zero_simulator_def uds_core_session_init_def uds_core_security_init_def)
  moreover have "ecusim_populate_defaults (at put_xfer (at put_flash A (Some (sim_flash (boot_sim now eid 0))))
      (uds_xfer_init (Some (sim_xfer (at put_flash A (Some (sim_flash (boot_sim now eid 0)))))))) = boot_sim now eid 0"
    by (simp add: A_def s_def z_def zero_simulator_def uds_core_session_init_def uds_core_security_init_def
        uds_xfer_init_def populate_defaults_eq boot_sim_def)
  ultimately show ?thesis using flash_boot [of now eid 0] by simp
qed

lemma boot_sock: "sim_sock_update (\<lambda>_. \<lparr>fd = s\<rparr>) (boot_sim now eid s') = boot_sim now eid s"
  by (simp add: boot_sim_def)

lemma boot_sim_sel [simp]:
  "sim_sock (boot_sim now eid s) = \<lparr>fd = s\<rparr>" "sim_req_can_id (boot_sim now eid s) = uds_can_req_id eid"
  "sim_running (boot_sim now eid s) = 1"
  by (simp_all add: boot_sim_def)

text \<open>
  C33. Initialisation is complete or leaves nothing behind. For any content of the caller's
  structure, on a kernel that accounts for descriptors, \<open>ecusim_init\<close> returns 0 or -1. With 0 the
  simulator is exactly the start state of the simulator (default session, locked, default data,
  erased flash), it satisfies the invariant of the dispatcher, it is running, it owns one open descriptor
  and the last thing the kernel was asked to do is to filter on the request identifier of this ECU. With -1 no more
  descriptors are open than before.
\<close>

theorem ecusim_init_exact:
  assumes "fd_accounting K nopen" "\<And>s fs q. nopen (snd (k_set_filter K s fs q)) = nopen q"
  shows "\<exists>rc sim k'. ecusim_init K now (Some sim0) eid (Some name) k = Some (rc, Some sim, k') \<and> rc \<in> {0, -1} \<and>
    (rc = 0 \<longrightarrow> sim_inv sim \<and> sim_running sim \<noteq> 0 \<and> nopen k' = nopen k + 1 \<and>
       (\<exists>s r q. 0 \<le> s \<and> sim = boot_sim now eid s \<and> 0 \<le> r \<and>
          k_set_filter K s [\<lparr>flt_can_id = uds_can_req_id eid, flt_can_mask = 0x7FF\<rparr>] q = (r, k'))) \<and>
    (rc = -1 \<longrightarrow> nopen k' = nopen k)"
proof -
  obtain rc1 sock k1 where o: "uds_can_open K (Some \<lparr>fd = 0\<rparr>) (Some name) k = (rc1, sock, k1)"
    by (metis prod.exhaust)
  note acc = open_accounting [OF assms(1) o]
  show ?thesis
  proof (cases "rc1 = UDS_CAN_OK")
    case False
    with acc show ?thesis by (simp add: ecusim_init_connect connect_def o)
  next
    case True
    with acc obtain s where s: "sock = Some \<lparr>fd = s\<rparr>" "0 \<le> s" "nopen k1 = nopen k + 1" by blast
    obtain r k2 where f: "k_set_filter K s [\<lparr>flt_can_id = uds_can_req_id eid, flt_can_mask = 0x7FF\<rparr>] k1 = (r, k2)"
      by (metis prod.exhaust)
    have n2: "nopen k2 = nopen k1" using assms(2) [of s _ k1] f by (metis snd_conv)
    have close: "nopen (k_close K s k2) = nopen k2 - 1" using assms(1) by (simp add: fd_accounting_def)
    have filt: "uds_can_set_filter K (Some \<lparr>fd = s\<rparr>) (Some [\<lparr>flt_can_id = uds_can_req_id eid, flt_can_mask = 0x7FF\<rparr>]) 1 k1 =
        Some (if r < 0 then UDS_CAN_ERR_FILTER else UDS_CAN_OK, k2)"
      using s(2) f by (simp add: uds_can_set_filter_def UDS_CAN_MAX_FILTERS_def mem_simps)
    have eq: "ecusim_init K now (Some sim0) eid (Some name) k =
        (if r < 0 then Some (-1, Some (boot_sim now eid (-1)), k_close K s k2) else Some (0, Some (boot_sim now eid s), k2))"
      using s(2) True by (simp add: ecusim_init_connect connect_def o s(1) boot_sock filt [unfolded One_nat_def] uds_can_close_def Let_def)
    show ?thesis
    proof (cases "r < 0")
      case True
      with eq n2 close s(3) show ?thesis by simp
    next
      case False
      with s(2) f have "\<exists>s' r q. 0 \<le> s' \<and> boot_sim now eid s = boot_sim now eid s' \<and> 0 \<le> r \<and>
          k_set_filter K s' [\<lparr>flt_can_id = uds_can_req_id eid, flt_can_mask = 0x7FF\<rparr>] q = (r, k2)"
        by (intro exI [of _ s] exI [of _ r] exI [of _ k1]) simp
      with False eq n2 s(3) show ?thesis by (simp add: boot_sim_inv)
    qed
  qed
qed

theorem ecusim_init_exact_witness:
  "\<exists>sim k'. ecusim_init (vcan_kernel 16 :: (can_frame, can_frame vcan) can_kernel) \<lparr>tv_sec = 7, tv_nsec = 0\<rparr> (Some zero_simulator) 1
      (Some ''vcan0'') \<lparr>vc_in = [], vc_out = [], vc_open = 2, vc_filters = [], vc_slept = 0\<rparr> = Some (0, Some sim, k') \<and>
    vc_open k' = 3 \<and> sim_inv sim"
proof -
  have filt: "vc_open (snd (k_set_filter (vcan_kernel 16) s fs q)) = vc_open q" for s fs and q :: "can_frame vcan"
    by (simp add: vcan_kernel_def)
  have ok: "\<exists>sim k'. ecusim_init (vcan_kernel 16 :: (can_frame, can_frame vcan) can_kernel) \<lparr>tv_sec = 7, tv_nsec = 0\<rparr> (Some zero_simulator) 1
      (Some ''vcan0'') \<lparr>vc_in = [], vc_out = [], vc_open = 2, vc_filters = [], vc_slept = 0\<rparr> = Some (0, Some sim, k')"
    by (simp add: ecusim_init_connect connect_def uds_can_open_def uds_can_set_filter_def vcan_kernel_def mem_simps
        UDS_CAN_MAX_FILTERS_def)
  with ecusim_init_exact [OF vcan_accounting filt, of "\<lparr>tv_sec = 7, tv_nsec = 0\<rparr>" zero_simulator 1 "''vcan0''"
      "\<lparr>vc_in = [], vc_out = [], vc_open = 2, vc_filters = [], vc_slept = 0\<rparr>"]
  show ?thesis by auto
qed

text \<open>
  C40. Cleaning up after a failed initialisation is not always safe. With an empty interface name
  \<open>ecusim_init\<close> fails before it has marked the socket as closed, so the handle still holds the
  descriptor 0 from the clearing of the structure: \<open>ecusim_cleanup\<close> closes descriptor 0, which the
  simulator never opened. After a failure of any later step the handle is invalid and cleanup does nothing.
\<close>

theorem cleanup_after_failed_init:
  assumes "ecusim_init K now (Some sim0) eid (Some name) k = Some (-1, Some sim, k')" "fd_accounting K nopen"
  shows "if name = [] then ecusim_cleanup K (Some sim) k' = (Some (boot_sim now eid (-1)), k_close K 0 k')
    else ecusim_cleanup K (Some sim) k' = (Some sim, k')"
proof -
  obtain rc1 sock k1 where o: "uds_can_open K (Some \<lparr>fd = 0\<rparr>) (Some name) k = (rc1, sock, k1)"
    by (metis prod.exhaust)
  note acc = open_accounting [OF assms(2) o]
  show ?thesis
  proof (cases "rc1 = UDS_CAN_OK")
    case True
    with acc obtain s where s: "sock = Some \<lparr>fd = s\<rparr>" "0 \<le> s" by blast
    from True o have name: "name \<noteq> []" by (auto simp: uds_can_open_def)
    from assms(1) True have "sim_sock sim = \<lparr>fd = -1\<rparr>"
      using s by (auto simp: ecusim_init_connect connect_def o boot_sock Let_def uds_can_close_def Option.bind_eq_Some_conv
          split: if_splits prod.splits)
    with name show ?thesis by (cases sim) (simp add: ecusim_cleanup_def uds_can_close_def)
  next
    case False
    show ?thesis
    proof (cases "name = []")
      case True
      with o have "rc1 = UDS_CAN_ERR_PARAM" "sock = Some \<lparr>fd = 0\<rparr>" "k1 = k" by (simp_all add: uds_can_open_def)
      with assms(1) have "sim = boot_sim now eid 0" "k' = k"
        by (simp_all add: ecusim_init_connect connect_def o boot_sock)
      with True show ?thesis by (simp add: ecusim_cleanup_def uds_can_close_def boot_sock)
    next
      case nonempty: False
      have "rc1 \<noteq> UDS_CAN_ERR_PARAM"
        using o nonempty by (auto simp: uds_can_open_def Let_def split: if_splits prod.splits)
      with acc False have "sock = Some \<lparr>fd = -1\<rparr>" by blast
      with assms(1) False have "sim = boot_sim now eid (-1)" by (simp add: ecusim_init_connect connect_def o boot_sock)
      with nonempty show ?thesis by (simp add: ecusim_cleanup_def uds_can_close_def boot_sock)
    qed
  qed
qed

theorem cleanup_after_failed_init_witness:
  "\<exists>sim. ecusim_init (vcan_kernel 16 :: (can_frame, can_frame vcan) can_kernel) \<lparr>tv_sec = 7, tv_nsec = 0\<rparr> (Some zero_simulator) 1
      (Some []) \<lparr>vc_in = [], vc_out = [], vc_open = 3, vc_filters = [], vc_slept = 0\<rparr> =
      Some (-1, Some sim, \<lparr>vc_in = [], vc_out = [], vc_open = 3, vc_filters = [], vc_slept = 0\<rparr>) \<and>
    vc_open (snd (ecusim_cleanup (vcan_kernel 16 :: (can_frame, can_frame vcan) can_kernel) (Some sim)
      \<lparr>vc_in = [], vc_out = [], vc_open = 3, vc_filters = [], vc_slept = 0\<rparr>)) = 2"
proof -
  let ?k = "\<lparr>vc_in = [], vc_out = [], vc_open = 3, vc_filters = [], vc_slept = 0\<rparr> :: can_frame vcan"
  have r: "ecusim_init (vcan_kernel 16) \<lparr>tv_sec = 7, tv_nsec = 0\<rparr> (Some zero_simulator) 1 (Some []) ?k =
      Some (-1, Some (boot_sim \<lparr>tv_sec = 7, tv_nsec = 0\<rparr> 1 0), ?k)"
    by (simp add: ecusim_init_connect connect_def uds_can_open_def boot_sock)
  from cleanup_after_failed_init [OF r vcan_accounting] r show ?thesis
    by (intro exI [of _ "boot_sim \<lparr>tv_sec = 7, tv_nsec = 0\<rparr> 1 0"]) (simp add: vcan_kernel_def)
qed

section \<open>One round of the loop\<close>

lemma dispatch_total:
  assumes "sim_inv sim" "length req < 2 ^ 32" "3 \<le> n" "n \<le> length b"
  obtains sim' b' l where "ecusim_dispatch clk rnd sim req b n = Some (sim', b', l)"
proof (cases "req = []")
  case True
  with that show thesis by (simp add: ecusim_dispatch_def)
next
  case False
  from dispatch_ok [OF assms(1) False assms(2-4)] that show thesis by metis
qed

lemma ecusim_round_total:
  assumes "reads_whole (\<lambda>f. length (can_data f) = 8) K" "sim_inv sim" "length rq = ECUSIM_MAX_PDU" "length rp = ECUSIM_MAX_PDU"
  shows "\<exists>sim' rq' rp' k'. ecusim_round K env blank sim rq rp k = Some (sim', rq', rp', k') \<and> sim_inv sim' \<and>
    length rq' = ECUSIM_MAX_PDU \<and> length rp' = ECUSIM_MAX_PDU \<and> sim_running sim' = sim_running sim"
proof -
  have n: "ECUSIM_MAX_PDU \<le> length rq" "ECUSIM_MAX_PDU < 2 ^ 32" using assms(3) by (simp_all add: ECUSIM_MAX_PDU_def)
  from recv_safe [OF assms(1) n, of blank "sim_sock sim" "sim_resp_can_id sim" 0 "Some sim_tp_cfg" k]
  obtain rc rq' l k1 where r: "uds_tp_recv K blank (Some (sim_sock sim)) (sim_resp_can_id sim) (Some rq) ECUSIM_MAX_PDU (Some 0)
      (Some sim_tp_cfg) k = Some (rc, Some rq', Some l, k1)" "length rq' = length rq" "rc = UDS_TP_OK \<Longrightarrow> l \<le> ECUSIM_MAX_PDU"
    by (metis (full_types))
  show ?thesis
  proof (cases "rc = UDS_TP_OK")
    case False
    with r(1,2) assms(2-4) show ?thesis by (auto simp: ecusim_round_def)
  next
    case True
    define req where "req = take l rq'"
    have rd: "mem_read (Some rq') 0 l = Some req" "length req < 2 ^ 32"
      using r(2,3) True assms(3) by (simp_all add: mem_simps req_def ECUSIM_MAX_PDU_def)
    have room: "3 \<le> ECUSIM_MAX_PDU" "ECUSIM_MAX_PDU \<le> length rp" using assms(4) by (simp_all add: ECUSIM_MAX_PDU_def)
    obtain sim' b' l' where d: "ecusim_dispatch (env_clock env k1) (env_rand env k1) sim req rp ECUSIM_MAX_PDU = Some (sim', b', l')"
      by (rule dispatch_total [OF assms(2) rd(2) room])
    note step = dispatch_step [OF assms(2) rd(2) room d]
    have run: "sim_running sim' = sim_running sim" using step(2,3) by (auto simp: owns_def)
    obtain rc2 k2 where snd: "uds_tp_send K (env_sleep env) blank (Some (sim_sock sim')) (sim_resp_can_id sim') (Some (take l' b'))
        l' (Some sim_tp_cfg) k1 = Some (rc2, k2)"
      using send_safe [OF assms(1), of "env_sleep env" blank "sim_sock sim'" "sim_resp_can_id sim'" "take l' b'" "Some sim_tp_cfg" k1]
        step(4) by auto
    have "mem_read (Some b') 0 l' = Some (take l' b')" using step(4) by (simp add: mem_simps)
    with r(1,2) True rd d snd step(1,5) run assms(3,4) show ?thesis
      by (cases "l' = 0") (simp_all add: ecusim_round_def)
  qed
qed

text \<open>\<open>m\<close> rounds in a row, whatever the running flag says.\<close>

fun ecusim_rounds :: "(can_frame, 'k) can_kernel \<Rightarrow> 'k sim_env \<Rightarrow> can_frame \<Rightarrow> nat \<Rightarrow>
    EcuSimulator \<times> u8 list \<times> u8 list \<times> 'k \<Rightarrow> (EcuSimulator \<times> u8 list \<times> u8 list \<times> 'k) option" where
  "ecusim_rounds K env blank 0 st = Some st"
| "ecusim_rounds K env blank (Suc m) (sim, rq, rp, k) = do {
     st \<leftarrow> ecusim_round K env blank sim rq rp k;
     ecusim_rounds K env blank m st }"

text \<open>None of them faults, and none changes the running flag.\<close>

lemma ecusim_rounds_total:
  assumes "reads_whole (\<lambda>f. length (can_data f) = 8) K"
  shows "sim_inv sim \<Longrightarrow> length rq = ECUSIM_MAX_PDU \<Longrightarrow> length rp = ECUSIM_MAX_PDU \<Longrightarrow>
    \<exists>sim' rq' rp' k'. ecusim_rounds K env blank m (sim, rq, rp, k) = Some (sim', rq', rp', k') \<and>
      sim_inv sim' \<and> sim_running sim' = sim_running sim"
proof (induction m arbitrary: sim rq rp k)
  case (Suc m)
  obtain sim' rq' rp' k' where r: "ecusim_round K env blank sim rq rp k = Some (sim', rq', rp', k')" "sim_inv sim'"
    "length rq' = ECUSIM_MAX_PDU" "length rp' = ECUSIM_MAX_PDU" "sim_running sim' = sim_running sim"
    using ecusim_round_total [OF assms Suc.prems] by blast
  from Suc.IH [OF r(2-4), of k'] r(1,5) show ?case by auto
qed simp

definition stops_after :: "(can_frame, 'k) can_kernel \<Rightarrow> 'k sim_env \<Rightarrow> can_frame \<Rightarrow> nat \<Rightarrow>
    EcuSimulator \<times> u8 list \<times> u8 list \<times> 'k \<Rightarrow> bool" where
  "stops_after K env blank m st \<longleftrightarrow>
     (case ecusim_rounds K env blank m st of Some (sim, rq, rp, k) \<Rightarrow> env_stopped env k | None \<Rightarrow> False)"

lemma ecusim_loop_stops:
  assumes "reads_whole (\<lambda>f. length (can_data f) = 8) K"
  shows "sim_inv sim \<Longrightarrow> length rq = ECUSIM_MAX_PDU \<Longrightarrow> length rp = ECUSIM_MAX_PDU \<Longrightarrow>
    stops_after K env blank m (sim, rq, rp, k) \<Longrightarrow>
    \<exists>sim' k'. ecusim_loop K env blank sim rq rp k = Some (sim', k') \<and> sim_inv sim' \<and> sim_running sim' = 0"
proof (induction m arbitrary: sim rq rp k)
  case 0
  have "sim_inv (sim\<lparr>sim_running := 0\<rparr>)" using 0(1) by (simp add: sim_inv_def)
  with 0 show ?case by (subst ecusim_loop.simps) (simp add: stops_after_def)
next
  case (Suc m)
  show ?case
  proof (cases "env_stopped env k \<or> sim_running sim = 0")
    case True
    have "sim_inv (sim\<lparr>sim_running := 0\<rparr>)" using Suc.prems(1) by (simp add: sim_inv_def)
    with True Suc.prems(1) show ?thesis by (subst ecusim_loop.simps) auto
  next
    case False
    obtain sim' rq' rp' k' where r: "ecusim_round K env blank sim rq rp k = Some (sim', rq', rp', k')" "sim_inv sim'"
      "length rq' = ECUSIM_MAX_PDU" "length rp' = ECUSIM_MAX_PDU"
      using ecusim_round_total [OF assms Suc.prems(1-3)] by blast
    with Suc.prems(4) have "stops_after K env blank m (sim', rq', rp', k')" by (simp add: stops_after_def)
    from Suc.IH [OF r(2-4) this] r(1) False show ?thesis by (subst ecusim_loop.simps) simp
  qed
qed

lemma ecusim_loop_stopped:
  assumes "ecusim_loop K env blank sim rq rp k = Some y"
  shows "reads_whole (\<lambda>f. length (can_data f) = 8) K \<longrightarrow> sim_inv sim \<longrightarrow> length rq = ECUSIM_MAX_PDU \<longrightarrow>
    length rp = ECUSIM_MAX_PDU \<longrightarrow> sim_running sim \<noteq> 0 \<longrightarrow> (\<exists>m. stops_after K env blank m (sim, rq, rp, k))"
proof (rule ecusim_loop.raw_induct [where P = "\<lambda>K env blank sim rq rp k y.
    reads_whole (\<lambda>f. length (can_data f) = 8) K \<longrightarrow> sim_inv sim \<longrightarrow> length rq = ECUSIM_MAX_PDU \<longrightarrow>
    length rp = ECUSIM_MAX_PDU \<longrightarrow> sim_running sim \<noteq> 0 \<longrightarrow> (\<exists>m. stops_after K env blank m (sim, rq, rp, k))",
    OF _ assms], intro impI)
  fix loop and K :: "(can_frame, 'a) can_kernel" and env blank sim rq rp k y
  assume IH: "\<And>K env blank sim rq rp k y. loop K env blank sim rq rp k = Some y \<Longrightarrow>
      reads_whole (\<lambda>f. length (can_data f) = 8) K \<longrightarrow> sim_inv sim \<longrightarrow> length rq = ECUSIM_MAX_PDU \<longrightarrow>
      length rp = ECUSIM_MAX_PDU \<longrightarrow> sim_running sim \<noteq> 0 \<longrightarrow> (\<exists>m. stops_after K env blank m (sim, rq, rp, k))"
    and body: "(let sim = if env_stopped env k then sim\<lparr>sim_running := 0\<rparr> else sim
      in if sim_running sim \<noteq> 0
         then do { (sim, rq, rp, k) \<leftarrow> ecusim_round K env blank sim rq rp k; loop K env blank sim rq rp k }
         else Some (sim, k)) = Some y"
    and w: "reads_whole (\<lambda>f. length (can_data f) = 8) K" and inv: "sim_inv sim" "length rq = ECUSIM_MAX_PDU"
      "length rp = ECUSIM_MAX_PDU" and run: "sim_running sim \<noteq> 0"
  show "\<exists>m. stops_after K env blank m (sim, rq, rp, k)"
  proof (cases "env_stopped env k")
    case True
    then show ?thesis by (intro exI [of _ 0]) (simp add: stops_after_def)
  next
    case False
    obtain sim' rq' rp' k' where r: "ecusim_round K env blank sim rq rp k = Some (sim', rq', rp', k')" "sim_inv sim'"
      "length rq' = ECUSIM_MAX_PDU" "length rp' = ECUSIM_MAX_PDU" "sim_running sim' = sim_running sim"
      using ecusim_round_total [OF w inv] by blast
    with body run False have "loop K env blank sim' rq' rp' k' = Some y" by simp
    with IH w r(2-5) run obtain m where "stops_after K env blank m (sim', rq', rp', k')" by metis
    with r(1) show ?thesis by (intro exI [of _ "Suc m"]) (simp add: stops_after_def)
  qed
qed

text \<open>
  C20. When \<open>ecusim_run\<close> ends. On any kernel, against any peer, a running simulator keeps serving
  without a fault, and \<open>ecusim_run\<close> returns exactly if \<open>ecusim_stop\<close> has been called by the end of some
  round: with such a call it returns, stopped and with its invariant intact; without one it never
  returns, whatever is received. Nothing else ends the loop.
\<close>

theorem run_ends_iff_stopped:
  assumes "reads_whole (\<lambda>f. length (can_data f) = 8) K" "sim_inv sim" "sim_running sim \<noteq> 0"
    and "length rq = ECUSIM_MAX_PDU" "length rp = ECUSIM_MAX_PDU"
  shows "if \<exists>m. stops_after K env blank m (sim, rq, rp, k)
    then \<exists>sim' k'. ecusim_run K env blank rq rp (Some sim) k = Some (Some sim', k') \<and> sim_running sim' = 0 \<and> sim_inv sim'
    else (\<forall>m. ecusim_rounds K env blank m (sim, rq, rp, k) \<noteq> None) \<and> ecusim_run K env blank rq rp (Some sim) k = None"
proof (cases "\<exists>m. stops_after K env blank m (sim, rq, rp, k)")
  case True
  then obtain m where m: "stops_after K env blank m (sim, rq, rp, k)" ..
  from ecusim_loop_stops [OF assms(1,2,4,5) m] True show ?thesis by (auto simp: ecusim_run_def)
next
  case False
  have "ecusim_loop K env blank sim rq rp k = None"
    using ecusim_loop_stopped [of K env blank sim rq rp k] assms False by (cases "ecusim_loop K env blank sim rq rp k") auto
  moreover have "ecusim_rounds K env blank m (sim, rq, rp, k) \<noteq> None" for m
    using ecusim_rounds_total [OF assms(1,2,4,5), of env blank m k] by auto
  ultimately show ?thesis using False by (simp add: ecusim_run_def)
qed

text \<open>A peer that floods the bus with broken frames.\<close>

theorem run_ends_iff_stopped_witness:
  "ecusim_run (repeating_kernel 16 \<lparr>can_id = 0x601, can_dlc = 8, can_data = replicate 8 0xFF\<rparr>)
      \<lparr>env_clock = (\<lambda>_ _. \<lparr>tv_sec = 0, tv_nsec = 0\<rparr>), env_rand = (\<lambda>_ _. 0), env_sleep = (\<lambda>_ k. k), env_stopped = (\<lambda>_. False)\<rparr>
      \<lparr>can_id = 0, can_dlc = 0, can_data = []\<rparr> (replicate 4095 0) (replicate 4095 0)
      (Some (boot_sim \<lparr>tv_sec = 0, tv_nsec = 0\<rparr> 1 3))
      \<lparr>vc_in = [], vc_out = [], vc_open = 1, vc_filters = [], vc_slept = 0\<rparr> = None"
proof -
  let ?f = "\<lparr>can_id = 0x601, can_dlc = 8, can_data = replicate 8 0xFF\<rparr>"
  let ?env = "\<lparr>env_clock = (\<lambda>_ _. \<lparr>tv_sec = 0, tv_nsec = 0\<rparr>), env_rand = (\<lambda>_ _. 0), env_sleep = (\<lambda>_ k. k),
    env_stopped = (\<lambda>_. False)\<rparr> :: can_frame vcan sim_env"
  have w: "reads_whole (\<lambda>f. length (can_data f) = 8) (repeating_kernel 16 ?f)" by (rule repeating_whole) simp
  have never: "\<not> stops_after K ?env blank m st" for K blank m st
    by (auto simp: stops_after_def split: option.splits)
  from run_ends_iff_stopped [OF w boot_sim_inv, where env = ?env and rq = "replicate 4095 0" and rp = "replicate 4095 0"]
  show ?thesis by (simp add: never ECUSIM_MAX_PDU_def)
qed

section \<open>One round on a link that delivers\<close>

lemma round_effect:
  assumes "sim_inv sim" "0 \<le> fd (sim_sock sim)" "d \<noteq> []" "length d \<le> 4095"
    and "length rq = ECUSIM_MAX_PDU" "length rp = ECUSIM_MAX_PDU" "env_sleep env = vcan_sleep"
    and "vc_in k = classic.segments blank cid d @ rest"
  shows "\<exists>k1 sim' b' l. vc_in k1 = rest \<and>
    vc_out k1 = vc_out k @ replicate (blocks (classic_cfs (length d)) 0)
      (classic.fc_frame blank (sim_resp_can_id sim) UDS_TP_FC_CTS 0 0) \<and>
    ecusim_dispatch (env_clock env k1) (env_rand env k1) sim d rp ECUSIM_MAX_PDU = Some (sim', b', l) \<and> l \<le> ECUSIM_MAX_PDU \<and>
    (l = 0 \<longrightarrow> ecusim_round (vcan_kernel sz) env blank sim rq rp k = Some (sim', splice 0 d rq, b', k1)) \<and>
    (\<forall>tid bs st rest'. 0 < l \<and> rest = replicate (blocks (classic_cfs l) (unat bs)) (classic.fc_frame blank tid UDS_TP_FC_CTS bs st) @ rest' \<longrightarrow>
      (\<exists>k2. ecusim_round (vcan_kernel sz) env blank sim rq rp k = Some (sim', splice 0 d rq, b', k2) \<and>
         vc_out k2 = vc_out k1 @ classic.segments blank (sim_resp_can_id sim) (take l b') \<and> vc_in k2 = rest'))"
proof -
  have cfg: "timeout_ms sim_tp_cfg \<noteq> 0" "block_size sim_tp_cfg = 0" "st_min sim_tp_cfg = 0" by (simp_all add: sim_tp_cfg_def)
  have room: "length d \<le> ECUSIM_MAX_PDU" "ECUSIM_MAX_PDU \<le> length rq" "ECUSIM_MAX_PDU < 2 ^ 32"
    "3 \<le> ECUSIM_MAX_PDU" "ECUSIM_MAX_PDU \<le> length rp" "length d < 2 ^ 32"
    using assms(4-6) by (simp_all add: ECUSIM_MAX_PDU_def)
  obtain k1 where r: "uds_tp_recv (vcan_kernel sz) blank (Some (sim_sock sim)) (sim_resp_can_id sim) (Some rq) ECUSIM_MAX_PDU
      (Some 0) (Some sim_tp_cfg) k = Some (UDS_TP_OK, Some (splice 0 d rq), Some (length d), k1)"
    "vc_out k1 = vc_out k @ replicate (blocks (classic_cfs (length d)) 0)
      (classic.fc_frame blank (sim_resp_can_id sim) UDS_TP_FC_CTS 0 0)" "vc_in k1 = rest"
    using classic_recv [OF assms(3,4,2) cfg(1) room(1-3) assms(8), of sz "sim_resp_can_id sim" 0] cfg by auto
  have rd: "mem_read (Some (splice 0 d rq)) 0 (length d) = Some d"
    using room(1,2) by (simp add: mem_simps)
  from dispatch_ok [OF assms(1,3) room(6) room(4,5)] obtain sim' b' l where
    d: "ecusim_dispatch (env_clock env k1) (env_rand env k1) sim d rp ECUSIM_MAX_PDU = Some (sim', b', l)" "l \<le> ECUSIM_MAX_PDU"
    "serves (hd d) sim sim'" "length b' = length rp" by metis
  have same: "sim_sock sim' = sim_sock sim" "sim_resp_can_id sim' = sim_resp_can_id sim"
    using d(3) by (simp_all add: serves_def owns_def)
  have wr: "mem_read (Some b') 0 l = Some (take l b')" "length (take l b') = l" using d(2,4) room(5) by (simp_all add: mem_simps)
  have round: "ecusim_round (vcan_kernel sz) env blank sim rq rp k = (if l > 0 then do {
         (rc, k) \<leftarrow> uds_tp_send (vcan_kernel sz) vcan_sleep blank (Some (sim_sock sim)) (sim_resp_can_id sim)
                     (Some (take l b')) l (Some sim_tp_cfg) k1;
         Some (sim', splice 0 d rq, b', k) }
       else Some (sim', splice 0 d rq, b', k1))"
    using r(1) rd d(1) wr(1) same by (simp add: ecusim_round_def assms(7))
  have send: "\<exists>k2. ecusim_round (vcan_kernel sz) env blank sim rq rp k = Some (sim', splice 0 d rq, b', k2) \<and>
         vc_out k2 = vc_out k1 @ classic.segments blank (sim_resp_can_id sim) (take l b') \<and> vc_in k2 = rest'"
    if "0 < l" "rest = replicate (blocks (classic_cfs l) (unat bs)) (classic.fc_frame blank tid UDS_TP_FC_CTS bs st) @ rest'"
    for tid bs st rest'
  proof -
    from that(1) wr(2) have "take l b' \<noteq> []" "length (take l b') \<le> 4095" using d(2) by (auto simp: ECUSIM_MAX_PDU_def)
    from classic_send_cts [OF this assms(2) cfg(1), where bs = bs, unfolded wr(2), of k1 blank tid st rest' sz "sim_resp_can_id sim"]
      r(3) that round show ?thesis by auto
  qed
  show ?thesis
    by (rule exI [of _ k1], rule exI [of _ sim'], rule exI [of _ b'], rule exI [of _ l], intro conjI)
       (rule r(3), rule r(2), rule d(1), rule d(2), simp add: round, use send in blast)
qed

text \<open>
  C8. One round serves one request, end to end. When the frames of a request \<open>d\<close> of 1 to 4095 bytes
  wait on the link, one round of \<open>ecusim_run\<close> takes exactly them, answers a First Frame with its Flow
  Controls, gives the dispatcher exactly the bytes \<open>d\<close>, and sends exactly the bytes of the response the
  dispatcher made, under the response identifier of the ECU, to a tester that grants the blocks with
  any block size and separation time; when there is no response, nothing is sent.
\<close>

theorem round_serves:
  assumes "sim_inv sim" "0 \<le> fd (sim_sock sim)" "d \<noteq> []" "length d \<le> 4095"
    and "length rq = ECUSIM_MAX_PDU" "length rp = ECUSIM_MAX_PDU" "env_sleep env = vcan_sleep"
    and "vc_in k = classic.segments blank cid d @ rest"
  shows "\<exists>k1 sim' b' l. vc_in k1 = rest \<and>
    vc_out k1 = vc_out k @ replicate (blocks (classic_cfs (length d)) 0)
      (classic.fc_frame blank (sim_resp_can_id sim) UDS_TP_FC_CTS 0 0) \<and>
    ecusim_dispatch (env_clock env k1) (env_rand env k1) sim d rp ECUSIM_MAX_PDU = Some (sim', b', l) \<and> l \<le> ECUSIM_MAX_PDU \<and>
    (l = 0 \<longrightarrow> ecusim_round (vcan_kernel sz) env blank sim rq rp k = Some (sim', splice 0 d rq, b', k1)) \<and>
    (\<forall>tid bs st rest'. 0 < l \<and> rest = replicate (blocks (classic_cfs l) (unat bs)) (classic.fc_frame blank tid UDS_TP_FC_CTS bs st) @ rest' \<longrightarrow>
      (\<exists>k2. ecusim_round (vcan_kernel sz) env blank sim rq rp k = Some (sim', splice 0 d rq, b', k2) \<and>
         vc_out k2 = vc_out k1 @ classic.segments blank (sim_resp_can_id sim) (take l b') \<and> vc_in k2 = rest'))"
  by (rule round_effect [OF assms])

theorem round_serves_witness:
  "\<exists>sim' rq' rp' k2. ecusim_round (vcan_kernel 16)
      \<lparr>env_clock = (\<lambda>_ _. \<lparr>tv_sec = 0, tv_nsec = 0\<rparr>), env_rand = (\<lambda>_ _. 0), env_sleep = vcan_sleep, env_stopped = (\<lambda>_. False)\<rparr>
      \<lparr>can_id = 0, can_dlc = 0, can_data = []\<rparr> (boot_sim \<lparr>tv_sec = 0, tv_nsec = 0\<rparr> 1 3) (replicate 4095 0) (replicate 4095 0)
      \<lparr>vc_in = classic.segments \<lparr>can_id = 0, can_dlc = 0, can_data = []\<rparr> 0x601 [0x3E, 0x80], vc_out = [], vc_open = 1,
        vc_filters = [], vc_slept = 0\<rparr> = Some (sim', rq', rp', k2) \<and> vc_out k2 = []"
proof -
  let ?blank = "\<lparr>can_id = 0, can_dlc = 0, can_data = []\<rparr> :: can_frame"
  let ?env = "\<lparr>env_clock = (\<lambda>_ _. \<lparr>tv_sec = 0, tv_nsec = 0\<rparr>), env_rand = (\<lambda>_ _. 0), env_sleep = vcan_sleep,
    env_stopped = (\<lambda>_. False)\<rparr> :: can_frame vcan sim_env"
  let ?sim = "boot_sim \<lparr>tv_sec = 0, tv_nsec = 0\<rparr> 1 3"
  let ?k = "\<lparr>vc_in = classic.segments ?blank 0x601 [0x3E, 0x80], vc_out = [], vc_open = 1, vc_filters = [], vc_slept = 0\<rparr>"
  have suppressed: "\<exists>s. ecusim_dispatch c r ?sim [0x3E, 0x80] b 4095 = Some (s, b, 0)" for c r b
    by (simp add: ecusim_dispatch_def dispatch_switch_def on_tester_present_def mem_simps call_def
        uds_core_tester_present_def Let_def)
  have none: "blocks (classic_cfs (length [0x3E :: u8, 0x80])) 0 = 0"
    by (simp add: classic_cfs_def tp_consts blocks_simps)
  have p: "0 \<le> fd (sim_sock ?sim)" "[0x3E :: u8, 0x80] \<noteq> []" "length [0x3E :: u8, 0x80] \<le> 4095"
    "length (replicate 4095 (0 :: u8)) = ECUSIM_MAX_PDU" "env_sleep ?env = vcan_sleep"
    "vc_in ?k = classic.segments ?blank 0x601 [0x3E, 0x80] @ []"
    by (simp_all add: ECUSIM_MAX_PDU_def)
  obtain k1 sim' b' l where s: "vc_out k1 = vc_out ?k @ replicate (blocks (classic_cfs (length [0x3E :: u8, 0x80])) 0)
      (classic.fc_frame ?blank (sim_resp_can_id ?sim) UDS_TP_FC_CTS 0 0)"
    "ecusim_dispatch (env_clock ?env k1) (env_rand ?env k1) ?sim [0x3E, 0x80] (replicate 4095 0) ECUSIM_MAX_PDU = Some (sim', b', l)"
    "l = 0 \<longrightarrow> ecusim_round (vcan_kernel 16) ?env ?blank ?sim (replicate 4095 0) (replicate 4095 0) ?k =
       Some (sim', splice 0 [0x3E, 0x80] (replicate 4095 0), b', k1)"
    using round_serves [OF boot_sim_inv p(1-3,4,4,5,6), where sz = 16] by blast
  from s(2) suppressed [of "env_clock ?env k1" "env_rand ?env k1" "replicate 4095 0"] have "l = 0"
    by (auto simp: ECUSIM_MAX_PDU_def)
  with s(1,3) none show ?thesis by auto
qed

end
