(* ===== verification/EcuWire.thy ===== *)
theory EcuWire
  imports EcuRun
begin

text \<open>
  A tester and the ECU on one bus: the tester sends a request and waits for the response with the
  functions of the transport layer, the ECU runs one round of its loop. What each of the two puts on
  the bus is exactly what the other one takes, and the tester ends with the response the dispatcher
  makes of the request.
\<close>

section \<open>Reading the identification number\<close>

lemma boot_backed:
  "did_lookup (sim_did_reg (boot_sim now eid s)) did = Some e \<Longrightarrow> did_backed e"
  by (auto simp: did_lookup_def boot_sim_def default_dids_def ascii_def split: if_splits)

lemma dispatch_read_vin:
  assumes "length b = ECUSIM_MAX_PDU"
  shows "\<exists>b'. ecusim_dispatch clk rnd (boot_sim now eid s) [0x22, 0xF1, 0x90] b ECUSIM_MAX_PDU =
      Some (boot_sim now eid s, b', 20) \<and> take 20 b' = [0x62, 0xF1, 0x90] @ ascii ''1HGCM82633A123456''"
proof -
  let ?reg = "sim_did_reg (boot_sim now eid s)"
  have inv: "did_reg_inv ?reg" using boot_sim_inv [of now eid s] by (simp add: sim_inv_def)
  have b: "ECUSIM_MAX_PDU \<le> length b" "1 \<le> ECUSIM_MAX_PDU" using assms by (simp_all add: ECUSIM_MAX_PDU_def)
  have backed: "\<forall>did e. did_lookup ?reg did = Some e \<longrightarrow> did_backed e" using boot_backed by blast
  have vin: "did_lookup ?reg 0xF190 = Some (default_did DID_VIN (ascii ''1HGCM82633A123456'') True True)"
    using boot_vin [of now eid s] by (simp add: DID_VIN_def)
  have rec: "did_record 0xF190 (default_did DID_VIN (ascii ''1HGCM82633A123456'') True True) =
      [0xF1, 0x90] @ ascii ''1HGCM82633A123456''"
    by (simp add: did_record_def byte_of_def)
  have spec: "read_spec (did_lookup ?reg) ECUSIM_MAX_PDU [0xF190] [0x62] =
      (UDS_CORE_OK, [0x62, 0xF1, 0x90] @ ascii ''1HGCM82633A123456'')"
    by (simp add: vin rec ECUSIM_MAX_PDU_def)
  obtain rc pos' b' c' where r: "uds_svc_read_did (Some [0xF190]) (length [0xF190 :: u16]) (Some ?reg) ECUSIM_MAX_PDU (mk_out b 0 0) =
       Some (rc, Some ?reg, mk_out b' (if rc = UDS_CORE_OK then pos' else 0) c')"
    "read_spec (did_lookup ?reg) ECUSIM_MAX_PDU [0xF190] [0x62] = (rc, take pos' b')" "pos' \<le> length b'"
    by (rule read_did_eq [OF inv backed list.distinct(2) b])
  with spec have ok: "rc = UDS_CORE_OK" "take pos' b' = [0x62, 0xF1, 0x90] @ ascii ''1HGCM82633A123456''" by simp_all
  have "length (take pos' b') = 20" unfolding ok(2) by (simp add: ascii_def)
  with r(3) have "pos' = 20" by simp
  moreover have "be16 0xF1 0x90 = (0xF190 :: u16)" by (simp add: be16_def)
  ultimately have "fill_did_list (Some [0x22, 0xF1, 0x90]) (Suc 0) 0 = Some [0xF190]" by (simp add: mem_simps)
  with r(1) ok \<open>pos' = 20\<close> show ?thesis
    by (simp add: ecusim_dispatch_def dispatch_switch_def on_read_did_def mem_simps call_def Let_def)
qed

section \<open>The two sides\<close>

lemma ecu_side:
  assumes "sim_inv sim" "0 \<le> fd (sim_sock sim)" "d \<noteq> []" "length d \<le> 4095"
    and "length rq = ECUSIM_MAX_PDU" "length rp = ECUSIM_MAX_PDU"
    and "env_sleep env = vcan_sleep" "\<And>k. env_clock env k = clk" "\<And>k. env_rand env k = rnd"
    and "ecusim_dispatch clk rnd sim d rp ECUSIM_MAX_PDU = Some (sim', b', l)" "0 < l"
    and "vc_in ke = (classic.segments blank (sim_req_can_id sim) d @
      replicate (blocks (classic_cfs l) (unat bs)) (classic.fc_frame blank tid UDS_TP_FC_CTS bs st)) @ rest"
  shows "\<exists>ke'. ecusim_round (vcan_kernel sz) env blank sim rq rp ke = Some (sim', splice 0 d rq, b', ke') \<and>
    vc_out ke' = vc_out ke @ replicate (blocks (classic_cfs (length d)) 0)
      (classic.fc_frame blank (sim_resp_can_id sim) UDS_TP_FC_CTS 0 0) @ classic.segments blank (sim_resp_can_id sim) (take l b') \<and>
    vc_in ke' = rest"
proof -
  let ?tfc = "replicate (blocks (classic_cfs l) (unat bs)) (classic.fc_frame blank tid UDS_TP_FC_CTS bs st)"
  from round_effect [OF assms(1-7) assms(12) [unfolded append_assoc], of sz] obtain k1 s1 b1 l1 where k1: "vc_out k1 = vc_out ke @
      replicate (blocks (classic_cfs (length d)) 0) (classic.fc_frame blank (sim_resp_can_id sim) UDS_TP_FC_CTS 0 0)"
    "ecusim_dispatch (env_clock env k1) (env_rand env k1) sim d rp ECUSIM_MAX_PDU = Some (s1, b1, l1)"
    "\<forall>tid bs' st rest'. 0 < l1 \<and> ?tfc @ rest =
        replicate (blocks (classic_cfs l1) (unat bs')) (classic.fc_frame blank tid UDS_TP_FC_CTS bs' st) @ rest' \<longrightarrow>
      (\<exists>k2. ecusim_round (vcan_kernel sz) env blank sim rq rp ke = Some (s1, splice 0 d rq, b1, k2) \<and>
         vc_out k2 = vc_out k1 @ classic.segments blank (sim_resp_can_id sim) (take l1 b1) \<and> vc_in k2 = rest')" by blast
  from k1(2) assms(8-10) have "s1 = sim'" "b1 = b'" "l1 = l" by simp_all
  with k1(1) k1(3) [rule_format, of bs tid st rest] assms(11) show ?thesis by auto
qed

lemma tester_side:
  assumes "d \<noteq> []" "length d \<le> 4095" "r \<noteq> []" "length r \<le> 4095" "0 \<le> fd ts" "timeout_ms tcfg \<noteq> 0"
    and "length r \<le> n" "n \<le> length tb" "n < 2 ^ 32"
    and "vc_in kt = (replicate (blocks (classic_cfs (length d)) 0) (classic.fc_frame blank rid UDS_TP_FC_CTS 0 0) @
      classic.segments blank rid r) @ rest"
  shows "\<exists>kt1 kt2. uds_tp_send (vcan_kernel sz) vcan_sleep blank (Some ts) tid (Some d) (length d) (Some tcfg) kt =
      Some (UDS_TP_OK, kt1) \<and>
    uds_tp_recv (vcan_kernel sz) blank (Some ts) tid (Some tb) n (Some 0) (Some tcfg) kt1 =
      Some (UDS_TP_OK, Some (splice 0 r tb), Some (length r), kt2) \<and>
    vc_out kt2 = vc_out kt @ classic.segments blank tid d @ replicate (blocks (classic_cfs (length r)) (unat (block_size tcfg)))
      (classic.fc_frame blank tid UDS_TP_FC_CTS (block_size tcfg) (st_min tcfg)) \<and> vc_in kt2 = rest"
proof -
  from assms(10) have "vc_in kt = replicate (blocks (classic_cfs (length d)) (unat (0 :: u8)))
      (classic.fc_frame blank rid UDS_TP_FC_CTS 0 0) @ (classic.segments blank rid r @ rest)" by simp
  from classic_send_cts [OF assms(1,2,5,6) this, of sz tid] obtain kt1 where
    s: "uds_tp_send (vcan_kernel sz) vcan_sleep blank (Some ts) tid (Some d) (length d) (Some tcfg) kt = Some (UDS_TP_OK, kt1)"
      "vc_out kt1 = vc_out kt @ classic.segments blank tid d" "vc_in kt1 = classic.segments blank rid r @ rest" by blast
  from classic_recv [OF assms(3,4,5,6) _ assms(8,9) s(3), of sz tid 0] assms(7) s(1,2) show ?thesis by auto
qed

section \<open>Properties\<close>

text \<open>
  C4. A diagnostic exchange over the bus is a call of the dispatcher. Take a request of 1 to 4095 bytes
  and the response the dispatcher makes of it. There are two sequences of frames: the ECU, given the
  first, answers with the second in one round of its loop, and the tester, given the second, sends the
  first, from its transmission of the request and its reception of the response, and ends with exactly
  the response in its buffer. Segmentation, flow control in both directions and the block size and
  separation time of the tester do not show.
\<close>

theorem exchange_over_bus:
  assumes "sim_inv sim" "0 \<le> fd (sim_sock sim)" "d \<noteq> []" "length d \<le> 4095"
    and "length rq = ECUSIM_MAX_PDU" "length rp = ECUSIM_MAX_PDU"
    and "env_sleep env = vcan_sleep" "\<And>k. env_clock env k = clk" "\<And>k. env_rand env k = rnd"
    and "ecusim_dispatch clk rnd sim d rp ECUSIM_MAX_PDU = Some (sim', b', l)" "0 < l"
    and "0 \<le> fd ts" "timeout_ms tcfg \<noteq> 0" "l \<le> n" "n \<le> length tb" "n < 2 ^ 32"
  shows "\<exists>up down.
    (\<forall>ke rest. vc_in ke = up @ rest \<longrightarrow>
      (\<exists>ke'. ecusim_round (vcan_kernel sz) env blank sim rq rp ke = Some (sim', splice 0 d rq, b', ke') \<and>
         vc_out ke' = vc_out ke @ down \<and> vc_in ke' = rest)) \<and>
    (\<forall>kt rest. vc_in kt = down @ rest \<longrightarrow>
      (\<exists>kt1 kt2. uds_tp_send (vcan_kernel sz) vcan_sleep blank (Some ts) (sim_req_can_id sim) (Some d) (length d) (Some tcfg) kt =
           Some (UDS_TP_OK, kt1) \<and>
         uds_tp_recv (vcan_kernel sz) blank (Some ts) (sim_req_can_id sim) (Some tb) n (Some 0) (Some tcfg) kt1 =
           Some (UDS_TP_OK, Some (splice 0 (take l b') tb), Some l, kt2) \<and>
         vc_out kt2 = vc_out kt @ up \<and> vc_in kt2 = rest))"
proof -
  have small: "l \<le> ECUSIM_MAX_PDU" "length b' = length rp"
    using dispatch_ok [OF assms(1,3), of ECUSIM_MAX_PDU rp clk rnd] assms(4,6,10) by (auto simp: ECUSIM_MAX_PDU_def)
  have resp: "take l b' \<noteq> []" "length (take l b') \<le> 4095" "length (take l b') = l"
    using small assms(6,11) by (auto simp: ECUSIM_MAX_PDU_def)
  let ?up = "classic.segments blank (sim_req_can_id sim) d @ replicate (blocks (classic_cfs l) (unat (block_size tcfg)))
    (classic.fc_frame blank (sim_req_can_id sim) UDS_TP_FC_CTS (block_size tcfg) (st_min tcfg))"
  let ?down = "replicate (blocks (classic_cfs (length d)) 0) (classic.fc_frame blank (sim_resp_can_id sim) UDS_TP_FC_CTS 0 0) @
    classic.segments blank (sim_resp_can_id sim) (take l b')"
  note ecu = ecu_side [OF assms(1-11), where sz = sz and blank = blank]
  note tester = tester_side [OF assms(3,4) resp(1,2) assms(12,13) _ assms(15,16), unfolded resp(3), OF assms(14)]
  show ?thesis
    by (rule exI [of _ ?up], rule exI [of _ ?down]) (use ecu tester in blast)
qed

text \<open>
  The tester reads the vehicle identification number: a response of 20 bytes, in three frames, with
  one Consecutive Frame per block.
\<close>

theorem exchange_over_bus_witness:
  "\<exists>up down kt1 kt2 ke' rq' rp'.
    ecusim_round (vcan_kernel 16)
      \<lparr>env_clock = (\<lambda>_ _. \<lparr>tv_sec = 0, tv_nsec = 0\<rparr>), env_rand = (\<lambda>_ _. 0), env_sleep = vcan_sleep, env_stopped = (\<lambda>_. False)\<rparr>
      \<lparr>can_id = 0, can_dlc = 0, can_data = []\<rparr> (boot_sim \<lparr>tv_sec = 0, tv_nsec = 0\<rparr> 1 3) (replicate 4095 0) (replicate 4095 0)
      \<lparr>vc_in = up, vc_out = [], vc_open = 1, vc_filters = [], vc_slept = 0\<rparr> =
      Some (boot_sim \<lparr>tv_sec = 0, tv_nsec = 0\<rparr> 1 3, rq', rp', ke') \<and> vc_out ke' = down \<and>
    uds_tp_send (vcan_kernel 16) vcan_sleep \<lparr>can_id = 0, can_dlc = 0, can_data = []\<rparr> (Some \<lparr>fd = 4\<rparr>) 0x601
      (Some [0x22, 0xF1, 0x90]) 3 (Some \<lparr>timeout_ms = 1000, block_size = 1, st_min = 0\<rparr>)
      \<lparr>vc_in = down, vc_out = [], vc_open = 1, vc_filters = [], vc_slept = 0\<rparr> = Some (UDS_TP_OK, kt1) \<and>
    uds_tp_recv (vcan_kernel 16) \<lparr>can_id = 0, can_dlc = 0, can_data = []\<rparr> (Some \<lparr>fd = 4\<rparr>) 0x601 (Some (replicate 20 0)) 20 (Some 0)
      (Some \<lparr>timeout_ms = 1000, block_size = 1, st_min = 0\<rparr>) kt1 =
      Some (UDS_TP_OK, Some ([0x62, 0xF1, 0x90] @ ascii ''1HGCM82633A123456''), Some 20, kt2) \<and> vc_out kt2 = up"
proof -
  let ?z = "\<lparr>tv_sec = 0, tv_nsec = 0\<rparr>" and ?blank = "\<lparr>can_id = 0, can_dlc = 0, can_data = []\<rparr> :: can_frame"
  let ?env = "\<lparr>env_clock = (\<lambda>_ _. ?z), env_rand = (\<lambda>_ _. 0), env_sleep = vcan_sleep, env_stopped = (\<lambda>_. False)\<rparr> :: can_frame vcan sim_env"
  let ?sim = "boot_sim ?z 1 3" and ?cfg = "\<lparr>timeout_ms = 1000, block_size = 1, st_min = 0\<rparr>"
  let ?d = "[0x22, 0xF1, 0x90] :: u8 list" and ?vin = "[0x62, 0xF1, 0x90] @ ascii ''1HGCM82633A123456''"
  have size: "length (replicate 4095 (0 :: u8)) = ECUSIM_MAX_PDU" by (simp add: ECUSIM_MAX_PDU_def)
  from dispatch_read_vin [OF size, of "\<lambda>_. ?z" "\<lambda>_. 0" ?z 1 3] obtain b' where
    b': "ecusim_dispatch (\<lambda>_. ?z) (\<lambda>_. 0) ?sim ?d (replicate 4095 0) ECUSIM_MAX_PDU = Some (?sim, b', 20)" "take 20 b' = ?vin"
    by blast
  have p: "0 \<le> fd (sim_sock ?sim)" "?d \<noteq> []" "length ?d \<le> 4095" "env_sleep ?env = vcan_sleep"
    "\<And>k. env_clock ?env k = (\<lambda>_. ?z)" "\<And>k. env_rand ?env k = (\<lambda>_. 0)" "(0 :: nat) < 20" "0 \<le> fd \<lparr>fd = 4\<rparr>" "timeout_ms ?cfg \<noteq> 0"
    "(20 :: nat) \<le> 20" "20 \<le> length (replicate 20 (0 :: u8))" "(20 :: nat) < 2 ^ 32"
    by (simp_all add: boot_sim_def)
  have ids: "sim_req_can_id ?sim = 0x601" by (simp add: boot_sim_def uds_can_req_id_def UDS_CAN_REQ_BASE_def)
  have buf: "splice 0 ?vin (replicate 20 0) = ?vin" by (simp add: splice_def)
  obtain up down where ud:
    "\<forall>ke rest. vc_in ke = up @ rest \<longrightarrow>
      (\<exists>ke'. ecusim_round (vcan_kernel 16) ?env ?blank ?sim (replicate 4095 0) (replicate 4095 0) ke =
           Some (?sim, splice 0 ?d (replicate 4095 0), b', ke') \<and> vc_out ke' = vc_out ke @ down \<and> vc_in ke' = rest)"
    "\<forall>kt rest. vc_in kt = down @ rest \<longrightarrow>
      (\<exists>kt1 kt2. uds_tp_send (vcan_kernel 16) vcan_sleep ?blank (Some \<lparr>fd = 4\<rparr>) (sim_req_can_id ?sim) (Some ?d) (length ?d) (Some ?cfg) kt =
           Some (UDS_TP_OK, kt1) \<and>
         uds_tp_recv (vcan_kernel 16) ?blank (Some \<lparr>fd = 4\<rparr>) (sim_req_can_id ?sim) (Some (replicate 20 0)) 20 (Some 0) (Some ?cfg) kt1 =
           Some (UDS_TP_OK, Some (splice 0 (take 20 b') (replicate 20 0)), Some 20, kt2) \<and>
         vc_out kt2 = vc_out kt @ up \<and> vc_in kt2 = rest)"
    using exchange_over_bus [OF boot_sim_inv p(1-3) size size p(4-6) b'(1) p(7-12), of 16 ?blank] by blast
  let ?ke = "\<lparr>vc_in = up, vc_out = [], vc_open = 1, vc_filters = [], vc_slept = 0\<rparr>"
    and ?kt = "\<lparr>vc_in = down, vc_out = [], vc_open = 1, vc_filters = [], vc_slept = 0\<rparr>"
  have len: "length ?d = 3" by simp
  obtain ke' where e: "ecusim_round (vcan_kernel 16) ?env ?blank ?sim (replicate 4095 0) (replicate 4095 0) ?ke =
      Some (?sim, splice 0 ?d (replicate 4095 0), b', ke')" "vc_out ke' = down"
    using ud(1) [rule_format, of ?ke "[]"] by auto
  obtain kt1 kt2 where t:
    "uds_tp_send (vcan_kernel 16) vcan_sleep ?blank (Some \<lparr>fd = 4\<rparr>) 0x601 (Some ?d) 3 (Some ?cfg) ?kt = Some (UDS_TP_OK, kt1)"
    "uds_tp_recv (vcan_kernel 16) ?blank (Some \<lparr>fd = 4\<rparr>) 0x601 (Some (replicate 20 0)) 20 (Some 0) (Some ?cfg) kt1 =
      Some (UDS_TP_OK, Some ?vin, Some 20, kt2)" "vc_out kt2 = up"
    using ud(2) [rule_format, of ?kt "[]"] unfolding b'(2) buf ids len by auto
  from e t show ?thesis by blast
qed

end
