(* ===== verification/EcuBus.thy ===== *)
theory EcuBus
  imports EcuRun IsoTpKept
begin

text \<open>
  The simulator on a bus with anybody on it. Whatever the kernel delivers, the rounds of \<open>ecusim_run\<close> are
  a conversation in the sense of \<open>EcuTrace\<close>: each request is what the reference reassembler reads in
  the frames the round took, and each round says its Flow Controls and the segments of its response,
  or a prefix of them, and nothing else. So what holds of all conversations holds on the bus.
\<close>

section \<open>Well-formed frames\<close>

text \<open>
  What the kernel requires of a classic frame, and what its receiver relies on: an identifier, a data
  length code from 1 to 8, and a data array of 8 bytes.
\<close>

definition wf_frame :: "u32 \<Rightarrow> can_frame \<Rightarrow> bool" where
  "wf_frame cid f \<longleftrightarrow> can_id f = cid \<and> 1 \<le> can_dlc f \<and> can_dlc f \<le> 8 \<and> length (can_data f) = 8"

lemma classic_encoders:
  "cd_enc_sf (classic_codec blank) = uds_tp_encode_sf" "cd_enc_ff (classic_codec blank) = uds_tp_encode_ff"
  "cd_enc_cf (classic_codec blank) = uds_tp_encode_cf" "cd_enc_fc (classic_codec blank) = uds_tp_encode_fc"
  by (simp_all add: classic_codec_def)

lemma wf_sf:
  assumes "d \<noteq> []" "length d \<le> UDS_TP_SF_MAX_DATA"
  shows "wf_frame cid (classic.sf_frame blank cid d)"
proof -
  from assms(2) have small: "length d \<le> 7" by (simp add: tp_consts)
  have u: "unat (of_nat (1 + length d) :: u8) = 1 + length d" by (rule unat_small) (use small in simp)
  have "1 \<le> (of_nat (1 + length d) :: u8)" "(of_nat (1 + length d) :: u8) \<le> 8"
    using u small by (simp_all add: word_le_nat_alt)
  with small assms(1) show ?thesis
    by (simp add: classic.sf_frame_def classic_encoders classic_sf(1) wf_frame_def)
qed

lemma wf_ff:
  assumes "7 < length d" "length d \<le> 4095"
  shows "wf_frame cid (classic.ff_frame blank cid d)"
  using assms by (simp add: classic.ff_frame_def classic_encoders classic_ff(1) wf_frame_def)

lemma wf_cf:
  assumes "0 < m" "m \<le> 7" "m \<le> length d"
  shows "wf_frame cid (classic.cf_frame blank cid d m sn)"
  using assms by (simp add: classic.cf_frame_def classic_encoders classic_cf(1) wf_frame_def)

lemma wf_fc: "wf_frame cid (classic.fc_frame blank cid fs bs st)"
  by (simp add: classic.fc_frame_def classic_encoders classic_fc(1) wf_frame_def)

lemma wf_segments:
  assumes "d \<noteq> []" "length d \<le> 4095" "f \<in> set (classic.segments blank cid d)"
  shows "wf_frame cid f"
proof (cases "length d \<le> UDS_TP_SF_MAX_DATA")
  case True
  with assms show ?thesis by (simp add: classic.segments_def codec_sizes wf_sf)
next
  case False
  then have long: "cd_sf_max (classic_codec blank) < length d" by (simp add: codec_sizes)
  from assms(3) False consider "f = classic.ff_frame blank cid d" | i where "i < classic.ncf blank d" "f = classic.cf_nth blank cid d i"
    by (auto simp: classic.segments_def codec_sizes)
  then show ?thesis
  proof cases
    case 1
    with assms(2) False show ?thesis by (simp add: wf_ff tp_consts)
  next
    case 2
    with classic.off_simps [OF long, of i] show ?thesis
      by (simp add: classic.cf_nth_def codec_sizes tp_consts wf_cf)
  qed
qed

section \<open>What a round does to the bus\<close>

text \<open>The frames a round takes and puts on the bus, and the exchange it makes of them, if any.\<close>

record bus_round =
  taken :: "can_frame list"
  said :: "can_frame list"
  served :: "exchange option"

definition exchanges :: "bus_round list \<Rightarrow> exchange list" where
  "exchanges log = List.map_filter served log"

definition round_says :: "can_frame \<Rightarrow> u32 \<Rightarrow> bus_round \<Rightarrow> bool" where
  "round_says blank tx r \<longleftrightarrow>
     (let cts = classic.fc_frame blank tx UDS_TP_FC_CTS (block_size sim_tp_cfg) (st_min sim_tp_cfg) in
      case served r of
        None \<Rightarrow> \<exists>m. said r = replicate m cts
      | Some (req, resp) \<Rightarrow> \<exists>fs fcs sent. taken r = fs @ fcs \<and>
          reassemble UDS_TP_CF_DATA_BYTES (map classic_view fs) = Some req \<and> length resp \<le> ECUSIM_MAX_PDU \<and>
          said r = replicate (grants_of (block_size sim_tp_cfg) (map classic_view fs)) cts @ sent \<and>
          prefix sent (if resp = [] then [] else classic.segments blank tx resp))"

lemma round_says_wf:
  assumes "round_says blank tx r" "f \<in> set (said r)"
  shows "wf_frame tx f"
proof (cases "served r")
  case None
  with assms show ?thesis by (auto simp: round_says_def Let_def wf_fc)
next
  case (Some e)
  obtain req resp where e: "e = (req, resp)" by (cases e)
  let ?cts = "classic.fc_frame blank tx UDS_TP_FC_CTS (block_size sim_tp_cfg) (st_min sim_tp_cfg)"
  from assms(1) Some e obtain m sent where sent: "said r = replicate m ?cts @ sent" "length resp \<le> ECUSIM_MAX_PDU"
      "prefix sent (if resp = [] then [] else classic.segments blank tx resp)"
    by (auto simp: round_says_def Let_def)
  from sent(3) set_mono_prefix have "set sent \<subseteq> set (if resp = [] then [] else classic.segments blank tx resp)" by blast
  with assms(2) sent(1) have "f = ?cts \<or> resp \<noteq> [] \<and> f \<in> set (classic.segments blank tx resp)"
    by (auto split: if_splits)
  with sent(2) show ?thesis by (auto simp: ECUSIM_MAX_PDU_def intro: wf_fc wf_segments)
qed

text \<open>
  The rounds of \<open>log\<close> lead from the kernel state \<open>k\<close> to \<open>k'\<close>, through frames that are exactly theirs.
\<close>

definition bus_log :: "can_frame \<Rightarrow> u32 \<Rightarrow> ('k \<Rightarrow> can_frame list) \<Rightarrow> ('k \<Rightarrow> can_frame list) \<Rightarrow> bus_round list \<Rightarrow> 'k \<Rightarrow> 'k \<Rightarrow> bool" where
  "bus_log blank tx inp out log k k' \<longleftrightarrow> list_all (round_says blank tx) log \<and>
     inp k' = inp k @ concat (map taken log) \<and> out k' = out k @ concat (map said log)"

lemma bus_log_simps:
  "bus_log blank tx inp out [] k k' \<longleftrightarrow> inp k' = inp k \<and> out k' = out k"
  "inp k1 = inp k @ taken r \<Longrightarrow> out k1 = out k @ said r \<Longrightarrow> round_says blank tx r \<Longrightarrow>
    bus_log blank tx inp out log k1 k' \<Longrightarrow> bus_log blank tx inp out (r # log) k k'"
  by (simp_all add: bus_log_def)

lemma exchanges_simps [simp]:
  "exchanges [] = []" "exchanges (r # log) = (case served r of None \<Rightarrow> exchanges log | Some e \<Rightarrow> e # exchanges log)"
  by (simp_all add: exchanges_def map_filter_simps split: option.split)

lemma round_bus:
  assumes "reads_whole (\<lambda>f. length (can_data f) = 8) K" "observed K (env_sleep env) inp out" "sim_inv sim"
    and "length rq = ECUSIM_MAX_PDU" "length rp = ECUSIM_MAX_PDU"
  obtains sim' rq' rp' k' r where "ecusim_round K env blank sim rq rp k = Some (sim', rq', rp', k')" "sim_inv sim'"
    "length rq' = ECUSIM_MAX_PDU" "length rp' = ECUSIM_MAX_PDU" "sim_resp_can_id sim' = sim_resp_can_id sim"
    "inp k' = inp k @ taken r" "out k' = out k @ said r" "round_says blank (sim_resp_can_id sim) r"
    "case served r of None \<Rightarrow> sim' = sim | Some e \<Rightarrow> ecu_step sim e sim'"
proof -
  let ?tx = "sim_resp_can_id sim"
  let ?cts = "classic.fc_frame blank ?tx UDS_TP_FC_CTS (block_size sim_tp_cfg) (st_min sim_tp_cfg)"
  note keeps = observed_grows [OF assms(2)]
  have n: "ECUSIM_MAX_PDU \<le> length rq" "ECUSIM_MAX_PDU < 2 ^ 32" using assms(4) by (simp_all add: ECUSIM_MAX_PDU_def)
  from recv_wire [OF assms(1,2) n, of blank "sim_sock sim" ?tx 0 sim_tp_cfg k] obtain rc rq' l k1 m where
    r: "uds_tp_recv K blank (Some (sim_sock sim)) ?tx (Some rq) ECUSIM_MAX_PDU (Some 0) (Some sim_tp_cfg) k =
        Some (rc, Some rq', Some l, k1)" "out k1 = out k @ replicate m ?cts"
      "rc = UDS_TP_OK \<longrightarrow> l \<le> ECUSIM_MAX_PDU \<and> (\<exists>fs. inp k1 = inp k @ fs \<and>
        reassemble UDS_TP_CF_DATA_BYTES (map classic_view fs) = Some (take l rq') \<and>
        m = grants_of (block_size sim_tp_cfg) (map classic_view fs))" by blast
  from recv_safe [OF assms(1) n, of blank "sim_sock sim" ?tx 0 "Some sim_tp_cfg" k] r(1)
  have len: "length rq' = length rq" by fastforce
  show thesis
  proof (cases "rc = UDS_TP_OK")
    case False
    from tp_recv_keeps [OF keeps r(1)] obtain fs where "inp k1 = inp k @ fs" by (auto simp: grows_def elim: prefixE)
    with False r(1,2) len assms(3-5) show thesis
      by (intro that [of sim rq' rp k1 "\<lparr>taken = fs, said = replicate m ?cts, served = None\<rparr>"])
         (auto simp: ecusim_round_def round_says_def Let_def)
  next
    case True
    with r(3) obtain fs where fs: "l \<le> ECUSIM_MAX_PDU" "inp k1 = inp k @ fs"
      "reassemble UDS_TP_CF_DATA_BYTES (map classic_view fs) = Some (take l rq')"
      "m = grants_of (block_size sim_tp_cfg) (map classic_view fs)" by blast
    define req where "req = take l rq'"
    have rd: "mem_read (Some rq') 0 l = Some req" "length req < 2 ^ 32"
      using fs(1) len assms(4) by (simp_all add: mem_simps req_def ECUSIM_MAX_PDU_def)
    have room: "3 \<le> ECUSIM_MAX_PDU" "ECUSIM_MAX_PDU \<le> length rp" using assms(5) by (simp_all add: ECUSIM_MAX_PDU_def)
    obtain sim' b' l' where d: "ecusim_dispatch (env_clock env k1) (env_rand env k1) sim req rp ECUSIM_MAX_PDU = Some (sim', b', l')"
      by (rule dispatch_total [OF assms(3) rd(2) room])
    note step = dispatch_step [OF assms(3) rd(2) room d]
    have id: "sim_resp_can_id sim' = ?tx" "sim_sock sim' = sim_sock sim" using step(2,3) by (auto simp: owns_def)
    have one: "ecu_step sim (req, take l' b') sim'" by (rule ecu_step.exchange [OF rd(2) room d])
    have rd': "mem_read (Some b') 0 l' = Some (take l' b')" "length (take l' b') = l'" using step(4) by (simp_all add: mem_simps)
    show thesis
    proof (cases "l' = 0")
      case True
      with \<open>rc = UDS_TP_OK\<close> r(1,2) fs rd(1) d one step(1,5) id len assms(4,5) show thesis
        by (intro that [of sim' rq' b' k1 "\<lparr>taken = fs, said = replicate m ?cts, served = Some (req, [])\<rparr>"])
           (auto simp: ecusim_round_def round_says_def Let_def req_def)
    next
      case False
      from send_wire [OF assms(1,2), of blank "sim_sock sim" ?tx "take l' b'" "Some sim_tp_cfg" k1] obtain rc2 k2 sent where
        s: "uds_tp_send K (env_sleep env) blank (Some (sim_sock sim)) ?tx (Some (take l' b')) l' (Some sim_tp_cfg) k1 =
            Some (rc2, k2)" "out k2 = out k1 @ sent" "prefix sent (classic.segments blank ?tx (take l' b'))"
        unfolding rd'(2) by blast
      from tp_send_keeps [OF keeps s(1)] obtain fcs where fcs: "inp k2 = inp k1 @ fcs" by (auto simp: grows_def elim: prefixE)
      have "ecusim_round K env blank sim rq rp k = Some (sim', rq', b', k2)"
        using \<open>rc = UDS_TP_OK\<close> False r(1) rd(1) rd'(1) d s(1) id by (simp add: ecusim_round_def)
      moreover have "take l' b' \<noteq> []" using False rd'(2) by force
      ultimately show thesis
        using r(2) fs s(2,3) fcs one step(1,5) id len assms(4,5)
        by (intro that [of sim' rq' b' k2 "\<lparr>taken = fs @ fcs, said = replicate m ?cts @ sent, served = Some (req, take l' b')\<rparr>"])
           (auto simp: round_says_def Let_def req_def)
    qed
  qed
qed

section \<open>Many rounds\<close>

lemma ecu_run_cons: "ecu_run sim1 tr sim2 \<Longrightarrow> ecu_step sim e sim1 \<Longrightarrow> ecu_run sim (e # tr) sim2"
proof (induction rule: ecu_run.induct)
  case no_exchange
  from ecu_run.one_more [OF ecu_run.no_exchange no_exchange] show ?case by simp
next
  case (one_more tr sim2 e' sim3)
  then show ?case using ecu_run.one_more [of sim "e # tr"] by simp
qed

lemma rounds_bus:
  assumes "reads_whole (\<lambda>f. length (can_data f) = 8) K" "observed K (env_sleep env) inp out"
  shows "sim_inv sim \<Longrightarrow> length rq = ECUSIM_MAX_PDU \<Longrightarrow> length rp = ECUSIM_MAX_PDU \<Longrightarrow>
    \<exists>sim' rq' rp' k' log. ecusim_rounds K env blank m (sim, rq, rp, k) = Some (sim', rq', rp', k') \<and> length log = m \<and>
      bus_log blank (sim_resp_can_id sim) inp out log k k' \<and> ecu_run sim (exchanges log) sim'"
proof (induction m arbitrary: sim rq rp k)
  case 0
  show ?case by (intro exI [of _ sim] exI [of _ rq] exI [of _ rp] exI [of _ k] exI [of _ "[]"])
    (simp add: bus_log_simps ecu_run.no_exchange)
next
  case (Suc m)
  from Suc.prems obtain sim1 rq1 rp1 k1 r where
    r: "ecusim_round K env blank sim rq rp k = Some (sim1, rq1, rp1, k1)" "sim_inv sim1" "length rq1 = ECUSIM_MAX_PDU"
      "length rp1 = ECUSIM_MAX_PDU" "sim_resp_can_id sim1 = sim_resp_can_id sim" "inp k1 = inp k @ taken r"
      "out k1 = out k @ said r" "round_says blank (sim_resp_can_id sim) r"
      "case served r of None \<Rightarrow> sim1 = sim | Some e \<Rightarrow> ecu_step sim e sim1"
    by (rule round_bus [OF assms])
  from Suc.IH [OF r(2-4), of k1] obtain sim' rq' rp' k' log where
    l: "ecusim_rounds K env blank m (sim1, rq1, rp1, k1) = Some (sim', rq', rp', k')" "length log = m"
      "bus_log blank (sim_resp_can_id sim) inp out log k1 k'" "ecu_run sim1 (exchanges log) sim'"
    unfolding r(5) by blast
  have "ecu_run sim (exchanges (r # log)) sim'"
    using r(9) l(4) by (auto split: option.splits intro: ecu_run_cons)
  with r(1) l(1,2) bus_log_simps(2) [OF r(6-8) l(3)] show ?case
    by (intro exI [of _ sim'] exI [of _ rq'] exI [of _ rp'] exI [of _ k'] exI [of _ "r # log"]) simp
qed

lemma exchanges_split:
  assumes "exchanges log = tr1 @ e # tr2"
  obtains a r b where "log = a @ r # b" "served r = Some e" "exchanges a = tr1"
  using assms
proof (induction log arbitrary: tr1 thesis)
  case (Cons r log)
  show ?case
  proof (cases "served r")
    case None
    with Cons.IH [of tr1] Cons.prems show ?thesis by (metis append_Cons exchanges_simps(2) option.simps(4))
  next
    case (Some e1)
    show ?thesis
    proof (cases tr1)
      case Nil
      with Some Cons.prems(2) Cons.prems(1) [of "[]" r log] show ?thesis by simp
    next
      case (Cons x tr)
      with Some Cons.prems(2) have "x = e1" "exchanges log = tr @ e # tr2" by simp_all
      with Cons.IH [of tr] Cons.prems(1) Some Cons show ?thesis by (metis append_Cons exchanges_simps(2) option.simps(5))
    qed
  qed
qed simp

text \<open>
  After it has answered with a seed, the ECU has taken frames that carry the key of that seed.
\<close>

definition key_on_bus :: "bus_round list \<Rightarrow> bool" where
  "key_on_bus log \<longleftrightarrow> (\<exists>a r1 b r2 c s req fs fcs. log = a @ r1 # b @ r2 # c \<and> served r1 = Some (req, [0x67, 0x01] @ s) \<and>
     taken r2 = fs @ fcs \<and> reassemble UDS_TP_CF_DATA_BYTES (map classic_view fs) = Some ([0x27, 0x02] @ xor_key s))"

lemma key_on_busE:
  assumes "key_on_bus log"
  obtains r fs fcs s where "r \<in> set log" "taken r = fs @ fcs"
    "reassemble UDS_TP_CF_DATA_BYTES (map classic_view fs) = Some ([0x27, 0x02] @ xor_key s)"
proof -
  from assms obtain a r1 b r c s fs fcs where "log = a @ r1 # b @ r # c" "taken r = fs @ fcs"
    "reassemble UDS_TP_CF_DATA_BYTES (map classic_view fs) = Some ([0x27, 0x02] @ xor_key s)"
    unfolding key_on_bus_def by (elim exE conjE)
  with that [of r fs fcs s] show thesis by simp
qed

lemma authenticated_on_bus:
  assumes "authenticated (exchanges log)" "list_all (round_says blank tx) log"
  shows "key_on_bus log"
proof -
  from assms(1) obtain tr1 s tr2 req where e: "exchanges log = tr1 @ ([0x27, 0x02] @ xor_key s, [0x67, 0x02]) # tr2"
    "(req, [0x67, 0x01] @ s) \<in> set tr1" by (auto simp: authenticated_def challenged_def)
  from e(1) obtain a r2 c where r2: "log = a @ r2 # c" "served r2 = Some ([0x27, 0x02] @ xor_key s, [0x67, 0x02])"
    "exchanges a = tr1" by (rule exchanges_split)
  from e(2) obtain u v where "exchanges a = u @ (req, [0x67, 0x01] @ s) # v" unfolding r2(3) by (meson split_list)
  then obtain a1 r1 b where r1: "a = a1 @ r1 # b" "served r1 = Some (req, [0x67, 0x01] @ s)" by (rule exchanges_split)
  from assms(2) r2(1) have "round_says blank tx r2" by simp
  with r2(2) obtain fs fcs where "taken r2 = fs @ fcs"
    "reassemble UDS_TP_CF_DATA_BYTES (map classic_view fs) = Some ([0x27, 0x02] @ xor_key s)"
    by (auto simp: round_says_def Let_def)
  with r1 r2(1) show ?thesis unfolding key_on_bus_def by (metis append.assoc append_Cons)
qed

section \<open>Kept relations\<close>

lemma round_keeps:
  assumes "kernel_keeps K (env_sleep env) R" "ecusim_round K env blank sim rq rp k = Some (sim', rq', rp', k')"
  shows "R k k'"
  using assms(2) kernel_keepsD(2) [OF assms(1)]
  by (auto simp: ecusim_round_def bind_eq_Some_conv split: if_splits
      dest!: tp_recv_keeps [OF assms(1)] tp_send_keeps [OF assms(1)])

lemma rounds_keep:
  "kernel_keeps K (env_sleep env) R \<Longrightarrow> ecusim_rounds K env blank m (sim, rq, rp, k) = Some (sim', rq', rp', k') \<Longrightarrow> R k k'"
proof (induction m arbitrary: sim rq rp k)
  case (Suc m)
  from Suc.prems(2) obtain sim1 rq1 rp1 k1 where "ecusim_round K env blank sim rq rp k = Some (sim1, rq1, rp1, k1)"
    "ecusim_rounds K env blank m (sim1, rq1, rp1, k1) = Some (sim', rq', rp', k')" by (auto simp: bind_eq_Some_conv)
  with Suc.IH [OF Suc.prems(1)] round_keeps [OF Suc.prems(1)] kernel_keepsD(2) [OF Suc.prems(1)] show ?case by blast
qed (simp add: kernel_keepsD(1))

text \<open>A kernel that only delivers frames of one kind has only such frames in its history.\<close>

lemma observed_whole:
  assumes "observed K slp inp out" "reads_whole whole K"
  shows "kernel_keeps K slp (\<lambda>k k'. set (inp k') \<subseteq> set (inp k) \<union> Collect whole)"
proof -
  have "set (inp (snd (snd (k_read K s f k)))) \<subseteq> set (inp k) \<union> Collect whole" for s f k
  proof -
    have "let (n, g, k') = k_read K s f k in
        out k' = out k \<and> inp k' = (if 0 \<le> n \<and> k_frame_size K \<le> nat n then inp k @ [g] else inp k)"
      using assms(1) unfolding observed_def by blast
    moreover have "whole (fst (snd (k_read K s f k)))" using assms(2) by (simp add: reads_whole_def)
    ultimately show ?thesis by (cases "k_read K s f k") (auto split: if_splits)
  qed
  with assms(1) show ?thesis by (auto simp: kernel_keeps_def observed_def)
qed

section \<open>Properties\<close>

text \<open>
  C2. The simulator on the bus is the dispatcher. Whatever the kernel delivers and however its calls end,
  any number of rounds of \<open>ecusim_run\<close> go through without a fault and make a conversation with the
  dispatcher, whose exchanges account for all traffic: the frames taken and put on the bus are those of
  the rounds, one after the other; the request of a round is what the reference reassembler reads in
  its frames; and a round says its clearances to send and then the segments of its response (of at most
  4095 bytes) or a prefix of them, a round without an exchange nothing but clearances to send.
\<close>

theorem bus_refines_conversation:
  assumes "reads_whole (\<lambda>f. length (can_data f) = 8) K" "observed K (env_sleep env) inp out" "sim_inv sim"
    and "length rq = ECUSIM_MAX_PDU" "length rp = ECUSIM_MAX_PDU"
  shows "\<exists>sim' rq' rp' k' log. ecusim_rounds K env blank m (sim, rq, rp, k) = Some (sim', rq', rp', k') \<and> length log = m \<and>
    bus_log blank (sim_resp_can_id sim) inp out log k k' \<and> ecu_run sim (exchanges log) sim'"
  by (rule rounds_bus [OF assms])

text \<open>A peer that sends TesterPresent for ever.\<close>

theorem bus_refines_conversation_witness:
  "\<exists>sim' rq' rp' k' log. ecusim_rounds (logged (repeating_kernel 16 \<lparr>can_id = 0x601, can_dlc = 8, can_data = [0x02, 0x3E, 0, 0, 0, 0, 0, 0]\<rparr>))
      \<lparr>env_clock = (\<lambda>_ _. \<lparr>tv_sec = 0, tv_nsec = 0\<rparr>), env_rand = (\<lambda>_ _. 0), env_sleep = log_sleep (\<lambda>_ k. k), env_stopped = (\<lambda>_. False)\<rparr>
      \<lparr>can_id = 0, can_dlc = 0, can_data = []\<rparr> 9
      (boot_sim \<lparr>tv_sec = 0, tv_nsec = 0\<rparr> 1 3, replicate ECUSIM_MAX_PDU 0, replicate ECUSIM_MAX_PDU 0,
       (\<lparr>vc_in = [], vc_out = [], vc_open = 1, vc_filters = [], vc_slept = 0\<rparr>, [], [])) = Some (sim', rq', rp', k') \<and>
    length log = 9 \<and> log_in k' = concat (map taken log) \<and> log_out k' = concat (map said log) \<and>
    ecu_run (boot_sim \<lparr>tv_sec = 0, tv_nsec = 0\<rparr> 1 3) (exchanges log) sim'"
proof -
  let ?f = "\<lparr>can_id = 0x601, can_dlc = 8, can_data = [0x02, 0x3E, 0, 0, 0, 0, 0, 0]\<rparr>"
  let ?env = "\<lparr>env_clock = (\<lambda>_ _. \<lparr>tv_sec = 0, tv_nsec = 0\<rparr>), env_rand = (\<lambda>_ _. 0), env_sleep = log_sleep (\<lambda>_ k. k),
    env_stopped = (\<lambda>_. False)\<rparr> :: (can_frame, can_frame vcan) log_state sim_env"
  have c: "reads_whole (\<lambda>f. length (can_data f) = 8) (logged (repeating_kernel 16 ?f))"
    by (rule logged_whole, rule repeating_whole) simp
  have o: "observed (logged (repeating_kernel 16 ?f)) (env_sleep ?env) log_in log_out" by (simp add: logged_observed)
  from bus_refines_conversation [OF c o boot_sim_inv length_replicate length_replicate, of "\<lparr>can_id = 0, can_dlc = 0, can_data = []\<rparr>" 9
      "\<lparr>tv_sec = 0, tv_nsec = 0\<rparr>" 1 3 0 0 "(\<lparr>vc_in = [], vc_out = [], vc_open = 1, vc_filters = [], vc_slept = 0\<rparr>, [], [])"]
  show ?thesis unfolding bus_log_def by (elim exE conjE) (intro exI conjI, assumption+, simp_all add: log_in_def log_out_def)
qed

text \<open>
  C3. Protected data needs the key on the bus. Start a simulator without level 1 unlocked and without an
  open challenge, put it on a bus with anybody, and let it run for any number of rounds: a data
  identifier that requires security still has its entry, or the ECU has answered a request with a seed
  and has taken, in a later round, frames that carry SendKey with the key of that seed.
\<close>

theorem protected_data_on_bus:
  assumes "reads_whole (\<lambda>f. length (can_data f) = 8) K" "observed K (env_sleep env) inp out" "sim_inv sim"
    and "length rq = ECUSIM_MAX_PDU" "length rp = ECUSIM_MAX_PDU"
    and "unlocked_level (sim_security sim) \<noteq> 1" "\<not> (seed_valid (sim_security sim) \<and> pending_level (sim_security sim) = 1)"
    and "did_lookup (sim_did_reg sim) d = Some e" "requires_security e"
  shows "\<exists>sim' rq' rp' k' log. ecusim_rounds K env blank m (sim, rq, rp, k) = Some (sim', rq', rp', k') \<and>
    bus_log blank (sim_resp_can_id sim) inp out log k k' \<and>
    (did_lookup (sim_did_reg sim') d = Some e \<or> key_on_bus log)"
proof -
  obtain sim' rq' rp' k' log where
    r: "ecusim_rounds K env blank m (sim, rq, rp, k) = Some (sim', rq', rp', k')"
      "bus_log blank (sim_resp_can_id sim) inp out log k k'" "ecu_run sim (exchanges log) sim'"
    using rounds_bus [OF assms(1-5)] by blast
  from r(2) have says: "list_all (round_says blank (sim_resp_can_id sim)) log" by (simp add: bus_log_def)
  from protected_data_kept [OF r(3) assms(3,6-9)] r(1,2) authenticated_on_bus [OF _ says] show ?thesis by blast
qed

text \<open>
  An attacker who repeats a frame with a write to the vehicle identification number, and sends nothing
  else: after a thousand rounds the number is still there.
\<close>

lemma only_one_frame:
  assumes "reassemble c (map view fs) = Some d" "set fs \<subseteq> {g}" "view g = Single b"
  shows "d = b"
proof (cases fs)
  case (Cons f rest)
  with assms show ?thesis by (auto simp: reassemble_def split: if_splits)
qed (use assms(1) in \<open>simp add: reassemble_def\<close>)

theorem protected_data_on_bus_witness:
  "\<exists>sim' rq' rp' k'. ecusim_rounds (logged (repeating_kernel 16 \<lparr>can_id = 0x601, can_dlc = 8, can_data = [0x07, 0x2E, 0xF1, 0x90, 1, 2, 3, 4]\<rparr>))
      \<lparr>env_clock = (\<lambda>_ _. \<lparr>tv_sec = 0, tv_nsec = 0\<rparr>), env_rand = (\<lambda>_ _. 0), env_sleep = log_sleep (\<lambda>_ k. k), env_stopped = (\<lambda>_. False)\<rparr>
      \<lparr>can_id = 0, can_dlc = 0, can_data = []\<rparr> 1000
      (boot_sim \<lparr>tv_sec = 0, tv_nsec = 0\<rparr> 1 3, replicate ECUSIM_MAX_PDU 0, replicate ECUSIM_MAX_PDU 0,
       (\<lparr>vc_in = [], vc_out = [], vc_open = 1, vc_filters = [], vc_slept = 0\<rparr>, [], [])) = Some (sim', rq', rp', k') \<and>
    did_lookup (sim_did_reg sim') DID_VIN = Some (default_did DID_VIN (ascii ''1HGCM82633A123456'') True True)"
proof -
  let ?f = "\<lparr>can_id = 0x601, can_dlc = 8, can_data = [0x07, 0x2E, 0xF1, 0x90, 1, 2, 3, 4]\<rparr>"
  let ?K = "logged (repeating_kernel 16 ?f)"
  let ?env = "\<lparr>env_clock = (\<lambda>_ _. \<lparr>tv_sec = 0, tv_nsec = 0\<rparr>), env_rand = (\<lambda>_ _. 0), env_sleep = log_sleep (\<lambda>_ k. k),
    env_stopped = (\<lambda>_. False)\<rparr> :: (can_frame, can_frame vcan) log_state sim_env"
  let ?k = "(\<lparr>vc_in = [], vc_out = [], vc_open = 1, vc_filters = [], vc_slept = 0\<rparr>, [], []) :: (can_frame, can_frame vcan) log_state"
  have c: "reads_whole (\<lambda>f. length (can_data f) = 8) ?K" by (rule logged_whole, rule repeating_whole) simp
  have only: "reads_whole (\<lambda>f. f = ?f) ?K" by (rule logged_whole, rule repeating_whole) simp
  have o: "observed ?K (env_sleep ?env) log_in log_out" by (simp add: logged_observed)
  have start: "unlocked_level (sim_security (boot_sim \<lparr>tv_sec = 0, tv_nsec = 0\<rparr> 1 3)) \<noteq> 1"
    "\<not> (seed_valid (sim_security (boot_sim \<lparr>tv_sec = 0, tv_nsec = 0\<rparr> 1 3)) \<and>
       pending_level (sim_security (boot_sim \<lparr>tv_sec = 0, tv_nsec = 0\<rparr> 1 3)) = 1)" by (simp_all add: boot_sim_def zero_security_def)
  have vin: "requires_security (default_did DID_VIN (ascii ''1HGCM82633A123456'') True True)" by simp
  obtain sim' rq' rp' k' log where
    r: "ecusim_rounds ?K ?env \<lparr>can_id = 0, can_dlc = 0, can_data = []\<rparr> 1000
        (boot_sim \<lparr>tv_sec = 0, tv_nsec = 0\<rparr> 1 3, replicate ECUSIM_MAX_PDU 0, replicate ECUSIM_MAX_PDU 0, ?k) = Some (sim', rq', rp', k')"
      "bus_log \<lparr>can_id = 0, can_dlc = 0, can_data = []\<rparr> (sim_resp_can_id (boot_sim \<lparr>tv_sec = 0, tv_nsec = 0\<rparr> 1 3)) log_in log_out log ?k k'"
      "did_lookup (sim_did_reg sim') DID_VIN = Some (default_did DID_VIN (ascii ''1HGCM82633A123456'') True True) \<or> key_on_bus log"
    using protected_data_on_bus [OF c o boot_sim_inv length_replicate length_replicate start boot_vin vin] by blast
  have empty: "log_in ?k = []" by (simp add: log_in_def)
  have "set (log_in k') \<subseteq> set (log_in ?k) \<union> Collect (\<lambda>f. f = ?f)" by (rule rounds_keep [OF observed_whole [OF o only] r(1)])
  then have "set (log_in k') \<subseteq> {?f}" unfolding empty by simp
  moreover have "log_in k' = concat (map taken log)" using r(2) unfolding bus_log_def empty by simp
  ultimately have frames: "set (taken x) \<subseteq> {?f}" if "x \<in> set log" for x using that by auto
  have view: "classic_view ?f = Single [0x2E, 0xF1, 0x90, 1, 2, 3, 4]" by (simp add: classic_view_def Let_def)
  have "\<not> key_on_bus log"
  proof
    assume "key_on_bus log"
    then obtain x fs fcs s where x: "x \<in> set log" "taken x = fs @ fcs"
      "reassemble UDS_TP_CF_DATA_BYTES (map classic_view fs) = Some ([0x27, 0x02] @ xor_key s)"
      by (rule key_on_busE)
    from frames [OF x(1)] x(2) have "set fs \<subseteq> {?f}" by auto
    from only_one_frame [OF x(3) this view] show False by simp
  qed
  with r show ?thesis by blast
qed

text \<open>
  C19. Every frame of the ECU is well-formed. Whatever arrives and however the system calls end, all frames
  the simulator puts on the bus, in any number of rounds, carry its response identifier, a data length
  code from 1 to 8 and eight bytes of data: the Flow Controls, the Single, First and Consecutive Frames
  alike.
\<close>

theorem ecu_frames_wf:
  assumes "reads_whole (\<lambda>f. length (can_data f) = 8) K" "observed K (env_sleep env) inp out" "sim_inv sim"
    and "length rq = ECUSIM_MAX_PDU" "length rp = ECUSIM_MAX_PDU"
  shows "\<exists>sim' rq' rp' k' fs. ecusim_rounds K env blank m (sim, rq, rp, k) = Some (sim', rq', rp', k') \<and>
    out k' = out k @ fs \<and> list_all (wf_frame (sim_resp_can_id sim)) fs"
proof -
  obtain sim' rq' rp' k' log where r: "ecusim_rounds K env blank m (sim, rq, rp, k) = Some (sim', rq', rp', k')"
    "bus_log blank (sim_resp_can_id sim) inp out log k k'" using rounds_bus [OF assms] by blast
  then have "list_all (wf_frame (sim_resp_can_id sim)) (concat (map said log))"
    by (auto simp: bus_log_def list_all_iff intro: round_says_wf)
  with r show ?thesis by (auto simp: bus_log_def)
qed

text \<open>A peer that asks for the identification number for ever.\<close>

theorem ecu_frames_wf_witness:
  "\<exists>sim' rq' rp' k'. ecusim_rounds (logged (repeating_kernel 16 \<lparr>can_id = 0x601, can_dlc = 8, can_data = [0x03, 0x22, 0xF1, 0x90, 0, 0, 0, 0]\<rparr>))
      \<lparr>env_clock = (\<lambda>_ _. \<lparr>tv_sec = 0, tv_nsec = 0\<rparr>), env_rand = (\<lambda>_ _. 0), env_sleep = log_sleep (\<lambda>_ k. k), env_stopped = (\<lambda>_. False)\<rparr>
      \<lparr>can_id = 0, can_dlc = 0, can_data = []\<rparr> 9
      (boot_sim \<lparr>tv_sec = 0, tv_nsec = 0\<rparr> 1 3, replicate ECUSIM_MAX_PDU 0, replicate ECUSIM_MAX_PDU 0,
       (\<lparr>vc_in = [], vc_out = [], vc_open = 1, vc_filters = [], vc_slept = 0\<rparr>, [], [])) = Some (sim', rq', rp', k') \<and>
    list_all (wf_frame 0x681) (log_out k')"
proof -
  let ?f = "\<lparr>can_id = 0x601, can_dlc = 8, can_data = [0x03, 0x22, 0xF1, 0x90, 0, 0, 0, 0]\<rparr>"
  let ?env = "\<lparr>env_clock = (\<lambda>_ _. \<lparr>tv_sec = 0, tv_nsec = 0\<rparr>), env_rand = (\<lambda>_ _. 0), env_sleep = log_sleep (\<lambda>_ k. k),
    env_stopped = (\<lambda>_. False)\<rparr> :: (can_frame, can_frame vcan) log_state sim_env"
  have c: "reads_whole (\<lambda>f. length (can_data f) = 8) (logged (repeating_kernel 16 ?f))"
    by (rule logged_whole, rule repeating_whole) simp
  have o: "observed (logged (repeating_kernel 16 ?f)) (env_sleep ?env) log_in log_out" by (simp add: logged_observed)
  have id: "sim_resp_can_id (boot_sim \<lparr>tv_sec = 0, tv_nsec = 0\<rparr> 1 3) = 0x681" by (simp add: boot_sim_def uds_can_resp_id_def UDS_CAN_RESP_BASE_def)
  from ecu_frames_wf [OF c o boot_sim_inv length_replicate length_replicate, of "\<lparr>can_id = 0, can_dlc = 0, can_data = []\<rparr>" 9
      "\<lparr>tv_sec = 0, tv_nsec = 0\<rparr>" 1 3 0 0 "(\<lparr>vc_in = [], vc_out = [], vc_open = 1, vc_filters = [], vc_slept = 0\<rparr>, [], [])"]
  show ?thesis unfolding id by (elim exE conjE) (intro exI conjI, assumption, simp add: log_out_def)
qed

end
