(* ===== verification/EcuMain.thy ===== *)
theory EcuMain
  imports EcuRun
begin

text \<open>
  The main program of the simulator, \<open>src/ecusim/main.c\<close>: its arguments, with the part of \<open>strtol\<close>
  they rely on, its signal handler and flag, and its outer loop. What it prints is not modelled.
\<close>

section \<open>Numbers\<close>

text \<open>
  \<open>strtol(s, &end, 0)\<close> of the C standard: white space, a sign, a base prefix, the longest sequence of
  digits, saturated at the limits of a 64-bit \<open>long\<close>. The result is the value and what \<open>end\<close> points
  to, \<open>None\<close> when there was nothing to convert (\<open>end\<close> is then the whole string).
\<close>

definition is_space :: "char \<Rightarrow> bool" where
  "is_space c \<longleftrightarrow> c = CHR '' '' \<or> (9 \<le> (of_char c :: nat) \<and> (of_char c :: nat) \<le> 13)"

definition digit_val :: "char \<Rightarrow> nat option" where
  "digit_val c =
     (let n = of_char c :: nat in
      if 48 \<le> n \<and> n \<le> 57 then Some (n - 48)
      else if 65 \<le> n \<and> n \<le> 70 then Some (n - 55)
      else if 97 \<le> n \<and> n \<le> 102 then Some (n - 87)
      else None)"

fun is_digit :: "nat \<Rightarrow> char \<Rightarrow> bool" where
  "is_digit base c = (case digit_val c of None \<Rightarrow> False | Some v \<Rightarrow> v < base)"

fun scan_digits :: "nat \<Rightarrow> int \<Rightarrow> string \<Rightarrow> int \<times> string" where
  "scan_digits base acc [] = (acc, [])"
| "scan_digits base acc (c # cs) =
     (if is_digit base c then scan_digits base (acc * int base + int (the (digit_val c))) cs else (acc, c # cs))"

definition strip_sign :: "string \<Rightarrow> bool \<times> string" where
  "strip_sign s =
     (case s of c # cs \<Rightarrow> if c = CHR ''-'' then (True, cs) else if c = CHR ''+'' then (False, cs) else (False, s)
      | [] \<Rightarrow> (False, s))"

definition strip_prefix :: "string \<Rightarrow> nat \<times> string" where
  "strip_prefix s =
     (case s of
        a # b # c # cs \<Rightarrow>
          if a = CHR ''0'' \<and> (b = CHR ''x'' \<or> b = CHR ''X'') \<and> is_digit 16 c then (16, c # cs)
          else if a = CHR ''0'' then (8, s) else (10, s)
      | a # _ \<Rightarrow> if a = CHR ''0'' then (8, s) else (10, s)
      | [] \<Rightarrow> (10, s))"

definition LONG_MAX :: int where "LONG_MAX = 2 ^ 63 - 1"
definition LONG_MIN :: int where "LONG_MIN = - (2 ^ 63)"

definition strtol0 :: "string \<Rightarrow> (int \<times> string) option" where
  "strtol0 s =
     (let (neg, s) = strip_sign (dropWhile is_space s);
          (base, s) = strip_prefix s;
          (v, rest) = scan_digits base 0 s;
          v = (if neg then - v else v)
      in if rest = s then None
         else Some (if v > LONG_MAX then LONG_MAX else if v < LONG_MIN then LONG_MIN else v, rest))"

section \<open>Arguments\<close>

record main_opts =
  opt_ifname :: string
  opt_ecu_id :: u8
  opt_verbose :: bool

definition default_opts :: main_opts where
  "default_opts = \<lparr>opt_ifname = ''vcan0'', opt_ecu_id = 1, opt_verbose = False\<rparr>"

text \<open>The loop over \<open>argv[1..]\<close>: the exit code of \<open>main\<close> (\<open>Inl\<close>), or the options.\<close>

function parse_args :: "string list \<Rightarrow> main_opts \<Rightarrow> int + main_opts" where
  "parse_args args opts =
     (case args of
        [] \<Rightarrow> Inr opts
      | a # rest \<Rightarrow>
          if a = ''--interface'' \<and> rest \<noteq> [] then parse_args (tl rest) (opts\<lparr>opt_ifname := hd rest\<rparr>)
          else if a = ''--ecu-id'' \<and> rest \<noteq> [] then
            (case strtol0 (hd rest) of
               None \<Rightarrow> Inl 1
             | Some (n, end_ptr) \<Rightarrow>
                 if end_ptr \<noteq> [] \<or> n < 1 \<or> n > 127 then Inl 1
                 else parse_args (tl rest) (opts\<lparr>opt_ecu_id := word_of_int n\<rparr>))
          else if a = ''--verbose'' then parse_args rest (opts\<lparr>opt_verbose := True\<rparr>)
          else if a = ''--help'' \<or> a = ''-h'' then Inl 0
          else Inl 1)"
  by pat_completeness auto
termination
  by (relation "measure (\<lambda>(args, opts). length args)") auto

declare parse_args.simps [simp del]

section \<open>The program\<close>

text \<open>
  Signals are the kernel's: \<open>sig_action\<close> installs the handler for a signal, \<open>sig_caught k\<close> are the signals
  whose handler has run by the time the kernel is in state \<open>k\<close>, in order. The handler writes the global
  \<open>g_stop\<close>, and nothing else does, so its value is that of the handlers that have run.
\<close>

record 'k sig_env =
  sig_action :: "int \<Rightarrow> 'k \<Rightarrow> 'k"
  sig_caught :: "'k \<Rightarrow> int list"

definition SIGINT :: int where "SIGINT = 2"
definition SIGTERM :: int where "SIGTERM = 15"

definition handle_signal :: "int \<Rightarrow> int \<Rightarrow> int" where
  "handle_signal sig g_stop = 1"

definition g_stop :: "'k sig_env \<Rightarrow> 'k \<Rightarrow> int" where
  "g_stop S k = fold handle_signal (sig_caught S k) 0"

lemma g_stop_zero: "g_stop S k = 0 \<longleftrightarrow> sig_caught S k = []"
  by (cases "sig_caught S k" rule: rev_cases) (simp_all add: g_stop_def handle_signal_def)

text \<open>\<open>sim0\<close>, \<open>rq\<close> and \<open>rp\<close> are the uninitialised simulator and buffers.\<close>

partial_function (option) main_loop ::
  "(can_frame, 'k) can_kernel \<Rightarrow> 'k sim_env \<Rightarrow> can_frame \<Rightarrow> u8 list \<Rightarrow> u8 list \<Rightarrow> 'k sig_env \<Rightarrow> EcuSimulator \<Rightarrow> 'k \<Rightarrow>
   (EcuSimulator \<times> 'k) option" where
  "main_loop K env blank rq rp S sim k =
     (if g_stop S k = 0 \<and> sim_running sim \<noteq> 0 then do {
        (psim, k) \<leftarrow> ecusim_run K env blank rq rp (Some sim) k;
        sim \<leftarrow> psim;
        main_loop K env blank rq rp S sim k }
      else Some (sim, k))"

definition ecusim_main ::
  "(can_frame, 'k) can_kernel \<Rightarrow> 'k sim_env \<Rightarrow> can_frame \<Rightarrow> u8 list \<Rightarrow> u8 list \<Rightarrow> 'k sig_env \<Rightarrow> EcuSimulator \<Rightarrow>
   string list \<Rightarrow> 'k \<Rightarrow> (int \<times> 'k) option" where
  "ecusim_main K env blank rq rp S sim0 argv k =
     (case parse_args (tl argv) default_opts of
        Inl rc \<Rightarrow> Some (rc, k)
      | Inr opts \<Rightarrow> do {
          let k = sig_action S SIGINT (sig_action S SIGTERM k);
          (rc, psim, k) \<leftarrow> ecusim_init K (env_clock env k 0) (Some sim0) (opt_ecu_id opts) (Some (opt_ifname opts)) k;
          if rc \<noteq> 0 then Some (1, k)
          else do {
            sim \<leftarrow> psim;
            (sim, k) \<leftarrow> main_loop K env blank rq rp S (sim\<lparr>sim_verbose := opt_verbose opts\<rparr>) k;
            let (_, k) = ecusim_cleanup K (Some sim) k;
            Some (0, k) } })"

section \<open>Properties\<close>

text \<open>
  C39. The arguments are validated. Whatever the command line, when the program goes on to start a
  simulator its ECU number is between 1 and 127, so that the simulator gets proper request and response
  identifiers; otherwise it exits with code 0 (help) or 1.
\<close>

theorem main_args_valid:
  "case parse_args args default_opts of
     Inl rc \<Rightarrow> rc \<in> {0, 1}
   | Inr opts \<Rightarrow> 1 \<le> opt_ecu_id opts \<and> opt_ecu_id opts \<le> 127 \<and>
       unat (uds_can_req_id (opt_ecu_id opts)) = 0x600 + unat (opt_ecu_id opts) \<and>
       unat (uds_can_resp_id (opt_ecu_id opts)) = 0x680 + unat (opt_ecu_id opts)"
proof -
  have ids: "unat (uds_can_req_id e) = 0x600 + unat e \<and> unat (uds_can_resp_id e) = 0x680 + unat e"
    if "1 \<le> e" "e \<le> 127" for e :: u8
  proof -
    have "unat (ucast e :: u32) = unat e" using unat_u8_less [of e] by (simp add: unsigned_ucast_eq take_bit_nat_eq_self)
    moreover have "\<not> e < 1" "\<not> e > 127" "unat e \<le> 127" using that by (auto simp: word_le_nat_alt word_less_nat_alt)
    ultimately show ?thesis
      by (simp add: uds_can_req_id_def uds_can_resp_id_def UDS_CAN_REQ_BASE_def UDS_CAN_RESP_BASE_def unat_word_ariths(1))
  qed
  have "case parse_args args opts of Inl rc \<Rightarrow> rc \<in> {0, 1} | Inr opts' \<Rightarrow> 1 \<le> opt_ecu_id opts' \<and> opt_ecu_id opts' \<le> 127"
    if "1 \<le> opt_ecu_id opts \<and> opt_ecu_id opts \<le> 127" for opts
    using that
  proof (induction args opts rule: parse_args.induct)
    case (1 args opts)
    have num: "1 \<le> (word_of_int n :: u8) \<and> (word_of_int n :: u8) \<le> 127" if "1 \<le> n" "n \<le> 127" for n
      using that by (simp add: word_le_def uint_word_of_int)
    from 1 num show ?case
      by (subst parse_args.simps) (auto split: list.split option.split)
  qed
  from this [of default_opts] ids show ?thesis by (auto simp: default_opts_def split: sum.splits)
qed

lemma init_boot:
  assumes "ecusim_init K now (Some sim0) eid (Some name) k = Some (0, Some sim, k1)"
  obtains s where "sim = boot_sim now eid s"
proof -
  obtain rc sock k' where o: "uds_can_open K (Some \<lparr>fd = 0\<rparr>) (Some name) k = (rc, sock, k')" by (metis prod.exhaust)
  have "\<exists>s. sock = Some \<lparr>fd = s\<rparr>" if "rc = UDS_CAN_OK"
    using o that by (auto simp: uds_can_open_def Let_def split: if_splits prod.splits)
  with assms that show thesis
    by (auto simp: ecusim_init_connect connect_def o boot_sock Let_def Option.bind_eq_Some_conv split: if_splits prod.splits)
qed

text \<open>
  C38. The main program does not end on SIGTERM or SIGINT. Its signal handler only sets \<open>g_stop\<close>, which
  the outer loop tests between two calls of \<open>ecusim_run\<close>; that function watches \<open>running\<close> alone, and
  nothing in the program calls \<open>ecusim_stop\<close>. So once the simulator has started without a signal caught
  before, it serves any number of rounds without a fault, \<open>running\<close> still set after each, whatever signals
  arrive in the meantime, and neither \<open>ecusim_run\<close> nor the program ever returns.
\<close>

theorem main_ignores_signals:
  assumes "reads_whole (\<lambda>f. length (can_data f) = 8) K" "length rq = ECUSIM_MAX_PDU" "length rp = ECUSIM_MAX_PDU"
    and "parse_args (tl argv) default_opts = Inr opts" "\<And>k. \<not> env_stopped env k"
    and "k0 = sig_action S SIGINT (sig_action S SIGTERM k)"
    and "ecusim_init K (env_clock env k0 0) (Some sim0) (opt_ecu_id opts) (Some (opt_ifname opts)) k0 = Some (0, Some sim, k1)"
    and "sig_caught S k1 = []" "start = sim\<lparr>sim_verbose := opt_verbose opts\<rparr>"
  shows "(\<forall>m. \<exists>sim' rq' rp' k'. ecusim_rounds K env blank m (start, rq, rp, k1) = Some (sim', rq', rp', k') \<and>
      sim_running sim' \<noteq> 0) \<and>
    ecusim_run K env blank rq rp (Some start) k1 = None \<and>
    ecusim_main K env blank rq rp S sim0 argv k = None"
proof -
  from assms(7) obtain s where sim: "sim = boot_sim (env_clock env k0 0) (opt_ecu_id opts) s" by (rule init_boot)
  have inv: "sim_inv start" "sim_running start \<noteq> 0"
    using boot_sim_inv [of "env_clock env k0 0" "opt_ecu_id opts" s]
    by (simp_all add: assms(9) sim sim_inv_def)
  have "\<not> stops_after K env blank m (start, rq, rp, k1)" for m
    using assms(5) by (auto simp: stops_after_def split: option.splits)
  then have "ecusim_loop K env blank start rq rp k1 = None"
    using ecusim_loop_stopped [of K env blank start rq rp k1] assms(1-3) inv
    by (cases "ecusim_loop K env blank start rq rp k1") auto
  then have run: "ecusim_run K env blank rq rp (Some start) k1 = None" by (simp add: ecusim_run_def)
  then have "main_loop K env blank rq rp S start k1 = None"
    using assms(8) inv(2) by (subst main_loop.simps) (simp add: g_stop_zero)
  with assms(4,7) have "ecusim_main K env blank rq rp S sim0 argv k = None"
    by (simp add: ecusim_main_def assms(6) [symmetric] assms(9) [symmetric] Let_def)
  moreover have "\<exists>sim' rq' rp' k'. ecusim_rounds K env blank m (start, rq, rp, k1) = Some (sim', rq', rp', k') \<and>
      sim_running sim' \<noteq> 0" for m
    using ecusim_rounds_total [OF assms(1) inv(1) assms(2,3), of env blank m k1] inv(2) by metis
  ultimately show ?thesis using run by blast
qed

text \<open>A signal that arrives with the fourth frame.\<close>

theorem main_ignores_signals_witness:
  "ecusim_main ((repeating_kernel 16 \<lparr>can_id = 0x601, can_dlc = 8, can_data = replicate 8 0xFF\<rparr>)
        \<lparr>k_read := (\<lambda>s f k. (16, \<lparr>can_id = 0x601, can_dlc = 8, can_data = replicate 8 0xFF\<rparr>, k\<lparr>vc_slept := vc_slept k + 1\<rparr>))\<rparr>)
      \<lparr>env_clock = (\<lambda>_ _. \<lparr>tv_sec = 0, tv_nsec = 0\<rparr>), env_rand = (\<lambda>_ _. 0), env_sleep = (\<lambda>_ k. k), env_stopped = (\<lambda>_. False)\<rparr>
      \<lparr>can_id = 0, can_dlc = 0, can_data = []\<rparr> (replicate 4095 0) (replicate 4095 0) 
      \<lparr>sig_action = (\<lambda>_ k. k), sig_caught = (\<lambda>k. if vc_slept k > 3 then [SIGTERM] else [])\<rparr> zero_simulator
      [''ecusim'', ''--ecu-id'', ''0x7F''] \<lparr>vc_in = [], vc_out = [], vc_open = 0, vc_filters = [], vc_slept = 0\<rparr> = None"
proof -
  let ?f = "\<lparr>can_id = 0x601, can_dlc = 8, can_data = replicate 8 0xFF\<rparr>"
  let ?K = "(repeating_kernel 16 ?f)\<lparr>k_read := (\<lambda>s f k. (16, ?f, k\<lparr>vc_slept := vc_slept k + 1\<rparr>))\<rparr> :: (can_frame, can_frame vcan) can_kernel"
  let ?env = "\<lparr>env_clock = (\<lambda>_ _. \<lparr>tv_sec = 0, tv_nsec = 0\<rparr>), env_rand = (\<lambda>_ _. 0), env_sleep = (\<lambda>_ k. k),
    env_stopped = (\<lambda>_. False)\<rparr> :: can_frame vcan sim_env"
  have w: "reads_whole (\<lambda>f. length (can_data f) = 8) ?K" by (simp add: reads_whole_def)
  have num: "strtol0 ''0x7F'' = Some (127, [])" by code_simp
  have args: "parse_args (tl [''ecusim'', ''--ecu-id'', ''0x7F'']) default_opts = Inr (default_opts\<lparr>opt_ecu_id := 127\<rparr>)"
    by (subst list.sel, subst parse_args.simps, simp add: num, subst parse_args.simps, simp)
  have init: "\<exists>sim k1. ecusim_init ?K (env_clock ?env k 0) (Some zero_simulator) (opt_ecu_id (default_opts\<lparr>opt_ecu_id := 127\<rparr>))
      (Some (opt_ifname (default_opts\<lparr>opt_ecu_id := 127\<rparr>))) k = Some (0, Some sim, k1) \<and> vc_slept k1 = vc_slept k" for k
    by (simp add: ecusim_init_connect connect_def uds_can_open_def uds_can_set_filter_def repeating_kernel_def vcan_kernel_def
        mem_simps UDS_CAN_MAX_FILTERS_def default_opts_def)
  let ?k = "\<lparr>vc_in = [], vc_out = [], vc_open = 0, vc_filters = [], vc_slept = 0\<rparr> :: can_frame vcan"
  from init [of ?k] obtain sim k1 where i: "ecusim_init ?K (env_clock ?env ?k 0) (Some zero_simulator)
      (opt_ecu_id (default_opts\<lparr>opt_ecu_id := 127\<rparr>)) (Some (opt_ifname (default_opts\<lparr>opt_ecu_id := 127\<rparr>))) ?k =
      Some (0, Some sim, k1)" "vc_slept k1 = 0" by auto
  show ?thesis
    by (rule main_ignores_signals [OF w _ _ args _ _ i(1) _ refl, THEN conjunct2, THEN conjunct2])
      (simp_all add: ECUSIM_MAX_PDU_def i(2))
qed

end
