(* ===== verification/IsoTpUnseen.thy ===== *)
theory IsoTpUnseen
  imports IsoTpSafe
begin

text \<open>
  Reception into uninitialised memory: two runs of \<open>uds_tp_recv\<close> (or of its FD version) on two buffers of
  the same size, against the same peer, return the same code, leave the same frames on the bus and, when
  they succeed, the same PDU. What was in the buffer before cannot be told from the outside.
\<close>

section \<open>Decoders on two buffers\<close>

definition agree :: "nat \<Rightarrow> u8 list \<Rightarrow> u8 list \<Rightarrow> bool" where
  "agree p b b' \<longleftrightarrow> length b' = length b \<and> take p b' = take p b"

lemma agree_mono: "agree p b b' \<Longrightarrow> q \<le> p \<Longrightarrow> agree q b b'"
  unfolding agree_def by (metis min_absorb1 take_take)

lemma agree_splice:
  assumes "agree p b b'" "p + length xs \<le> length b"
  shows "agree (p + length xs) (splice p xs b) (splice p xs b')"
  using assms by (simp add: agree_def splice_def)

lemma mem_cpy_unseen:
  assumes "mem_cpy (Some b) p src s m = Some c" "length b' = length b"
  obtains c' where "mem_cpy (Some b') p src s m = Some c'" "length c = length b" "length c' = length b"
    "agree p b b' \<Longrightarrow> agree (p + m) c c'"
proof -
  from assms obtain xs where xs: "src = Some xs" "s + m \<le> length xs" "p + m \<le> length b"
    "c = splice p (take m (drop s xs)) b"
    by (cases src) (auto simp: mem_cpy_def mem_read_def mem_put_def split: if_splits)
  let ?x = "take m (drop s xs)"
  have len: "length ?x = m" using xs(2) by simp
  have cpy: "mem_cpy (Some b') p src s m = Some (splice p ?x b')"
    using xs assms(2) by (simp add: mem_cpy_def mem_simps)
  show thesis
    by (rule that [OF cpy]) (use xs assms(2) len agree_splice [of p b b' ?x] in simp_all)
qed

lemma unseen_cpy:
  assumes "length b' = length b"
    and "\<And>c c'. length c = length b \<Longrightarrow> length c' = length b \<Longrightarrow> (agree p b b' \<Longrightarrow> agree (p + m) c c') \<Longrightarrow> rel_option R (f c) (f' c')"
  shows "rel_option R (mem_cpy (Some b) p src s m \<bind> f) (mem_cpy (Some b') p src s m \<bind> f')"
proof (cases "mem_cpy (Some b) p src s m")
  case None
  with assms(1) have "mem_cpy (Some b') p src s m = None"
    by (cases src) (auto simp: mem_cpy_def mem_read_def mem_put_def split: if_splits)
  with None show ?thesis by simp
next
  case (Some c)
  from this assms(1) obtain c' where "mem_cpy (Some b') p src s m = Some c'" "length c = length b" "length c' = length b"
    "agree p b b' \<Longrightarrow> agree (p + m) c c'" by (rule mem_cpy_unseen) blast
  with Some assms(2) show ?thesis by simp
qed

text \<open>Buffers that a decoder with result \<open>rc\<close> leaves, of which \<open>p\<close> bytes count.\<close>

definition same_fill :: "nat \<Rightarrow> UdsTpError \<Rightarrow> u8 list ptr \<Rightarrow> u8 list ptr \<Rightarrow> bool" where
  "same_fill p rc x x' \<longleftrightarrow> (\<exists>c c'. x = Some c \<and> x' = Some c' \<and> length c' = length c \<and> (rc = UDS_TP_OK \<longrightarrow> agree p c c'))"

lemma same_fill_Some [simp]:
  "same_fill p rc (Some c) (Some c') \<longleftrightarrow> length c' = length c \<and> (rc = UDS_TP_OK \<longrightarrow> agree p c c')"
  by (simp add: same_fill_def)

lemmas decoder_rules = unseen_cpy unseen_if unseen_option unseen_prod unseen_bind

lemma agree_0: "length b' = length b \<Longrightarrow> agree 0 b b'"
  by (simp add: agree_def)

definition same_sf :: "UdsTpError \<times> u8 list ptr \<times> nat ptr \<Rightarrow> UdsTpError \<times> u8 list ptr \<times> nat ptr \<Rightarrow> bool" where
  "same_sf r r' \<longleftrightarrow> (case (r, r') of ((rc, x, l), (rc', x', l')) \<Rightarrow> rc = rc' \<and> l = l' \<and> same_fill (the l) rc x x')"

definition same_ff :: "UdsTpError \<times> u8 list ptr \<times> u32 ptr \<times> nat ptr \<Rightarrow> UdsTpError \<times> u8 list ptr \<times> u32 ptr \<times> nat ptr \<Rightarrow> bool" where
  "same_ff r r' \<longleftrightarrow> (case (r, r') of ((rc, x, t, m), (rc', x', t', m')) \<Rightarrow> rc = rc' \<and> t = t' \<and> m = m' \<and> same_fill (the m) rc x x')"

definition same_cf :: "nat \<Rightarrow> UdsTpError \<times> u8 ptr \<times> u8 list ptr \<Rightarrow> UdsTpError \<times> u8 ptr \<times> u8 list ptr \<Rightarrow> bool" where
  "same_cf p r r' \<longleftrightarrow> (case (r, r') of ((rc, sn, x), (rc', sn', x')) \<Rightarrow> rc = rc' \<and> sn = sn' \<and> same_fill p rc x x')"

lemmas same_dec = same_sf_def same_ff_def same_cf_def

text \<open>The laws: a decoder treats two buffers of the same size alike, and what it reports as decoded is the same.\<close>

locale blind_codec = safe_codec cd whole for cd :: "'f tp_codec" and whole +
  assumes sf_unseen: "length b' = length b \<Longrightarrow>
      rel_option same_sf (cd_dec_sf cd (Some f) (Some b) n (Some l)) (cd_dec_sf cd (Some f) (Some b') n (Some l))"
    and ff_unseen: "length b' = length b \<Longrightarrow>
      rel_option same_ff (cd_dec_ff cd (Some f) (Some b) n (Some t) (Some m)) (cd_dec_ff cd (Some f) (Some b') n (Some t) (Some m))"
    and cf_unseen: "length b' = length b \<Longrightarrow> agree p b b' \<Longrightarrow>
      rel_option (same_cf (p + m)) (cd_dec_cf cd (Some f) (Some sn) (Some b) p n m) (cd_dec_cf cd (Some f) (Some sn) (Some b') p n m)"
begin

lemma recv_loop_unseen:
  assumes "whole_frames whole rcv" "n \<le> length b" "unat tot \<le> n" "agree (unat received) b b'"
  shows "\<exists>rc c c' k'. tp_recv_loop cd snd_f rcv tx cfg n tot (Some b) (Some fc) (Some frame) received sn cnt k = Some (rc, Some c, k') \<and>
    tp_recv_loop cd snd_f rcv tx cfg n tot (Some b') (Some fc) (Some frame) received sn cnt k = Some (rc, Some c', k') \<and>
    length c = length b \<and> length c' = length b \<and> (rc = UDS_TP_OK \<longrightarrow> agree (unat tot) c c')"
  using assms(2,4)
proof (induction "unat tot - unat received" arbitrary: b b' fc frame received sn cnt k rule: less_induct)
  case less
  from less.prems(2) have len: "length b' = length b" by (simp add: agree_def)
  show ?case
  proof (cases "received < tot")
    case False
    then have "unat tot \<le> unat received" by (simp add: word_le_nat_alt not_less)
    from agree_mono [OF less.prems(2) this] len False show ?thesis by (subst (1 2) tp_recv_loop.simps) simp
  next
    case True
    with assms(1) show ?thesis
    proof (cases rule: recv_loop_step [where n = n and snd_f = snd_f and tx = tx and cfg = cfg and fc = fc and frame = frame
        and sn = sn and cnt = cnt and k = k])
      case stops
      with len show ?thesis by simp
    next
      case (decodes g fc1 cnt1 k1 m)
      from decodes(3) assms(3) have fit: "unat received + m \<le> n" by simp
      obtain rc sn1 c where c: "cd_dec_cf cd (Some g) (Some 0) (Some b) (unat received) (n - unat received) m =
          Some (rc, Some sn1, Some c)" "length c = length b"
        using dec_cf_law [OF decodes(1) fit less.prems(1), of 0] by auto
      obtain c' where c': "cd_dec_cf cd (Some g) (Some 0) (Some b') (unat received) (n - unat received) m =
          Some (rc, Some sn1, Some c')" "length c' = length b" "rc = UDS_TP_OK \<Longrightarrow> agree (unat received + m) c c'"
        using cf_unseen [OF len less.prems(2), where f = g and sn = 0 and n = "n - unat received" and m = m] c
        by (auto simp: same_cf_def option_rel_Some1 same_fill_def)
      show ?thesis
      proof (cases "rc = UDS_TP_OK")
        case False
        with decodes(5) [of b] decodes(5) [of b'] c c' show ?thesis by simp
      next
        case step: True
        have "\<exists>rc d d' k'. tp_recv_loop cd snd_f rcv tx cfg n tot (Some c) (Some fc1) (Some g)
            (received + of_nat m) ((sn + 1) AND 0x0F) (cnt1 + 1) k1 = Some (rc, Some d, k') \<and>
            tp_recv_loop cd snd_f rcv tx cfg n tot (Some c') (Some fc1) (Some g)
            (received + of_nat m) ((sn + 1) AND 0x0F) (cnt1 + 1) k1 = Some (rc, Some d', k') \<and>
            length d = length c \<and> length d' = length c \<and> (rc = UDS_TP_OK \<longrightarrow> agree (unat tot) d d')"
          using decodes(2-4) c(2) c'(3) step less.prems(1) by (intro less.hyps) simp_all
        with decodes(5) [of b] decodes(5) [of b'] c c' step show ?thesis by simp
      qed
    qed
  qed
qed

lemma recv_pdu_unseen:
  assumes "whole_frames whole rcv" "n \<le> length b" "length b' = length b" "\<And>t. \<not> too_long t n \<Longrightarrow> unat t \<le> n"
  shows "\<exists>rc c c' l' k'. tp_recv_pdu cd too_long snd_f rcv tx (Some b) n (Some l) cfg k = Some (rc, Some c, Some l', k') \<and>
    tp_recv_pdu cd too_long snd_f rcv tx (Some b') n (Some l) cfg k = Some (rc, Some c', Some l', k') \<and>
    length c = length b \<and> length c' = length b \<and> (rc = UDS_TP_OK \<longrightarrow> agree l' c c')"
proof -
  obtain rc g k1 where rcv: "rcv (Some (cd_blank cd)) k = (rc, Some g, k1)" "rc = UDS_CAN_OK \<Longrightarrow> whole g"
    using whole_framesE [OF assms(1)] by blast
  show ?thesis
  proof (cases "rc = UDS_CAN_OK")
    case False
    with rcv(1) assms(3) show ?thesis by (auto simp: tp_recv_pdu_def)
  next
    case True
    with rcv(2) have g: "whole g" by simp
    obtain t where t: "cd_type cd (Some g) = Some t" using type_law [OF g] ..
    obtain rcs bs ls where sf: "cd_dec_sf cd (Some g) (Some b) n (Some l) = Some (rcs, Some bs, Some ls)" "length bs = length b"
      using dec_sf_law [OF g assms(2)] by blast
    obtain bs' where sf': "cd_dec_sf cd (Some g) (Some b') n (Some l) = Some (rcs, Some bs', Some ls)" "length bs' = length b"
      "rcs = UDS_TP_OK \<Longrightarrow> agree ls bs bs'"
      using sf_unseen [OF assms(3), where f = g and n = n and l = l] sf by (auto simp: same_sf_def option_rel_Some1 same_fill_def)
    obtain rcf bf tf mf where ff: "cd_dec_ff cd (Some g) (Some b) n (Some 0) (Some 0) = Some (rcf, Some bf, Some tf, Some mf)"
      "length bf = length b" using dec_ff_law [OF g assms(2)] by blast
    obtain bf' where ff': "cd_dec_ff cd (Some g) (Some b') n (Some 0) (Some 0) = Some (rcf, Some bf', Some tf, Some mf)"
      "length bf' = length b" "rcf = UDS_TP_OK \<Longrightarrow> agree mf bf bf'"
      using ff_unseen [OF assms(3), where f = g and n = n and t = 0 and m = 0] ff
      by (auto simp: same_ff_def option_rel_Some1 same_fill_def)
    obtain rcc fcc kc where cts: "tp_send_cts cd snd_f tx cfg (Some (cd_blank cd)) k1 = Some (rcc, Some fcc, kc)"
      using send_cts_total [of snd_f tx cfg "cd_blank cd" k1] by auto
    show ?thesis
    proof (cases "t = UDS_TP_FRAME_FF \<and> rcf = UDS_TP_OK \<and> \<not> too_long tf n \<and> rcc = UDS_TP_OK")
      case False
      with True rcv(1) t sf sf' ff ff' cts assms(3) show ?thesis
        by (auto simp: tp_recv_pdu_def split: if_splits)
    next
      case go: True
      then have tf: "unat tf \<le> n" using assms(4) by blast
      have "unat (of_nat mf :: u32) \<le> mf" by (simp add: unat_of_nat)
      with ff'(3) go have ag: "agree (unat (of_nat mf :: u32)) bf bf'" by (auto intro: agree_mono)
      from ff(2) assms(2) have "n \<le> length bf" by simp
      from recv_loop_unseen [OF assms(1) this tf ag, of snd_f tx cfg fcc g 1 0 kc] True rcv(1) t ff ff' cts go show ?thesis
        by (auto simp: tp_recv_pdu_def)
    qed
  qed
qed

end


section \<open>The two frame layouts\<close>

lemma classic_sf_same: "length b' = length b \<Longrightarrow>
    rel_option same_sf (uds_tp_decode_sf (Some f) (Some b) n (Some l)) (uds_tp_decode_sf (Some f) (Some b') n (Some l))"
  unfolding uds_tp_decode_sf_def Let_def
  by (simp only: option.simps simp_thms, (rule decoder_rules | assumption | (simp add: same_dec agree_0; fail))+)

lemma fd_sf_same: "length b' = length b \<Longrightarrow>
    rel_option same_sf (uds_tp_decode_sf_fd (Some g) (Some b) n (Some l)) (uds_tp_decode_sf_fd (Some g) (Some b') n (Some l))"
  unfolding uds_tp_decode_sf_fd_def Let_def
  by (simp only: option.simps simp_thms, (rule decoder_rules | assumption | (simp add: same_dec agree_0; fail))+)

lemma classic_ff_same: "length b' = length b \<Longrightarrow>
    rel_option (\<lambda>(rc, x, t) (rc', x', t'). rc = rc' \<and> t = t' \<and> same_fill 6 rc x x')
    (uds_tp_decode_ff (Some f) (Some b) n (Some t)) (uds_tp_decode_ff (Some f) (Some b') n (Some t))"
  unfolding uds_tp_decode_ff_def Let_def
  by (simp only: option.simps simp_thms, (rule decoder_rules | assumption | (simp add: agree_0 tp_consts; fail))+)

lemma fd_ff_same: "length b' = length b \<Longrightarrow>
    rel_option same_ff (uds_tp_decode_ff_fd (Some g) (Some b) n (Some t) (Some m))
      (uds_tp_decode_ff_fd (Some g) (Some b') n (Some t) (Some m))"
  unfolding uds_tp_decode_ff_fd_def Let_def
  by (simp only: option.simps simp_thms, (rule decoder_rules | assumption | (simp add: same_dec agree_0; fail))+)

lemma classic_cf_same: "length b' = length b \<Longrightarrow> agree p b b' \<Longrightarrow>
    rel_option (same_cf (p + m)) (uds_tp_decode_cf (Some f) (Some sn) (Some b) p n m) (uds_tp_decode_cf (Some f) (Some sn) (Some b') p n m)"
  unfolding uds_tp_decode_cf_def
  by (simp only: option.simps simp_thms, (rule decoder_rules | assumption | (simp add: same_dec; fail))+)

lemma fd_cf_same: "length b' = length b \<Longrightarrow> agree p b b' \<Longrightarrow>
    rel_option (same_cf (p + m)) (uds_tp_decode_cf_fd (Some g) (Some sn) (Some b) p n m)
      (uds_tp_decode_cf_fd (Some g) (Some sn) (Some b') p n m)"
  unfolding uds_tp_decode_cf_fd_def
  by (simp only: option.simps simp_thms, (rule decoder_rules | assumption | (simp add: same_dec; fail))+)


interpretation classic_blind: blind_codec "classic_codec blank" "\<lambda>f. length (can_data f) = 8"
proof unfold_locales
  fix b b' :: "u8 list" and f n l t m p sn
  assume len: "length b' = length b"
  show "rel_option same_sf (cd_dec_sf (classic_codec blank) (Some f) (Some b) n (Some l))
      (cd_dec_sf (classic_codec blank) (Some f) (Some b') n (Some l))"
    using classic_sf_same [OF len] by (simp add: classic_codec_def)
  show "rel_option same_ff (cd_dec_ff (classic_codec blank) (Some f) (Some b) n (Some t) (Some m))
      (cd_dec_ff (classic_codec blank) (Some f) (Some b') n (Some t) (Some m))"
    unfolding classic_codec_def tp_codec.simps
    by (rule unseen_seq [OF classic_ff_same [OF len]]) (auto simp: same_ff_def tp_consts)
  assume "agree p b b'"
  with len show "rel_option (same_cf (p + m)) (cd_dec_cf (classic_codec blank) (Some f) (Some sn) (Some b) p n m)
      (cd_dec_cf (classic_codec blank) (Some f) (Some sn) (Some b') p n m)"
    using classic_cf_same by (simp add: classic_codec_def)
qed

interpretation fd_blind: blind_codec "fd_codec blank" "\<lambda>f. length (fd_data f) = 64"
  by unfold_locales (simp_all add: fd_codec_def fd_sf_same fd_ff_same fd_cf_same)

section \<open>The entry points\<close>

lemma recv_unseen:
  assumes "reads_whole (\<lambda>f. length (can_data f) = 8) K" "n \<le> length b" "length b' = length b" "n < 2 ^ 32"
  shows "\<exists>rc c c' l' k'. uds_tp_recv K blank (Some s) tx (Some b) n (Some l) pcfg k = Some (rc, Some c, Some l', k') \<and>
    uds_tp_recv K blank (Some s) tx (Some b') n (Some l) pcfg k = Some (rc, Some c', Some l', k') \<and>
    length c = length b \<and> length c' = length b \<and> (rc = UDS_TP_OK \<longrightarrow> agree l' c c')"
proof (cases "n = 0 \<or> pcfg = None \<or> timeout_ms (the pcfg) = 0")
  case False
  have "\<not> t > (of_nat n :: u32) \<Longrightarrow> unat t \<le> n" for t
    using assms(4) by (simp add: not_less word_le_nat_alt unat_of_nat)
  note pdu = classic_blind.recv_pdu_unseen [OF can_recv_whole [OF assms(1)] assms(2,3), where too_long = "\<lambda>x n. x > of_nat n", OF this]
  from False obtain cfg where "pcfg = Some cfg" by auto
  with False pdu show ?thesis by (simp add: uds_tp_recv_def)
qed (use assms(3) in \<open>auto simp: uds_tp_recv_def\<close>)

lemma recv_fd_unseen:
  assumes "reads_whole (\<lambda>f. length (fd_data f) = 64) K" "n \<le> length b" "length b' = length b"
  shows "\<exists>rc c c' l' k'. uds_tp_recv_fd K blank (Some s) tx (Some b) n (Some l) pcfg k = Some (rc, Some c, Some l', k') \<and>
    uds_tp_recv_fd K blank (Some s) tx (Some b') n (Some l) pcfg k = Some (rc, Some c', Some l', k') \<and>
    length c = length b \<and> length c' = length b \<and> (rc = UDS_TP_OK \<longrightarrow> agree l' c c')"
proof (cases "n = 0 \<or> pcfg = None \<or> timeout_ms (the pcfg) = 0")
  case False
  note pdu = fd_blind.recv_pdu_unseen [OF can_recv_whole [OF assms(1)] assms(2,3), where too_long = "\<lambda>x n. unat x > n"]
  from False obtain cfg where "pcfg = Some cfg" by auto
  with False pdu show ?thesis by (simp add: uds_tp_recv_fd_def uds_can_recv_fd_def not_less)
qed (use assms(3) in \<open>auto simp: uds_tp_recv_fd_def\<close>)

end
