(* ===== verification/EcuUnseen.thy ===== *)
theory EcuUnseen
  imports EcuTrace EcuWire IsoTpUnseen
begin

text \<open>
  The two buffers of \<open>ecusim_run\<close> are uninitialised memory, and no round clears them. Two runs of the
  simulator that differ in nothing but the content of these buffers are compared: every service writes
  all of the response it announces (\<open>blind_service\<close>), reception all of the request it reports
  (\<open>blind_codec\<close>), so the runs stay equal in the simulator and in the kernel state for ever.
\<close>

section \<open>One dispatch on two buffers\<close>

definition same_flow :: "flow \<Rightarrow> flow \<Rightarrow> bool" where
  "same_flow = rel_option (rel_sum (\<lambda>(sim, out) (sim', out'). same_answer (UDS_CORE_OK, sim, out) (UDS_CORE_OK, sim', out'))
     same_answer)"

lemma same_reject: "length b' = length b \<Longrightarrow> same_flow (reject sid k sim (mk_out b 0 0)) (reject sid k sim (mk_out b' 0 0))"
proof (cases "3 \<le> length b")
  case True
  assume "length b' = length b"
  with True show ?thesis by (simp add: same_flow_def reject_def build_nrc_mk unseen_answer)
next
  case False
  assume "length b' = length b"
  with False show ?thesis by (simp add: same_flow_def reject_def build_nrc_def put_resp_def mem_put_def)
qed

lemma same_answer_mkE:
  assumes "same_answer (rc, s, mk_out b l c) r"
  obtains b' where "r = (rc, s, mk_out b' l c)" "length b' = length b"
    "rc = UDS_CORE_OK \<Longrightarrow> l \<le> length b \<and> take l b' = take l b"
proof -
  obtain rc' s' out where r: "r = (rc', s', out)" by (cases r) auto
  with assms obtain b' l' c' where "out = mk_out b' l' c'" by (auto simp: same_answer_def alike_def)
  with assms r that [of b'] show thesis by auto
qed

lemma same_flowE:
  assumes "same_flow (Some (Inl (sim, mk_out b l c))) r"
  obtains b' where "r = Some (Inl (sim, mk_out b' l c))" "length b' = length b" "take l b' = take l b" "l \<le> length b"
proof -
  from assms obtain s' out where r: "r = Some (Inl (s', out))"
      "same_answer (UDS_CORE_OK, sim, mk_out b l c) (UDS_CORE_OK, s', out)"
    by (auto simp: same_flow_def option_rel_Some1 rel_sum.simps)
  from r(2) show thesis by (rule same_answer_mkE) (use r(1) that in auto)
qed

lemma same_flow_serviceE:
  assumes "same_flow (Some (Inr (rc, sim, mk_out b l c))) r"
  obtains b' where "r = Some (Inr (rc, sim, mk_out b' l c))" "length b' = length b"
    "rc = UDS_CORE_OK \<Longrightarrow> l \<le> length b \<and> take l b' = take l b"
proof -
  from assms obtain a where r: "r = Some (Inr a)" "same_answer (rc, sim, mk_out b l c) a"
    by (auto simp: same_flow_def option_rel_Some1 rel_sum.simps)
  from r(2) show thesis by (rule same_answer_mkE) (use r(1) that in auto)
qed

lemma same_if:
  "(c \<Longrightarrow> same_flow p p') \<Longrightarrow> (\<not> c \<Longrightarrow> same_flow q q') \<Longrightarrow> same_flow (if c then p else q) (if c then p' else q')"
  by simp

lemma same_bind: "(\<And>x. m = Some x \<Longrightarrow> same_flow (f x) (f' x)) \<Longrightarrow> same_flow (m \<bind> f) (m \<bind> f')"
  by (cases m) (simp_all add: same_flow_def)

lemma same_answer_upd: "same_answer (rc, s, out) (rc', s', out') \<Longrightarrow> same_answer (rc, upd rc s, out) (rc', upd rc' s', out')"
  by (auto simp: same_answer_def)

context blind_service
begin

lemma same_then:
  assumes "inv s" "n \<le> length b" "length b' = length b"
  shows "same_flow (do { (rc, s', out) \<leftarrow> svc s n (mk_out b 0 0); Some (Inr (rc, upd rc s', out)) })
    (do { (rc, s', out) \<leftarrow> svc s n (mk_out b' 0 0); Some (Inr (rc, upd rc s', out)) })"
  using unseen [OF assms, of 0 0]
  by (cases "svc s n (mk_out b 0 0)"; cases "svc s n (mk_out b' 0 0)")
    (auto simp: same_flow_def intro: same_answer_upd)

lemma same_call:
  assumes "inv s" "n \<le> length b" "length b' = length b"
  shows "same_flow (call upd (svc s n (mk_out b 0 0))) (call upd (svc s n (mk_out b' 0 0)))"
  unfolding call_def by (rule same_then [OF assms])

end

text \<open>The situation of two runs: one simulator, two buffers of the same size.\<close>

definition twins :: "EcuSimulator \<Rightarrow> nat \<Rightarrow> u8 list \<Rightarrow> u8 list \<Rightarrow> bool" where
  "twins sim n b b' \<longleftrightarrow> ready sim n b \<and> all_backed (sim_did_reg sim) \<and> length b' = length b"

lemma twinsD:
  assumes "twins sim n b b'"
  shows "n \<le> length b" "length b' = length b" "ptr_inv sec_inv (Some (sim_security sim))"
    "ptr_inv did_reg_inv (Some (sim_did_reg sim))" "ptr_inv dtc_reg_inv (Some (sim_dtc_reg sim))"
    "ptr_inv (\<lambda>reg. did_reg_inv reg \<and> all_backed reg) (Some (sim_did_reg sim))"
    "xfer_state_inv (Some (sim_xfer sim), Some (sim_flash sim))"
    "ptr_inv (xfer_inv (sim_flash sim)) (Some (sim_xfer sim))" "ptr_inv (\<lambda>_. True) p"
  using assms by (simp_all add: twins_def ready_def sim_inv_def ptr_inv_def)

lemmas same_intros = same_if same_reject same_bind

lemma on_dsc_same:
  assumes "twins sim n b b'"
  shows "same_flow (on_dsc clk sim req n (mk_out b 0 0)) (on_dsc clk sim req n (mk_out b' 0 0))"
  unfolding on_dsc_def by (intro same_intros dsc_blind.same_call twinsD [OF assms])

lemma on_tester_present_same:
  assumes "twins sim n b b'"
  shows "same_flow (on_tester_present clk sim req n (mk_out b 0 0)) (on_tester_present clk sim req n (mk_out b' 0 0))"
  unfolding on_tester_present_def by (intro same_intros tester_present_blind.same_call twinsD [OF assms])

lemma on_comm_control_same:
  assumes "twins sim n b b'"
  shows "same_flow (on_comm_control sim req n (mk_out b 0 0)) (on_comm_control sim req n (mk_out b' 0 0))"
  unfolding on_comm_control_def by (intro same_intros comm_control_blind.same_call twinsD [OF assms] TrueI)

lemma on_clear_dtc_same:
  assumes "twins sim n b b'"
  shows "same_flow (on_clear_dtc sim req n (mk_out b 0 0)) (on_clear_dtc sim req n (mk_out b' 0 0))"
  unfolding on_clear_dtc_def Let_def by (intro same_intros clear_dtc_blind.same_call twinsD [OF assms])

lemma on_ecu_reset_same:
  assumes "twins sim n b b'"
  shows "same_flow (on_ecu_reset clk sim req n (mk_out b 0 0)) (on_ecu_reset clk sim req n (mk_out b' 0 0))"
  unfolding on_ecu_reset_def Let_def
  by (rule same_if, rule same_reject [OF twinsD(2) [OF assms]], rule same_bind)
    (rule ecu_reset_blind.same_then [OF TrueI twinsD(1,2) [OF assms]])

lemma on_write_did_same:
  assumes "twins sim n b b'"
  shows "same_flow (on_write_did sim req n (mk_out b 0 0)) (on_write_did sim req n (mk_out b' 0 0))"
  unfolding on_write_did_def Let_def length_drop [symmetric]
  by (intro same_intros write_did_blind.same_call twinsD [OF assms])

lemma on_request_download_same:
  assumes "twins sim n b b'"
  shows "same_flow (on_request_download sim req n (mk_out b 0 0)) (on_request_download sim req n (mk_out b' 0 0))"
  unfolding on_request_download_def length_drop [symmetric]
  by (intro same_intros request_download_blind.same_call twinsD [OF assms])

lemma on_request_upload_same:
  assumes "twins sim n b b'"
  shows "same_flow (on_request_upload sim req n (mk_out b 0 0)) (on_request_upload sim req n (mk_out b' 0 0))"
  unfolding on_request_upload_def length_drop [symmetric]
  by (intro same_intros request_upload_blind.same_call twinsD [OF assms])

lemma on_transfer_data_same:
  assumes "twins sim n b b'"
  shows "same_flow (on_transfer_data sim req n (mk_out b 0 0)) (on_transfer_data sim req n (mk_out b' 0 0))"
  unfolding on_transfer_data_def length_drop [symmetric]
  by (intro same_intros transfer_data_blind.same_call twinsD [OF assms])

lemma on_transfer_exit_same:
  assumes "twins sim n b b'"
  shows "same_flow (on_transfer_exit sim n (mk_out b 0 0)) (on_transfer_exit sim n (mk_out b' 0 0))"
  unfolding on_transfer_exit_def by (rule transfer_exit_blind.same_call [OF twinsD(8,1,2) [OF assms]])

lemma on_read_did_same:
  assumes "twins sim n b b'"
  shows "same_flow (on_read_did sim req n (mk_out b 0 0)) (on_read_did sim req n (mk_out b' 0 0))"
proof -
  let ?k = "(length req - 1) div 2"
  have "same_flow
      (do { dl \<leftarrow> fill_did_list (Some req) ?k 0;
            call (at put_dids sim) (uds_svc_read_did (Some dl) ?k (Some (sim_did_reg sim)) n (mk_out b 0 0)) })
      (do { dl \<leftarrow> fill_did_list (Some req) ?k 0;
            call (at put_dids sim) (uds_svc_read_did (Some dl) ?k (Some (sim_did_reg sim)) n (mk_out b' 0 0)) })"
    if "3 \<le> length req"
  proof -
    have "2 * (0 + ?k) < length req" using that by (simp; arith)
    from fill_did_list_total [OF this] obtain dl where "fill_did_list (Some req) ?k 0 = Some dl" "length dl = ?k" by blast
    then show ?thesis using read_did_blind.same_call [OF twinsD(6,1,2) [OF assms], of _ dl] by simp
  qed
  then show ?thesis unfolding on_read_did_def Let_def by (intro same_if same_reject twinsD [OF assms]) auto
qed

lemma on_read_dtc_same:
  assumes "twins sim n b b'"
  shows "same_flow (on_read_dtc sim req n (mk_out b 0 0)) (on_read_dtc sim req n (mk_out b' 0 0))"
proof -
  have "same_flow
      (call (at put_dtcs sim) (uds_svc_read_dtc sub (if length req > 2 then Some (drop 2 req) else None)
         (if length req > 2 then length req - 2 else 0) (Some (sim_dtc_reg sim)) n (mk_out b 0 0)))
      (call (at put_dtcs sim) (uds_svc_read_dtc sub (if length req > 2 then Some (drop 2 req) else None)
         (if length req > 2 then length req - 2 else 0) (Some (sim_dtc_reg sim)) n (mk_out b' 0 0)))" for sub
    using read_dtc_blind.same_call [OF twinsD(5,1,2) [OF assms], of _ sub "drop 2 req"]
      read_dtc_blind.same_call [OF twinsD(5,1,2) [OF assms], of _ sub "[]"] by (simp add: read_dtc_no_data)
  then show ?thesis unfolding on_read_dtc_def Let_def by (intro same_intros twinsD [OF assms])
qed

lemma on_security_same:
  assumes "twins sim n b b'"
  shows "same_flow (on_security clk rnd sim req n (mk_out b 0 0)) (on_security clk rnd sim req n (mk_out b' 0 0))"
proof -
  have key: "same_flow
      (do { (rc, p, out) \<leftarrow> uds_core_sec_send_key clk sub (Some key) (length key) (Some (sim_security sim)) n (mk_out b 0 0);
            Some (Inr (rc, upd rc p, out)) })
      (do { (rc, p, out) \<leftarrow> uds_core_sec_send_key clk sub (Some key) (length key) (Some (sim_security sim)) n (mk_out b' 0 0);
            Some (Inr (rc, upd rc p, out)) })"
    if "key \<noteq> []" for sub key upd
  proof -
    from that obtain k ks where "key = k # ks" by (cases key) auto
    then show ?thesis using send_key_blind.same_then [OF twinsD(3,1,2) [OF assms], of clk sub k ks] by simp
  qed
  show ?thesis unfolding on_security_def Let_def length_drop [symmetric]
    by (intro same_intros request_seed_blind.same_call twinsD [OF assms] key) (auto simp: UDS_CORE_SEED_LEN_def)
qed

lemma dispatch_switch_same:
  assumes "twins sim n b b'"
  shows "same_flow (dispatch_switch clk rnd sim sid req n (mk_out b 0 0)) (dispatch_switch clk rnd sim sid req n (mk_out b' 0 0))"
  unfolding dispatch_switch_def
  by (simp add: same_reject [OF twinsD(2) [OF assms]] on_dsc_same [OF assms] on_tester_present_same [OF assms] on_security_same [OF assms]
      on_read_did_same [OF assms] on_write_did_same [OF assms] on_ecu_reset_same [OF assms]
      on_comm_control_same [OF assms] on_clear_dtc_same [OF assms] on_read_dtc_same [OF assms]
      on_request_download_same [OF assms] on_request_upload_same [OF assms]
      on_transfer_data_same [OF assms] on_transfer_exit_same [OF assms])


definition same_reply :: "EcuSimulator \<times> u8 list \<times> nat \<Rightarrow> EcuSimulator \<times> u8 list \<times> nat \<Rightarrow> bool" where
  "same_reply r r' \<longleftrightarrow> (case (r, r') of ((sim, b, l), (sim', b', l')) \<Rightarrow>
     sim' = sim \<and> l' = l \<and> length b' = length b \<and> l \<le> length b \<and> take l b' = take l b)"

lemma dispatch_same:
  assumes "sim_inv sim" "all_backed (sim_did_reg sim)" "length req < 2 ^ 32" "3 \<le> n" "n \<le> length b" "length b' = length b"
  shows "\<exists>r r'. ecusim_dispatch clk rnd sim req b n = Some r \<and> ecusim_dispatch clk rnd sim req b' n = Some r' \<and> same_reply r r'"
proof (cases req)
  case Nil
  with assms(6) show ?thesis by (simp add: ecusim_dispatch_def same_reply_def)
next
  case (Cons sid rest)
  from assms have tw: "twins sim n b b'" by (simp add: twins_def ready_def)
  note same = dispatch_switch_same [OF tw, of clk rnd sid req]
  from dispatch_switch_handled [of sim n b req sid clk rnd] assms
  have "handled (serves sid sim) n b sid (dispatch_switch clk rnd sim sid req n (mk_out b 0 0))" by (simp add: ready_def)
  then consider
      (rejected) sim' d where "dispatch_switch clk rnd sim sid req n (mk_out b 0 0) = Some (Inl (sim', mk_out d 3 0))" "length d = length b"
    | (ok) sim' d l where "dispatch_switch clk rnd sim sid req n (mk_out b 0 0) = Some (Inr (UDS_CORE_OK, sim', mk_out d l 0))"
        "length d = length b"
    | (failed) sim' d rc c where "dispatch_switch clk rnd sim sid req n (mk_out b 0 0) = Some (Inr (rc, sim', mk_out d 0 c))"
        "rc \<noteq> UDS_CORE_OK" "length d = length b"
    unfolding handled_def by blast
  then show ?thesis
  proof cases
    case rejected
    from same [unfolded rejected(1)] obtain d' where
      "dispatch_switch clk rnd sim sid req n (mk_out b' 0 0) = Some (Inl (sim', mk_out d' 3 0))"
      "length d' = length d" "take 3 d' = take 3 d" "3 \<le> length d" by (rule same_flowE)
    with rejected Cons assms show ?thesis by (simp add: ecusim_dispatch_def mem_simps same_reply_def)
  next
    case ok
    from same [unfolded ok(1)] obtain d' where
      "dispatch_switch clk rnd sim sid req n (mk_out b' 0 0) = Some (Inr (UDS_CORE_OK, sim', mk_out d' l 0))"
      "length d' = length d" "l \<le> length d \<and> take l d' = take l d" by (rule same_flow_serviceE) blast
    with ok Cons assms show ?thesis by (simp add: ecusim_dispatch_def mem_simps same_reply_def)
  next
    case failed
    from same [unfolded failed(1)] obtain d' where
      "dispatch_switch clk rnd sim sid req n (mk_out b' 0 0) = Some (Inr (rc, sim', mk_out d' 0 c))"
      "length d' = length d" by (rule same_flow_serviceE)
    with failed Cons assms show ?thesis
      by (cases "c = 0") (simp_all add: ecusim_dispatch_def mem_simps same_reply_def build_nrc_mk)
  qed
qed


text \<open>No request takes a buffer away from an entry.\<close>

lemma dispatch_backed:
  assumes "sim_inv sim" "all_backed (sim_did_reg sim)" "length req < 2 ^ 32" "3 \<le> n" "n \<le> length b"
    "ecusim_dispatch clk rnd sim req b n = Some (sim', b', l)"
  shows "all_backed (sim_did_reg sim')"
  unfolding all_backed_def
proof (intro allI impI)
  fix d e
  assume e: "did_lookup (sim_did_reg sim') d = Some e"
  show "did_backed e"
  proof (cases "did_lookup (sim_did_reg sim') d = did_lookup (sim_did_reg sim) d")
    case True
    with e assms(2) show ?thesis by (simp add: all_backed_def)
  next
    case False
    from dispatch_did_change [OF assms(1,3-6) False] e obtain e0 where
      "did_lookup (sim_did_reg sim) d = Some e0" "e = written e0 (drop 3 req)" by auto
    with assms(2) show ?thesis by (auto simp: all_backed_def written_simps)
  qed
qed

section \<open>The loop on two pairs of buffers\<close>

definition sized :: "u8 list \<Rightarrow> bool" where
  "sized b \<longleftrightarrow> length b = ECUSIM_MAX_PDU"

text \<open>A round with a request, from the results of its three calls.\<close>

lemma round_with_request:
  assumes "uds_tp_recv K blank (Some (sim_sock sim)) (sim_resp_can_id sim) (Some rq) ECUSIM_MAX_PDU (Some 0) (Some sim_tp_cfg) k =
      Some (UDS_TP_OK, Some c, Some l, k1)" "l \<le> length c"
    and "ecusim_dispatch (env_clock env k1) (env_rand env k1) sim (take l c) rp ECUSIM_MAX_PDU = Some (sim1, b, m)" "m \<le> length b"
    and "uds_tp_send K (env_sleep env) blank (Some (sim_sock sim1)) (sim_resp_can_id sim1) (Some (take m b)) m (Some sim_tp_cfg) k1 =
      Some (rc, k2)"
  shows "ecusim_round K env blank sim rq rp k = Some (sim1, c, b, if m = 0 then k1 else k2)"
  using assms by (simp add: ecusim_round_def mem_simps)

lemma round_unseen:
  assumes "reads_whole (\<lambda>f. length (can_data f) = 8) K" "sim_inv sim" "all_backed (sim_did_reg sim)"
    "sized rq" "sized rp" "sized rq'" "sized rp'"
  obtains sim1 k1 sq sp sq' sp' where "ecusim_round K env blank sim rq rp k = Some (sim1, sq, sp, k1)"
    "ecusim_round K env blank sim rq' rp' k = Some (sim1, sq', sp', k1)" "sim_inv sim1" "all_backed (sim_did_reg sim1)"
    "sized sq" "sized sp" "sized sq'" "sized sp'" "sim_running sim1 = sim_running sim"
proof -
  from assms(4-7) have n: "ECUSIM_MAX_PDU \<le> length rq" "length rq' = length rq" "ECUSIM_MAX_PDU < 2 ^ 32"
    by (simp_all add: sized_def ECUSIM_MAX_PDU_def)
  from recv_unseen [OF assms(1) n, of blank "sim_sock sim" "sim_resp_can_id sim" 0 "Some sim_tp_cfg" k] obtain rc c c' l k1 where
    r: "uds_tp_recv K blank (Some (sim_sock sim)) (sim_resp_can_id sim) (Some rq) ECUSIM_MAX_PDU (Some 0) (Some sim_tp_cfg) k =
        Some (rc, Some c, Some l, k1)"
      "uds_tp_recv K blank (Some (sim_sock sim)) (sim_resp_can_id sim) (Some rq') ECUSIM_MAX_PDU (Some 0) (Some sim_tp_cfg) k =
        Some (rc, Some c', Some l, k1)"
    and c: "length c = length rq" "length c' = length rq" "rc = UDS_TP_OK \<Longrightarrow> agree l c c'" by blast
  from recv_safe [OF assms(1) n(1,3), of blank "sim_sock sim" "sim_resp_can_id sim" 0 "Some sim_tp_cfg" k] r(1)
  have l: "rc = UDS_TP_OK \<Longrightarrow> l \<le> length rq" using n(1) by auto
  show thesis
  proof (cases "rc = UDS_TP_OK")
    case False
    with r have "ecusim_round K env blank sim rq rp k = Some (sim, c, rp, k1)" "ecusim_round K env blank sim rq' rp' k = Some (sim, c', rp', k1)"
      by (simp_all add: ecusim_round_def)
    moreover have "sized c" "sized c'" using c(1,2) assms(4) by (simp_all add: sized_def)
    ultimately show thesis using assms(2,3,5,7) that by blast
  next
    case True
    with l c n(1) have lc: "l \<le> length c" "l \<le> length c'" "take l c' = take l c" "length (take l c) < 2 ^ 32"
      using assms(4) by (simp_all add: agree_def sized_def ECUSIM_MAX_PDU_def)
    from assms(5,7) have room: "3 \<le> ECUSIM_MAX_PDU" "ECUSIM_MAX_PDU \<le> length rp" "length rp' = length rp"
      by (simp_all add: sized_def ECUSIM_MAX_PDU_def)
    from dispatch_same [OF assms(2,3) lc(4) room] obtain r1 r2 where
      "ecusim_dispatch (env_clock env k1) (env_rand env k1) sim (take l c) rp ECUSIM_MAX_PDU = Some r1"
      "ecusim_dispatch (env_clock env k1) (env_rand env k1) sim (take l c) rp' ECUSIM_MAX_PDU = Some r2" "same_reply r1 r2" by blast
    then obtain sim1 b b' m where
      d: "ecusim_dispatch (env_clock env k1) (env_rand env k1) sim (take l c) rp ECUSIM_MAX_PDU = Some (sim1, b, m)"
        "ecusim_dispatch (env_clock env k1) (env_rand env k1) sim (take l c') rp' ECUSIM_MAX_PDU = Some (sim1, b', m)"
      and b: "length b' = length b" "m \<le> length b" "m \<le> length b'" "take m b' = take m b"
      by (cases r1; cases r2) (simp add: same_reply_def lc(3))
    note step = dispatch_step [OF assms(2) lc(4) room(1,2) d(1)]
    obtain rc2 k2 where snd: "uds_tp_send K (env_sleep env) blank (Some (sim_sock sim1)) (sim_resp_can_id sim1) (Some (take m b))
        m (Some sim_tp_cfg) k1 = Some (rc2, k2)"
      using send_safe [OF assms(1), of "env_sleep env" blank "sim_sock sim1" "sim_resp_can_id sim1" "take m b" "Some sim_tp_cfg" k1]
        b(2) by auto
    show thesis
    proof (rule that)
      show "ecusim_round K env blank sim rq rp k = Some (sim1, c, b, if m = 0 then k1 else k2)"
        using r(1) True lc(1) d(1) b(2) snd by (intro round_with_request) simp_all
      show "ecusim_round K env blank sim rq' rp' k = Some (sim1, c', b', if m = 0 then k1 else k2)"
        using r(2) True lc(2) d(2) b(3,4) snd by (intro round_with_request) simp_all
      show "sim_running sim1 = sim_running sim" using step(2,3) by (auto simp: owns_def)
    qed (use step(1,5) dispatch_backed [OF assms(2,3) lc(4) room(1,2) d(1)] c(1,2) b(1) assms(4,5) in \<open>simp_all add: sized_def\<close>)
  qed
qed

lemma rounds_unseen:
  assumes "reads_whole (\<lambda>f. length (can_data f) = 8) K"
  shows "sim_inv sim \<Longrightarrow> all_backed (sim_did_reg sim) \<Longrightarrow> sized rq \<Longrightarrow> sized rp \<Longrightarrow> sized rq' \<Longrightarrow> sized rp' \<Longrightarrow>
    \<exists>sim1 k1 sq sp sq' sp'. ecusim_rounds K env blank m (sim, rq, rp, k) = Some (sim1, sq, sp, k1) \<and>
      ecusim_rounds K env blank m (sim, rq', rp', k) = Some (sim1, sq', sp', k1)"
proof (induction m arbitrary: sim rq rp rq' rp' k)
  case (Suc m)
  obtain sim1 k1 sq sp sq' sp' where "ecusim_round K env blank sim rq rp k = Some (sim1, sq, sp, k1)"
    "ecusim_round K env blank sim rq' rp' k = Some (sim1, sq', sp', k1)" "sim_inv sim1" "all_backed (sim_did_reg sim1)"
    "sized sq" "sized sp" "sized sq'" "sized sp'" by (rule round_unseen [OF assms Suc.prems])
  with Suc.IH [of sim1 sq sp sq' sp' k1] show ?case by simp
qed simp

lemma loop_unseen:
  assumes "ecusim_loop K env blank sim rq rp k = Some y"
  shows "reads_whole (\<lambda>f. length (can_data f) = 8) K \<longrightarrow> sim_inv sim \<longrightarrow> all_backed (sim_did_reg sim) \<longrightarrow> sized rq \<longrightarrow>
    sized rp \<longrightarrow> sized rq' \<longrightarrow> sized rp' \<longrightarrow> ecusim_loop K env blank sim rq' rp' k = Some y"
proof -
  have "reads_whole (\<lambda>f. length (can_data f) = 8) K \<longrightarrow> sim_inv sim \<longrightarrow> all_backed (sim_did_reg sim) \<longrightarrow> sized rq \<longrightarrow>
    sized rp \<longrightarrow> (\<forall>rq' rp'. sized rq' \<longrightarrow> sized rp' \<longrightarrow> ecusim_loop K env blank sim rq' rp' k = Some y)"
  proof (rule ecusim_loop.raw_induct [where P = "\<lambda>K env blank sim rq rp k y.
      reads_whole (\<lambda>f. length (can_data f) = 8) K \<longrightarrow> sim_inv sim \<longrightarrow> all_backed (sim_did_reg sim) \<longrightarrow> sized rq \<longrightarrow>
      sized rp \<longrightarrow> (\<forall>rq' rp'. sized rq' \<longrightarrow> sized rp' \<longrightarrow> ecusim_loop K env blank sim rq' rp' k = Some y)",
      OF _ assms], intro impI allI)
    fix loop and K :: "(can_frame, 'a) can_kernel" and env blank sim rq rp k y rq' rp'
    assume IH: "\<And>K env blank sim rq rp k y. loop K env blank sim rq rp k = Some y \<Longrightarrow>
        reads_whole (\<lambda>f. length (can_data f) = 8) K \<longrightarrow> sim_inv sim \<longrightarrow> all_backed (sim_did_reg sim) \<longrightarrow> sized rq \<longrightarrow>
        sized rp \<longrightarrow> (\<forall>rq' rp'. sized rq' \<longrightarrow> sized rp' \<longrightarrow> ecusim_loop K env blank sim rq' rp' k = Some y)"
      and body: "(let sim = if env_stopped env k then sim\<lparr>sim_running := 0\<rparr> else sim
        in if sim_running sim \<noteq> 0
           then do { (sim, rq, rp, k) \<leftarrow> ecusim_round K env blank sim rq rp k; loop K env blank sim rq rp k }
           else Some (sim, k)) = Some y"
      and w: "reads_whole (\<lambda>f. length (can_data f) = 8) K"
      and inv: "sim_inv sim" "all_backed (sim_did_reg sim)" "sized rq" "sized rp" "sized rq'" "sized rp'"
    show "ecusim_loop K env blank sim rq' rp' k = Some y"
    proof (cases "env_stopped env k \<or> sim_running sim = 0")
      case True
      with body show ?thesis by (subst ecusim_loop.simps) (auto simp: Let_def split: if_splits)
    next
      case False
      obtain sim1 k1 sq sp sq' sp' where r: "ecusim_round K env blank sim rq rp k = Some (sim1, sq, sp, k1)"
        "ecusim_round K env blank sim rq' rp' k = Some (sim1, sq', sp', k1)" "sim_inv sim1" "all_backed (sim_did_reg sim1)"
        "sized sq" "sized sp" "sized sq'" "sized sp'" by (rule round_unseen [OF w inv])
      from body r(1) False have "loop K env blank sim1 sq sp k1 = Some y" by simp
      with IH w r(3-8) have "ecusim_loop K env blank sim1 sq' sp' k1 = Some y" by blast
      with r(2) False show ?thesis by (subst ecusim_loop.simps) simp
    qed
  qed
  then show ?thesis by blast
qed

section \<open>Properties\<close>

text \<open>
  C9. What the buffers of the run loop hold is never seen. Run one simulator twice on the same kernel,
  with any two contents of its uninitialised request and response buffers: the two runs return the same,
  or both never return, and after every number of rounds they are in the same simulator state and have
  left the same kernel state, that is, the same frames on the bus. So no byte that was in a buffer
  before, and none of an earlier request or response, reaches a tester. The only requirement on the
  simulator besides its invariant is that every data identifier has a buffer, which the default data
  satisfies.
\<close>

theorem buffers_unseen:
  assumes "reads_whole (\<lambda>f. length (can_data f) = 8) K" "sim_inv sim" "all_backed (sim_did_reg sim)"
    and "length rq = ECUSIM_MAX_PDU" "length rp = ECUSIM_MAX_PDU" "length rq' = ECUSIM_MAX_PDU" "length rp' = ECUSIM_MAX_PDU"
  shows "ecusim_run K env blank rq rp (Some sim) k = ecusim_run K env blank rq' rp' (Some sim) k \<and>
    (\<exists>sim1 k1 sq sp sq' sp'. ecusim_rounds K env blank m (sim, rq, rp, k) = Some (sim1, sq, sp, k1) \<and>
      ecusim_rounds K env blank m (sim, rq', rp', k) = Some (sim1, sq', sp', k1))"
proof -
  have s: "sized rq" "sized rp" "sized rq'" "sized rp'" using assms(4-7) by (simp_all add: sized_def)
  have "ecusim_loop K env blank sim rq rp k = ecusim_loop K env blank sim rq' rp' k"
  proof (cases "ecusim_loop K env blank sim rq rp k")
    case None
    then have "ecusim_loop K env blank sim rq' rp' k \<noteq> Some y" for y
      using loop_unseen [of K env blank sim rq' rp' k y rq rp] assms(1-3) s by auto
    with None show ?thesis by (cases "ecusim_loop K env blank sim rq' rp' k") auto
  next
    case (Some y)
    with loop_unseen [OF Some, of rq' rp'] assms(1-3) s show ?thesis by simp
  qed
  with rounds_unseen [OF assms(1-3) s] show ?thesis by (simp add: ecusim_run_def)
qed

text \<open>A peer that asks for the identification number for ever; the stack is clear, or it holds 0xAA.\<close>

theorem buffers_unseen_witness:
  "\<exists>sim1 k1 sq sp sq' sp'.
    ecusim_rounds (repeating_kernel 16 \<lparr>can_id = 0x601, can_dlc = 8, can_data = [0x03, 0x22, 0xF1, 0x90, 0, 0, 0, 0]\<rparr>)
      \<lparr>env_clock = (\<lambda>_ _. \<lparr>tv_sec = 0, tv_nsec = 0\<rparr>), env_rand = (\<lambda>_ _. 0), env_sleep = (\<lambda>_ k. k), env_stopped = (\<lambda>_. False)\<rparr>
      \<lparr>can_id = 0, can_dlc = 0, can_data = []\<rparr> 9 (boot_sim \<lparr>tv_sec = 0, tv_nsec = 0\<rparr> 1 3, replicate ECUSIM_MAX_PDU 0, replicate ECUSIM_MAX_PDU 0,
       \<lparr>vc_in = [], vc_out = [], vc_open = 1, vc_filters = [], vc_slept = 0\<rparr>) = Some (sim1, sq, sp, k1) \<and>
    ecusim_rounds (repeating_kernel 16 \<lparr>can_id = 0x601, can_dlc = 8, can_data = [0x03, 0x22, 0xF1, 0x90, 0, 0, 0, 0]\<rparr>)
      \<lparr>env_clock = (\<lambda>_ _. \<lparr>tv_sec = 0, tv_nsec = 0\<rparr>), env_rand = (\<lambda>_ _. 0), env_sleep = (\<lambda>_ k. k), env_stopped = (\<lambda>_. False)\<rparr>
      \<lparr>can_id = 0, can_dlc = 0, can_data = []\<rparr> 9 (boot_sim \<lparr>tv_sec = 0, tv_nsec = 0\<rparr> 1 3, replicate ECUSIM_MAX_PDU 0xAA, replicate ECUSIM_MAX_PDU 0xAA,
       \<lparr>vc_in = [], vc_out = [], vc_open = 1, vc_filters = [], vc_slept = 0\<rparr>) = Some (sim1, sq', sp', k1)"
proof -
  let ?f = "\<lparr>can_id = 0x601, can_dlc = 8, can_data = [0x03, 0x22, 0xF1, 0x90, 0, 0, 0, 0]\<rparr>"
  have w: "reads_whole (\<lambda>f. length (can_data f) = 8) (repeating_kernel 16 ?f)" by (rule repeating_whole) simp
  have backed: "all_backed (sim_did_reg (boot_sim \<lparr>tv_sec = 0, tv_nsec = 0\<rparr> 1 3))" by (simp add: all_backed_def boot_backed)
  show ?thesis
    by (rule buffers_unseen [OF w boot_sim_inv backed length_replicate length_replicate length_replicate length_replicate, THEN conjunct2])
qed

end
