(* ===== verification/EcuFlash.thy ===== *)
theory EcuFlash
  imports EcuTrace
begin

text \<open>
  Reprogramming through the dispatcher: a tester that sends RequestDownload, the blocks of an image and
  RequestTransferExit to the simulator, whatever its session and security state are.
\<close>

section \<open>A conversation\<close>

text \<open>
  The requests of a list, one after the other: the final simulator and buffer, and the responses. The
  clock and \<open>rand()\<close> may read anything at every request.
\<close>

fun talk :: "(nat \<Rightarrow> clock) \<Rightarrow> (nat \<Rightarrow> nat \<Rightarrow> int) \<Rightarrow> nat \<Rightarrow> nat \<Rightarrow> u8 list list \<Rightarrow> EcuSimulator \<Rightarrow> u8 list \<Rightarrow>
    (EcuSimulator \<times> u8 list \<times> u8 list list) option" where
  "talk clk rnd n i [] sim b = Some (sim, b, [])"
| "talk clk rnd n i (req # reqs) sim b = do {
     (sim, b, l) \<leftarrow> ecusim_dispatch (clk i) (rnd i) sim req b n;
     (sim', b', rs) \<leftarrow> talk clk rnd n (Suc i) reqs sim b;
     Some (sim', b', take l b # rs) }"

lemma talk_append:
  "talk clk rnd n i xs sim b = Some (sim1, b1, rs) \<Longrightarrow> talk clk rnd n (i + length xs) ys sim1 b1 = Some (sim2, b2, rs') \<Longrightarrow>
   talk clk rnd n i (xs @ ys) sim b = Some (sim2, b2, rs @ rs')"
  by (induction xs arbitrary: i sim b rs) (fastforce simp: bind_eq_Some_conv)+

text \<open>The requests that carry the blocks of an image, and the answers to them.\<close>

fun block_requests :: "u8 \<Rightarrow> u8 list list \<Rightarrow> u8 list list" where
  "block_requests q [] = []"
| "block_requests q (d # ds) = ([0x36, q] @ d) # block_requests (next_seq q) ds"

fun block_answers :: "u8 \<Rightarrow> u8 list list \<Rightarrow> u8 list list" where
  "block_answers q [] = []"
| "block_answers q (d # ds) = [0x76, q] # block_answers (next_seq q) ds"

abbreviation put_flash_xfer :: "UdsFlashMemory \<Rightarrow> UdsXferSession \<Rightarrow> EcuSimulator \<Rightarrow> EcuSimulator" where
  "put_flash_xfer f x sim \<equiv> sim\<lparr>sim_flash := f, sim_xfer := x\<rparr>"

lemma put_transfer_Some: "put_transfer sim (Some x, Some f) = put_flash_xfer f x sim"
  by (simp add: put_transfer_def)

lemma dispatch_download:
  assumes "flash_inv (sim_flash sim)" "xf_mode (sim_xfer sim) = UDS_XFER_IDLE"
    "parse_addr_len_fmt fmt (Some d) (length d) = Some (Some (addr, sz))" "sz \<noteq> 0"
    "flash_programmable (sim_flash sim) (unat addr) (unat sz)" "4 \<le> n" "n \<le> length b"
  shows "ecusim_dispatch clk rnd sim ([0x34, dfi, fmt] @ d) b n =
    Some (put_flash_xfer ((sim_flash sim)\<lparr>fl_data := patch (unat addr) (replicate (unat sz) 0xFF) (fl_data (sim_flash sim))\<rparr>)
      (begin_xfer UDS_XFER_DOWNLOAD addr sz) sim, splice 0 [0x74, 0x20, 0x00, 0x0F] b, 4)"
proof -
  have "on_request_download sim ([0x34, dfi, fmt] @ d) n (mk_out b 0 0) =
      Some (Inr (UDS_CORE_OK, put_flash_xfer ((sim_flash sim)\<lparr>fl_data := patch (unat addr) (replicate (unat sz) 0xFF) (fl_data (sim_flash sim))\<rparr>)
        (begin_xfer UDS_XFER_DOWNLOAD addr sz) sim, mk_out (splice 0 [0x74, 0x20, 0x00, 0x0F] b) 4 0))"
    using requests_from_idle(1) [OF assms(1,3-7,2), of 0 0]
    by (simp add: on_request_download_def mem_simps call_def put_transfer_Some)
  then show ?thesis by (simp only: append_Cons append_Nil) (rule dispatch_okI, simp add: dispatch_switch_def)
qed

lemma dispatch_block:
  assumes "flash_inv (sim_flash sim)" "xfer_inv (sim_flash sim) (sim_xfer sim)" "xf_mode (sim_xfer sim) = UDS_XFER_DOWNLOAD"
    "d \<noteq> []" "length d \<le> xfer_left (sim_xfer sim)" "flash_programmable (sim_flash sim) (xfer_pos (sim_xfer sim)) (length d)"
    "2 \<le> n" "n \<le> length b"
  shows "ecusim_dispatch clk rnd sim ([0x36, block_seq (sim_xfer sim)] @ d) b n =
    Some (put_flash_xfer ((sim_flash sim)\<lparr>fl_data := patch (xfer_pos (sim_xfer sim)) d (fl_data (sim_flash sim))\<rparr>)
      (step_seq (advance (length d) (sim_xfer sim))) sim, splice 0 [0x76, block_seq (sim_xfer sim)] b, 2)"
proof -
  from assms(3) have mode: "xf_mode (sim_xfer sim) \<noteq> UDS_XFER_IDLE" by simp
  have len: "length d < 2 ^ 32" using xfer_arith(6) [OF assms(1,2) mode] assms(5) by simp
  have "uds_svc_transfer_data (block_seq (sim_xfer sim)) (Some d) (length d) (Some (sim_xfer sim), Some (sim_flash sim)) n (mk_out b 0 0) =
      Some (UDS_CORE_OK, (Some (step_seq (advance (length d) (sim_xfer sim))),
        Some ((sim_flash sim)\<lparr>fl_data := patch (xfer_pos (sim_xfer sim)) d (fl_data (sim_flash sim))\<rparr>)),
        mk_out (splice 0 [0x76, block_seq (sim_xfer sim)] b) 2 0)"
    using assms(1-4) len assms(8)
    by (cases rule: download_block [where l = 0 and c = 0]) (use assms(5-7) in \<open>simp_all add: Let_def\<close>)
  then have "on_transfer_data sim ([0x36, block_seq (sim_xfer sim)] @ d) n (mk_out b 0 0) =
      Some (Inr (UDS_CORE_OK, put_flash_xfer ((sim_flash sim)\<lparr>fl_data := patch (xfer_pos (sim_xfer sim)) d (fl_data (sim_flash sim))\<rparr>)
        (step_seq (advance (length d) (sim_xfer sim))) sim, mk_out (splice 0 [0x76, block_seq (sim_xfer sim)] b) 2 0))"
    by (simp add: on_transfer_data_def mem_simps call_def put_transfer_Some)
  then show ?thesis by (simp only: append_Cons append_Nil) (rule dispatch_okI, simp add: dispatch_switch_def)
qed

lemma dispatch_exit:
  assumes "xf_mode (sim_xfer sim) \<noteq> UDS_XFER_IDLE" "1 \<le> n" "n \<le> length b"
  shows "ecusim_dispatch clk rnd sim [0x37] b n = Some (sim\<lparr>sim_xfer := zero_xfer\<rparr>, splice 0 [0x77] b, 1)"
proof -
  have "on_transfer_exit sim n (mk_out b 0 0) =
      Some (Inr (UDS_CORE_OK, sim\<lparr>sim_xfer := zero_xfer\<rparr>, mk_out (splice 0 [0x77] b) 1 0))"
    using assms by (simp add: on_transfer_exit_def uds_svc_transfer_exit_def call_def mem_simps)
  then show ?thesis by (intro dispatch_okI) (simp add: dispatch_switch_def)
qed

lemma talk_blocks:
  assumes "flash_inv (sim_flash sim)" "xfer_inv (sim_flash sim) (sim_xfer sim)" "xf_mode (sim_xfer sim) = UDS_XFER_DOWNLOAD"
    "[] \<notin> set ds" "length (concat ds) \<le> xfer_left (sim_xfer sim)" "flash_programmable (sim_flash sim) a tot"
    "a \<le> xfer_pos (sim_xfer sim)" "xfer_pos (sim_xfer sim) + length (concat ds) \<le> a + tot" "2 \<le> n" "n \<le> length b"
  shows "\<exists>x b'. talk clk rnd n i (block_requests (block_seq (sim_xfer sim)) ds) sim b =
      Some (put_flash_xfer ((sim_flash sim)\<lparr>fl_data := patch (xfer_pos (sim_xfer sim)) (concat ds) (fl_data (sim_flash sim))\<rparr>) x sim,
        b', block_answers (block_seq (sim_xfer sim)) ds) \<and>
    xf_mode x = UDS_XFER_DOWNLOAD \<and> length b' = length b"
  using assms(1-8,10)
proof (induction ds arbitrary: sim b i)
  case Nil
  then show ?case by (intro exI [of _ "sim_xfer sim"] exI [of _ b]) simp
next
  case (Cons d ds)
  let ?x = "sim_xfer sim" and ?f = "sim_flash sim"
  let ?f1 = "?f\<lparr>fl_data := patch (xfer_pos ?x) d (fl_data ?f)\<rparr>" and ?x1 = "step_seq (advance (length d) ?x)"
  let ?sim1 = "put_flash_xfer ?f1 ?x1 sim" and ?b1 = "splice 0 [0x76, block_seq ?x] b"
  from Cons.prems(3) have mode: "xf_mode ?x \<noteq> UDS_XFER_IDLE" by simp
  from Cons.prems have d: "d \<noteq> []" "length d \<le> xfer_left ?x" by auto
  have prog: "flash_programmable ?f (xfer_pos ?x) (length d)"
    using flash.sub_write [OF Cons.prems(6,7)] Cons.prems(8) d(1) by simp
  note adv = advance_inv [OF Cons.prems(1,2) mode d(2)]
  have b1: "length ?b1 = length b" using assms(9) Cons.prems(9) by simp
  have "ecusim_dispatch (clk i) (rnd i) sim ([0x36, block_seq ?x] @ d) b n = Some (?sim1, ?b1, 2)"
    by (rule dispatch_block [OF Cons.prems(1-3) d prog assms(9) Cons.prems(9)])
  moreover have "take 2 ?b1 = [0x76, block_seq ?x]" by simp
  moreover have "\<exists>x b'. talk clk rnd n (Suc i) (block_requests (block_seq (sim_xfer ?sim1)) ds) ?sim1 ?b1 =
      Some (put_flash_xfer ((sim_flash ?sim1)\<lparr>fl_data := patch (xfer_pos (sim_xfer ?sim1)) (concat ds) (fl_data (sim_flash ?sim1))\<rparr>) x ?sim1,
        b', block_answers (block_seq (sim_xfer ?sim1)) ds) \<and> xf_mode x = UDS_XFER_DOWNLOAD \<and> length b' = length ?b1"
    using Cons.prems adv b1 by (intro Cons.IH) simp_all
  ultimately show ?case using adv(2,5) b1 by (auto simp: patch_append)
qed


section \<open>Properties\<close>

text \<open>
  C16. Reprogramming needs neither a session nor a key. From any well-formed state of the simulator without
  an open transfer, whatever its session is and whether or not security access has been granted, the
  requests RequestDownload, TransferData for every block of an image and RequestTransferExit are all
  answered positively: the range holds the image, every other byte of the flash and every other part of
  the simulator is as before. (The design asks for the programming session and level 3.)
\<close>

theorem reflash_needs_no_session:
  assumes "sim_inv sim" "xf_mode (sim_xfer sim) = UDS_XFER_IDLE"
    and "1 \<le> na" "na \<le> 4" "1 \<le> ns" "ns \<le> 4" "unat addr < 2 ^ (8 * na)" "unat sz < 2 ^ (8 * ns)" "sz \<noteq> 0"
    and "flash_programmable (sim_flash sim) (unat addr) (unat sz)" "[] \<notin> set ds" "length (concat ds) = unat sz"
    and "4 \<le> n" "n \<le> length b"
  shows "\<exists>f b'. talk clk rnd n 0 (([0x34, dfi, of_nat (16 * ns + na)] @ be_bytes na addr @ be_bytes ns sz) # block_requests 1 ds @ [[0x37]]) sim b =
      Some (sim\<lparr>sim_flash := f, sim_xfer := zero_xfer\<rparr>, b', [0x74, 0x20, 0x00, 0x0F] # block_answers 1 ds @ [[0x77]]) \<and>
    (\<forall>i. fl_data f i = (if unat addr \<le> i \<and> i < unat addr + unat sz then concat ds ! (i - unat addr)
                        else fl_data (sim_flash sim) i))"
proof -
  let ?f = "sim_flash sim" and ?fmt = "of_nat (16 * ns + na)" and ?d = "be_bytes na addr @ be_bytes ns sz"
  have parse: "parse_addr_len_fmt ?fmt (Some ?d) (length ?d) = Some (Some (addr, sz))"
    using parse_format_roundtrip [OF assms(3-8), of "[]"] by simp
  let ?f1 = "?f\<lparr>fl_data := patch (unat addr) (replicate (unat sz) 0xFF) (fl_data ?f)\<rparr>"
  let ?x1 = "begin_xfer UDS_XFER_DOWNLOAD addr sz"
  let ?sim1 = "put_flash_xfer ?f1 ?x1 sim" and ?b1 = "splice 0 [0x74, 0x20, 0x00, 0x0F] b"
  let ?f2 = "?f1\<lparr>fl_data := patch (unat addr) (concat ds) (fl_data ?f1)\<rparr>"
  from assms(1) have inv: "flash_inv ?f" by (simp add: sim_inv_def)
  have first: "ecusim_dispatch (clk 0) (rnd 0) sim ([0x34, dfi, ?fmt] @ ?d) b n = Some (?sim1, ?b1, 4)"
    by (rule dispatch_download [OF inv assms(2) parse assms(9,10,13,14)])
  have b1: "n \<le> length ?b1" using assms(13,14) by simp
  have rd: "flash_readable ?f (unat addr) (unat sz)" using assms(10) by (rule flash.readable)
  have f1: "flash_inv (sim_flash ?sim1)" "flash_programmable (sim_flash ?sim1) (unat addr) (unat sz)" using inv assms(10) by simp_all
  have x1: "xfer_inv (sim_flash ?sim1) (sim_xfer ?sim1)" "xf_mode (sim_xfer ?sim1) = UDS_XFER_DOWNLOAD"
    using rd assms(9) by (simp_all add: xfer_inv_begin)
  have fits: "length (concat ds) \<le> xfer_left (sim_xfer ?sim1)" "unat addr \<le> xfer_pos (sim_xfer ?sim1)"
    "xfer_pos (sim_xfer ?sim1) + length (concat ds) \<le> unat addr + unat sz" "2 \<le> n" using assms(12,13) by simp_all
  from talk_blocks [OF f1(1) x1 assms(11) fits(1) f1(2) fits(2-4) b1, of clk rnd 1] obtain x b2 where
    blocks: "talk clk rnd n 1 (block_requests 1 ds) ?sim1 ?b1 = Some (put_flash_xfer ?f2 x ?sim1, b2, block_answers 1 ds)"
      "xf_mode x = UDS_XFER_DOWNLOAD" "length b2 = length ?b1" by auto
  let ?sim2 = "put_flash_xfer ?f2 x ?sim1"
  have b2: "1 \<le> n" "n \<le> length b2" using assms(13) b1 blocks(3) by simp_all
  let ?j = "1 + length (block_requests 1 ds)"
  have "xf_mode (sim_xfer ?sim2) \<noteq> UDS_XFER_IDLE" using blocks(2) by simp
  from dispatch_exit [OF this b2] have "talk clk rnd n ?j [[0x37]] ?sim2 b2 =
      Some (?sim2\<lparr>sim_xfer := zero_xfer\<rparr>, splice 0 [0x77] b2, [[0x77]])" by simp
  from talk_append [OF blocks(1) this] first have
    "talk clk rnd n 0 (([0x34, dfi, ?fmt] @ ?d) # block_requests 1 ds @ [[0x37]]) sim b =
      Some (sim\<lparr>sim_flash := ?f2, sim_xfer := zero_xfer\<rparr>, splice 0 [0x77] b2, [0x74, 0x20, 0x00, 0x0F] # block_answers 1 ds @ [[0x77]])"
    by simp
  moreover have "\<forall>i. fl_data ?f2 i = (if unat addr \<le> i \<and> i < unat addr + unat sz then concat ds ! (i - unat addr) else fl_data ?f i)"
    using assms(12) by (auto simp: patch_def)
  ultimately show ?thesis by blast
qed

text \<open>Three bytes into a simulator that has just started, in the default session and locked.\<close>

theorem reflash_needs_no_session_witness:
  "\<exists>f b'. talk (\<lambda>_ _. \<lparr>tv_sec = 0, tv_nsec = 0\<rparr>) (\<lambda>_ _. 0) 4095 0
      [[0x34, 0x00, 0x11, 0x20, 3], [0x36, 1, 7], [0x36, 2, 8, 9], [0x37]]
      (boot_sim \<lparr>tv_sec = 0, tv_nsec = 0\<rparr> 1 3) (replicate 4095 0) =
    Some ((boot_sim \<lparr>tv_sec = 0, tv_nsec = 0\<rparr> 1 3)\<lparr>sim_flash := f, sim_xfer := zero_xfer\<rparr>, b',
      [[0x74, 0x20, 0x00, 0x0F], [0x76, 1], [0x76, 2], [0x77]]) \<and> fl_data f 0x21 = 8"
proof -
  let ?sim = "boot_sim \<lparr>tv_sec = 0, tv_nsec = 0\<rparr> 1 3"
  have p: "be_bytes 1 0x20 = [0x20]" "be_bytes 1 3 = [3]" "of_nat (16 * 1 + 1) = (0x11 :: u8)" by code_simp+
  have idle: "xf_mode (sim_xfer ?sim) = UDS_XFER_IDLE" by (simp add: boot_sim_def zero_xfer_def)
  have w: "flash_programmable (sim_flash ?sim) (unat (0x20 :: u32)) (unat (3 :: u32))"
    by (simp add: flash_programmable_def regions_of_def boot_sim_def in_region_def)
  from reflash_needs_no_session [OF boot_sim_inv idle, of 1 1 "0x20" 3, OF _ _ _ _ _ _ _ w, where ds = "[[7], [8, 9]]" and n = 4095 and b = "replicate 4095 0"
      and clk = "\<lambda>_ _. \<lparr>tv_sec = 0, tv_nsec = 0\<rparr>" and rnd = "\<lambda>_ _. 0" and dfi = 0]
  obtain f b' where r: "talk (\<lambda>_ _. \<lparr>tv_sec = 0, tv_nsec = 0\<rparr>) (\<lambda>_ _. 0) 4095 0
      (([0x34, 0, 0x11] @ [0x20, 3]) # block_requests 1 [[7], [8, 9]] @ [[0x37]]) ?sim (replicate 4095 0) =
      Some (?sim\<lparr>sim_flash := f, sim_xfer := zero_xfer\<rparr>, b', [0x74, 0x20, 0x00, 0x0F] # block_answers 1 [[7], [8, 9]] @ [[0x77]])"
    "\<forall>i. fl_data f i = (if unat (0x20 :: u32) \<le> i \<and> i < unat (0x20 :: u32) + unat (3 :: u32)
       then concat [[7], [8, 9]] ! (i - unat (0x20 :: u32)) else fl_data (sim_flash ?sim) i)"
    unfolding p by (auto simp del: talk.simps)
  from r(2) have "fl_data f 0x21 = 8" by simp
  moreover from r(1) have "talk (\<lambda>_ _. \<lparr>tv_sec = 0, tv_nsec = 0\<rparr>) (\<lambda>_ _. 0) 4095 0
      [[0x34, 0x00, 0x11, 0x20, 3], [0x36, 1, 7], [0x36, 2, 8, 9], [0x37]] ?sim (replicate 4095 0) =
    Some (?sim\<lparr>sim_flash := f, sim_xfer := zero_xfer\<rparr>, b', [[0x74, 0x20, 0x00, 0x0F], [0x76, 1], [0x76, 2], [0x77]])"
    by (simp add: next_seq_def del: talk.simps)
  ultimately show ?thesis by blast
qed

end
