(* ===== verification/Spec2Isabelle.thy ===== *)
theory Spec2Isabelle
  imports Nrc Session Security DataServices Dtc Routine Flash FlashServices CanSocket IsoTpFrame IsoTp
    IsoTpSegments IsoTpLink IsoTpSafe IsoTpView IsoTpWire IsoTpKept EcuSim Dispatch EcuTrace EcuRun
    EcuWire EcuBus EcuMain IsoTpUnseen EcuUnseen EcuFlash
begin

text \<open>
  A verification library for the UDS diagnostic simulator: the C program under \<open>src/\<close>, which lets a
  simulated ECU answer diagnostic requests (ISO 14229-1) that reach it as ISO-TP transfers
  (ISO 15765-2) over SocketCAN.

  \<^bold>\<open>The program.\<close> \<open>main\<close> parses its arguments, calls \<open>ecusim_init\<close> and enters \<open>ecusim_run\<close>. One round of
  that loop is: \<open>uds_tp_recv\<close> reassembles a request from CAN frames, \<open>ecusim_dispatch\<close> selects a service
  by the first byte, the service checks and updates its part of the simulator and writes its response
  or a negative response code, and \<open>uds_tp_send\<close> segments the response. All layers share three
  conventions, which the model keeps: results are error codes, outputs go through pointers, and a
  NULL pointer is refused with a parameter error.

  \<^bold>\<open>Theories and sources.\<close>

  \<^item> \<open>Prelude\<close>: machine integers, pointers and memory accesses (a faulty access is \<open>None\<close>), and the
    contract \<open>keyed_table\<close> of the first-match searches (\<open>did_find\<close>, \<open>routine_find\<close>).
  \<^item> \<open>Nrc\<close>: \<open>core/nrc.c\<close>, \<open>include/uds_nrc.h\<close>. Response codes and their names.
  \<^item> \<open>Service\<close>: the result codes of \<open>include/uds_core.h\<close>, the three out-pointers of a service and what
    a service promises: \<open>uds_service\<close> (the state invariant is kept, no fault, a response of at most
    \<open>resp_size\<close> bytes, a code exactly with \<open>UDS_CORE_ERR_NRC\<close>) and its extension \<open>positive_service\<close> (a
    positive response starts with the request identifier plus 0x40). Both are interpreted for every
    service, in the theory of that service, and so is \<open>blind_service\<close>: on two buffers of the same size a
    service gives the same result, up to bytes of the buffer that are not part of the response. For
    the services of the dispatcher \<open>answering_service\<close> bounds the requests that may get no answer.
  \<^item> \<open>Session\<close>, \<open>Security\<close>, \<open>DataServices\<close>, \<open>Dtc\<close>, \<open>Routine\<close>: \<open>core/session.c\<close>, \<open>core/security.c\<close>,
    \<open>core/data.c\<close>, \<open>core/dtc.c\<close>, \<open>core/routine_control.c\<close>, with their headers. The records have the
    fields of the C structures; a registry holds its table, and an entry its data buffer, as the
    content of the pointer.
  \<^item> \<open>Flash\<close>, \<open>FlashServices\<close>: \<open>bootloader/flash.c\<close> and \<open>bootloader/flash_services.c\<close>. The services
    see the memory through the contract \<open>flash_device\<close>, which \<open>Flash\<close> interprets on its operations.
  \<^item> \<open>CanSocket\<close>: \<open>can/can_socket.c\<close>, over a record \<open>can_kernel\<close> of the system calls it makes. \<open>can_link\<close>
    is what a socket that delivers frames in order promises; it is interpreted on the virtual CAN
    interface the program is used with.
  \<^item> \<open>IsoTpFrame\<close>, \<open>IsoTp\<close>: \<open>tp/iso_tp.c\<close>. The frame codecs, classic and FD, with the laws \<open>tp_codec\<close>
    interpreted on both, and the loops of the sender and the receiver. The classic and the FD loops of
    the source are the same up to the codec they call, so each is written once over a codec; the
    entry points \<open>uds_tp_send\<close>, \<open>uds_tp_recv\<close>, \<open>uds_tp_send_fd\<close>, \<open>uds_tp_recv_fd\<close> keep their own guards.
  \<^item> \<open>IsoTpSegments\<close>: the segmentation of a PDU, as a list of frames, over any \<open>tp_codec\<close>; \<open>IsoTpView\<close>:
    what the bytes of a frame say, by ISO 15765-2, and a reference reassembler over them, with the laws
    \<open>viewed_codec\<close> that tie the decoders of the code to it, interpreted on both codecs.
  \<^item> \<open>IsoTpLink\<close>: sender and receiver joined (\<open>tp_link\<close>, built from \<open>tp_codec\<close> and \<open>can_link\<close>).
    \<open>IsoTpSafe\<close>: both against an arbitrary peer (\<open>safe_codec\<close>). \<open>IsoTpWire\<close>: what each of them puts on
    and takes from the bus, whatever the peer does, for a kernel whose state records its history
    (\<open>tp_observed\<close>, interpreted on any kernel with a log). \<open>IsoTpKept\<close>: relations between kernel states
    that no transfer breaks, however it ends (\<open>tp_kept\<close>, interpreted on the growth of that log).
    \<open>IsoTpUnseen\<close>: reception into two different buffers (\<open>blind_codec\<close>, interpreted on both codecs).
  \<^item> \<open>EcuSim\<close>: \<open>ecusim/ecusim.c\<close>. The record \<open>EcuSimulator\<close>, one definition per case of the dispatcher's
    \<open>switch\<close>, the default data, and init, run, stop and cleanup. \<open>Dispatch\<close>: its invariant and
    contract. \<open>EcuTrace\<close>: conversations of many requests. \<open>EcuRun\<close>: the life cycle and the run loop.
    \<open>EcuWire\<close>: a tester and the ECU on one bus. \<open>EcuBus\<close>: the ECU on a bus with anybody. \<open>EcuFlash\<close>: an image
    programmed through the dispatcher. \<open>EcuUnseen\<close>: two runs of the loop on different uninitialised
    buffers. \<open>EcuMain\<close>: \<open>ecusim/main.c\<close>.

  \<^bold>\<open>What is shown.\<close>

  \<^item> Each service: its behaviour on every branch, errors included (\<open>write_did_guarded\<close>,
    \<open>read_did_exact\<close>, \<open>clear_dtc_exact\<close>, \<open>dsc_effect\<close>, \<dots>), its round trips (\<open>write_then_read_did\<close>,
    \<open>clear_all_then_read\<close>, \<open>download_upload_roundtrip\<close>), and where it has a life cycle an abstract
    specification it refines (\<open>send_key_refines\<close>, \<open>routine_control_refines\<close>) with what follows over
    runs of requests (\<open>brute_force_bound\<close>, \<open>stop_needs_start\<close>, \<open>transfer_run_safe\<close>).
  \<^item> Transport: a transfer delivers exactly the PDU, and each side consumes exactly the frames the
    other one sends, classic and FD (\<open>tp_transfer_exact\<close>, \<open>tp_transfer_exact_fd\<close>); a receiver that
    asks to wait too often is given up (\<open>tp_send_wait_frames\<close>); against arbitrary frames and failing
    system calls both sides return and stay in their buffers (\<open>tp_recv_safe\<close>, \<open>tp_send_safe\<close>), the sender
    says a prefix of the segmentation of its PDU and nothing else (\<open>tp_send_prefix\<close>), and the receiver
    reports exactly the PDU the reference reassembler reads in the frames it took (\<open>tp_recv_refines\<close>).
  \<^item> The simulator: the dispatcher never faults, keeps the joint invariant \<open>sim_inv\<close>, answers in
    bounds, touches only the part its service owns, and leaves no request without an answer but those
    of \<open>may_stay_silent\<close> (\<open>dispatch_safe\<close>); malformed requests change
    nothing (\<open>dispatch_refuses\<close>); data behind a security level only changes after an accepted key, over
    any conversation (\<open>protected_data_needs_key\<close>), and a tester who follows the procedure gets in
    (\<open>tester_can_write\<close>). A round of the loop serves a request end to end (\<open>round_serves\<close>), so that an exchange
    of a tester with the ECU over the bus is a call of the dispatcher (\<open>exchange_over_bus\<close>); on a bus with
    anybody the rounds are still a conversation that accounts for every frame (\<open>bus_refines_conversation\<close>),
    so that protected data needs the key on the bus (\<open>protected_data_on_bus\<close>), and every frame the ECU says
    is well-formed (\<open>ecu_frames_wf\<close>); and the loop returns exactly when it is stopped
    (\<open>run_ends_iff_stopped\<close>). What its uninitialised buffers hold has no effect on any of this
    (\<open>buffers_unseen\<close>), provided that every data identifier has a buffer; without one, old bytes are
    sent (\<open>unbacked_did_leaks\<close>).
  \<^item> Behaviour that departs from its documentation is stated as it is: \<open>reset_lifts_lockout\<close>,
    \<open>unlock_survives_session\<close>, \<open>cleanup_after_failed_init\<close>, \<open>main_ignores_signals\<close>,
    \<open>reflash_needs_no_session\<close>.
  \<^item> The documents under \<open>design/\<close> ask for more, and in places for something else, than the headers and
    the code; the theorems follow the code. So the third wrong key is answered
    \<open>exceededNumberOfAttempts\<close> and not \<open>invalidKey\<close> (\<open>send_key_refines\<close>, \<open>brute_force_bound\<close>), the
    programming session is 0x02 and not 0x10 (\<open>dsc_effect\<close>), data can be written in the extended session
    (\<open>tester_can_write\<close>), and trouble codes can be cleared in any session (\<open>clear_dtc_exact\<close>).

  \<^bold>\<open>Loops and bounds.\<close> Loops over tables and buffers are structural recursion on the number of
  remaining elements, or have a measure; no fuel is used. The loops that wait for a peer or run for
  ever (\<open>tp_send_loop\<close>, \<open>tp_recv_loop\<close>, \<open>ecusim_loop\<close>, \<open>main_loop\<close>) are partial functions into \<open>option\<close>: not
  returning is \<open>None\<close>, so a theorem with \<open>Some\<close> on its right also says that the code returns.
  Lengths are \<open>nat\<close>; where the code narrows a length the theorems carry the bound that makes the
  narrowing exact (2^32 for transfers and flash writes). A response buffer has at least the three
  bytes of a negative response where the dispatcher is concerned.

  \<^bold>\<open>Parameters.\<close> The system calls on a CAN socket (\<open>can_kernel\<close>), the monotonic clock, \<open>rand()\<close>,
  \<open>nanosleep\<close>, the delivery of signals to the handlers \<open>main\<close> installs (\<open>sig_env\<close>) and the moment another
  thread calls \<open>ecusim_stop\<close> are arguments. The
  hypotheses on them are those of the documented interface: reads fill whole frames
  (\<open>reads_whole\<close>), \<open>socket\<close> and \<open>close\<close> account for descriptors (\<open>fd_accounting\<close>),
  and, where a theorem speaks of the frames on the bus against an arbitrary peer, two histories of the
  frames read and written that the calls extend (\<open>observed\<close>), which any kernel has once it is logged.

  \<^bold>\<open>Not modelled.\<close> The text the program prints; concurrency inside a
  round (the flag \<open>running\<close> is sampled where the loop tests it); the routine registry inside the
  simulator, which has none (service 0x31 is modelled as a library in \<open>Routine\<close>, but the dispatcher
  does not route it). The Python tools, the tests and the build files are not part of the C program.
\<close>

end
